(* ===== verification/Prelude.thy ===== *)
theory Prelude
  imports Main "HOL-Library.Word"
begin

text \<open>
  Shared vocabulary of the development: Go's 64-bit \<open>int\<close>, decimal conversion as
  \<^verbatim>\<open>strconv.Itoa\<close> and \<^verbatim>\<open>strconv.Atoi\<close> do it, Go slices (which tell \<open>nil\<close> from empty),
  and the generic lemmas the components use.
\<close>

named_theorems go_eval "definitions unfolded to evaluate a model on a concrete input"

section \<open>Integers\<close>

text \<open>
  \<open>int\<close>, \<open>int64\<close> and \<open>time.Duration\<close> are 64-bit two's complement on the platforms the
  program runs on: \<open>+\<close> and \<open>*\<close> wrap, \<open>sint\<close> reads the value.
\<close>

type_synonym gint = "64 word"

definition in_int64 :: "int \<Rightarrow> bool" where
  "in_int64 i \<longleftrightarrow> - (2 ^ 63) \<le> i \<and> i < 2 ^ 63"

lemma in_int64_sint [simp]: "in_int64 (sint (w :: gint))"
  using sint_ge [of w] sint_lt [of w] by (simp add: in_int64_def)

lemma sint_gint_of_int: "in_int64 i \<Longrightarrow> sint (word_of_int i :: gint) = i"
  by (simp add: in_int64_def sint_sbintrunc' signed_take_bit_int_eq_self)

lemma gint_of_sint [simp]: "word_of_int (sint w) = (w :: gint)"
  by (simp add: scast_id)

lemma sint_gint_add:
  "in_int64 (sint a + sint b) \<Longrightarrow> sint (a + b :: gint) = sint a + sint b"
  using sint_gint_of_int [of "sint a + sint b"] by (simp add: scast_id)

lemma sint_gint_mult:
  "in_int64 (sint a * sint b) \<Longrightarrow> sint (a * b :: gint) = sint a * sint b"
  using sint_gint_of_int [of "sint a * sint b"] by (simp add: scast_id)

lemma gint_eqI: "sint (a :: gint) = sint b \<Longrightarrow> a = b"
  by (metis gint_of_sint)

text \<open>Go's \<open>/\<close> on integers truncates towards zero.\<close>

definition gdiv :: "gint \<Rightarrow> gint \<Rightarrow> gint" where
  "gdiv a b = word_of_int (sgn (sint a) * sgn (sint b) * (\<bar>sint a\<bar> div \<bar>sint b\<bar>))"

lemma gdiv_nonneg:
  assumes "0 \<le> sint a" and "0 < sint b"
  shows "sint (gdiv a b) = sint a div sint b"
proof -
  have "sgn (sint a) * sgn (sint b) * (\<bar>sint a\<bar> div \<bar>sint b\<bar>) = sint a div sint b"
    using assms by (cases "sint a = 0") (auto simp: sgn_if)
  moreover have "in_int64 (sint a div sint b)"
  proof -
    have "sint a div sint b \<le> sint a"
      using zdiv_mono2 [of "sint a" 1 "sint b"] assms by simp
    moreover have "0 \<le> sint a div sint b"
      using assms by (simp add: pos_imp_zdiv_nonneg_iff)
    ultimately show ?thesis
      using in_int64_sint [of a] unfolding in_int64_def by linarith
  qed
  ultimately show ?thesis
    by (simp only: gdiv_def sint_gint_of_int)
qed

section \<open>Decimal text\<close>

definition dig :: "nat \<Rightarrow> char" where
  "dig d = char_of (48 + d)"

definition is_digit :: "char \<Rightarrow> bool" where
  "is_digit c \<longleftrightarrow> 48 \<le> (of_char c :: nat) \<and> (of_char c :: nat) \<le> 57"

fun nat_dec :: "nat \<Rightarrow> string" where
  "nat_dec n = (if n < 10 then [dig n] else nat_dec (n div 10) @ [dig (n mod 10)])"

declare nat_dec.simps [simp del]

definition digits_val :: "string \<Rightarrow> nat" where
  "digits_val s = foldl (\<lambda>a c. a * 10 + (of_char c - 48)) 0 s"

lemma of_char_dig [simp]: "d < 10 \<Longrightarrow> (of_char (dig d) :: nat) = 48 + d"
  by (simp add: dig_def)

lemma is_digit_dig [simp]: "d < 10 \<Longrightarrow> is_digit (dig d)"
  by (simp add: is_digit_def)

lemma digits_val_snoc [simp]:
  "digits_val (s @ [c]) = digits_val s * 10 + (of_char c - 48)"
  by (simp add: digits_val_def)

lemma digits_val_nat_dec [simp]: "digits_val (nat_dec n) = n"
proof (induction n rule: nat_dec.induct)
  case (1 n)
  show ?case
  proof (cases "n < 10")
    case True
    then show ?thesis by (simp add: nat_dec.simps [of n] digits_val_def)
  next
    case False
    with 1 show ?thesis
      by (simp add: nat_dec.simps [of n])
  qed
qed

lemma nat_dec_digits: "\<forall>c \<in> set (nat_dec n). is_digit c"
proof (induction n rule: nat_dec.induct)
  case (1 n)
  then show ?case by (subst nat_dec.simps) auto
qed

lemma nat_dec_nonempty [simp]: "nat_dec n \<noteq> []"
  by (subst nat_dec.simps) simp

text \<open>A canonical numeral starts with a zero only when it is the zero.\<close>

lemma nat_dec_hd_zero: "0 < n \<Longrightarrow> hd (nat_dec n) \<noteq> CHR ''0''"
proof (induction n rule: nat_dec.induct)
  case (1 n)
  show ?case
  proof (cases "n < 10")
    case True
    have "(of_char (dig n) :: nat) \<noteq> of_char (CHR ''0'')"
      using True 1 by simp
    then have "dig n \<noteq> CHR ''0''" by metis
    with True show ?thesis by (simp add: nat_dec.simps [of n])
  next
    case False
    with 1 show ?thesis by (simp add: nat_dec.simps [of n])
  qed
qed

lemma nat_dec_zero: "nat_dec 0 = ''0''"
proof -
  have "of_char (dig 0) = (of_char (CHR ''0'') :: nat)" by simp
  then have "dig 0 = CHR ''0''" by (simp only: of_char_eq_iff)
  then show ?thesis by (simp add: nat_dec.simps)
qed

definition itoa :: "gint \<Rightarrow> string" where
  "itoa w = (let i = sint w in if i < 0 then CHR ''-'' # nat_dec (nat (- i)) else nat_dec (nat i))"

text \<open>
  \<^verbatim>\<open>strconv.Atoi\<close>: an optional sign, at least one decimal digit, nothing else, and a value
  that fits in an \<open>int\<close>; any other text is an error, here \<open>None\<close>.
\<close>

definition atoi :: "string \<Rightarrow> gint option" where
  "atoi s =
     (let neg = (s \<noteq> [] \<and> hd s = CHR ''-'');
          ds = (if s \<noteq> [] \<and> (hd s = CHR ''-'' \<or> hd s = CHR ''+'') then tl s else s);
          v = (if neg then - int (digits_val ds) else int (digits_val ds))
      in if ds \<noteq> [] \<and> list_all is_digit ds \<and> in_int64 v then Some (word_of_int v) else None)"

lemma digit_not_sign: "is_digit c \<Longrightarrow> c \<noteq> CHR ''-'' \<and> c \<noteq> CHR ''+''"
  by (auto simp: is_digit_def)

lemma atoi_itoa [simp]: "atoi (itoa w) = Some w"
proof (cases "sint w < 0")
  case True
  have "list_all is_digit (nat_dec (nat (- sint w)))"
    using nat_dec_digits by (auto simp: list_all_iff)
  with True show ?thesis
    by (simp add: itoa_def atoi_def Let_def)
next
  case False
  have ds: "list_all is_digit (nat_dec (nat (sint w)))"
    using nat_dec_digits by (auto simp: list_all_iff)
  then have "is_digit (hd (nat_dec (nat (sint w))))"
    by (cases "nat_dec (nat (sint w))") auto
  with digit_not_sign have "hd (nat_dec (nat (sint w))) \<noteq> CHR ''-''"
    and "hd (nat_dec (nat (sint w))) \<noteq> CHR ''+''" by auto
  with False ds show ?thesis
    by (simp add: itoa_def atoi_def Let_def)
qed

lemma itoa_nonempty [simp]: "itoa w \<noteq> []"
  by (simp add: itoa_def Let_def)

lemma atoi_range: "atoi s = Some w \<Longrightarrow> in_int64 (sint w)"
  by simp

section \<open>Slices\<close>

text \<open>A Go slice is \<open>nil\<close> or a sequence; \<open>len\<close> and \<open>range\<close> see \<open>nil\<close> as empty.\<close>

type_synonym 'a slice = "'a list option"

definition elems :: "'a slice \<Rightarrow> 'a list" where
  "elems xs = (case xs of None \<Rightarrow> [] | Some ys \<Rightarrow> ys)"

lemma elems_simps [simp]: "elems None = []" "elems (Some ys) = ys"
  by (simp_all add: elems_def)

lemma map_of_keys_Some: "map_of kvs k = Some v \<Longrightarrow> k \<in> fst ` set kvs"
  by (force dest: map_of_SomeD)

text \<open>A polling loop: one pause of length \<open>p\<close> uses up one of the pauses left before the deadline.\<close>

lemma pauses_left:
  fixes p dt deadline now :: int
  assumes "0 < p" and "0 \<le> dt" and "now + dt \<le> deadline"
  shows "max 0 ((deadline - (now + dt + p)) div p + 1) \<le> max 0 ((deadline - now) div p + 1) - 1"
proof -
  have "(deadline - (now + dt + p)) div p \<le> (deadline - now - p) div p"
    using assms(1,2) by (intro zdiv_mono1) auto
  also have "\<dots> = (deadline - now) div p - 1"
    using div_mult_self1 [of p "deadline - now" "- 1"] assms(1) by simp
  finally have "(deadline - (now + dt + p)) div p + 1 \<le> (deadline - now) div p" by simp
  moreover have "0 \<le> (deadline - now) div p"
    using assms by (intro pos_imp_zdiv_nonneg_iff [THEN iffD2]) auto
  ultimately show ?thesis by simp
qed

end
