(* ===== verification/Go_Utf8.thy ===== *)
theory Go_Utf8
  imports Prelude
begin

text \<open>
  Go strings are byte sequences that need not be text. This theory models the part of
  \<^verbatim>\<open>unicode/utf8\<close> that \<^verbatim>\<open>encoding/json\<close> depends on: reading one rune from a byte string
  (with Go's table of well-formed sequences), writing one rune, and the replacement of
  every byte that starts no rune by U+FFFD. The components need from it which strings
  survive a JSON round trip unchanged.
\<close>

abbreviation byte :: "char \<Rightarrow> nat" where
  "byte c \<equiv> of_char c"

definition cont_byte :: "char \<Rightarrow> bool" where
  "cont_byte c \<longleftrightarrow> 128 \<le> byte c \<and> byte c \<le> 191"

text \<open>
  The length of the rune a byte string starts with, \<open>0\<close> where \<^verbatim>\<open>utf8.DecodeRune\<close> reports
  \<^verbatim>\<open>(RuneError, 1)\<close>: no overlong forms, no surrogates, nothing above U+10FFFF.
\<close>

definition rune_len2 :: "char list \<Rightarrow> nat" where
  "rune_len2 s = (case s of x # _ \<Rightarrow> if cont_byte x then 2 else 0 | _ \<Rightarrow> 0)"

definition rune_len3 :: "nat \<Rightarrow> nat \<Rightarrow> char list \<Rightarrow> nat" where
  "rune_len3 lo hi s =
     (case s of x # y # _ \<Rightarrow> if lo \<le> byte x \<and> byte x \<le> hi \<and> cont_byte y then 3 else 0 | _ \<Rightarrow> 0)"

definition rune_len4 :: "nat \<Rightarrow> nat \<Rightarrow> char list \<Rightarrow> nat" where
  "rune_len4 lo hi s =
     (case s of x # y # z # _ \<Rightarrow>
        if lo \<le> byte x \<and> byte x \<le> hi \<and> cont_byte y \<and> cont_byte z then 4 else 0 | _ \<Rightarrow> 0)"

fun rune_len :: "string \<Rightarrow> nat" where
  "rune_len [] = 0"
| "rune_len (c # s) =
     (let b = byte c in
      if b < 128 then 1
      else if b < 194 then 0
      else if b < 224 then rune_len2 s
      else if b = 224 then rune_len3 160 191 s
      else if b = 237 then rune_len3 128 159 s
      else if b < 240 then rune_len3 128 191 s
      else if b = 240 then rune_len4 144 191 s
      else if b < 244 then rune_len4 128 191 s
      else if b = 244 then rune_len4 128 143 s
      else 0)"

lemmas rune_len_defs = rune_len2_def rune_len3_def rune_len4_def

lemma rune_len_le: "rune_len s \<le> length s"
  by (cases s) (auto simp: Let_def rune_len_defs split: list.splits)

lemma rune_len_le4: "rune_len s \<le> 4"
  by (cases s) (auto simp: Let_def rune_len_defs split: list.splits)

text \<open>A rune is recognised by its own bytes, whatever follows it.\<close>

lemma rune_tail_append:
  "0 < rune_len2 s \<Longrightarrow> rune_len2 (s @ t) = rune_len2 s"
  "0 < rune_len3 lo hi s \<Longrightarrow> rune_len3 lo hi (s @ t) = rune_len3 lo hi s"
  "0 < rune_len4 lo hi s \<Longrightarrow> rune_len4 lo hi (s @ t) = rune_len4 lo hi s"
  by (auto simp: rune_len_defs split: list.splits if_splits)

lemma rune_tail_take:
  "0 < rune_len2 s \<Longrightarrow> rune_len2 (take (rune_len2 s - Suc 0) s) = rune_len2 s"
  "0 < rune_len3 lo hi s \<Longrightarrow> rune_len3 lo hi (take (rune_len3 lo hi s - Suc 0) s) = rune_len3 lo hi s"
  "0 < rune_len4 lo hi s \<Longrightarrow> rune_len4 lo hi (take (rune_len4 lo hi s - Suc 0) s) = rune_len4 lo hi s"
  by (auto simp: rune_len_defs split: list.splits if_splits)

lemma rune_len_append: "0 < rune_len s \<Longrightarrow> rune_len (s @ t) = rune_len s"
  by (cases s) (simp_all add: Let_def rune_tail_append split: if_split_asm)

lemma rune_len_take0: "0 < rune_len s \<Longrightarrow> rune_len (take (rune_len s) s) = rune_len s"
  by (cases s) (simp_all add: Let_def take_Cons' rune_tail_take split: if_split_asm)

lemma rune_len_take: "0 < rune_len s \<Longrightarrow> rune_len (take (rune_len s) s @ t) = rune_len s"
  by (metis rune_len_append rune_len_take0)

lemma rune_len_ascii: "byte c < 128 \<Longrightarrow> rune_len (c # s) = 1"
  by simp

text \<open>A byte string as the sequence of its runes; \<open>None\<close> is one byte that starts none.\<close>

function runes :: "string \<Rightarrow> string option list" where
  "runes [] = []"
| "runes (c # s) =
     (if rune_len (c # s) = 0 then None # runes s
      else Some (take (rune_len (c # s)) (c # s)) # runes (drop (rune_len (c # s)) (c # s)))"
  by pat_completeness auto
termination
  by (relation "measure length") auto

declare runes.simps(2) [simp del]

definition replacement :: string where
  "replacement = map char_of [239, 191, 189 :: nat]"

definition valid_utf8 :: "string \<Rightarrow> bool" where
  "valid_utf8 s \<longleftrightarrow> None \<notin> set (runes s)"

text \<open>What a byte string becomes when it passes through JSON (\<^verbatim>\<open>strings.ToValidUTF8\<close> per byte).\<close>

definition utf8_fix :: "string \<Rightarrow> string" where
  "utf8_fix s = concat (map (case_option replacement id) (runes s))"

definition is_rune :: "string \<Rightarrow> bool" where
  "is_rune r \<longleftrightarrow> r \<noteq> [] \<and> rune_len r = length r"

lemma is_rune_take: "0 < rune_len s \<Longrightarrow> is_rune (take (rune_len s) s)"
  using rune_len_take [of s "[]"] rune_len_le [of s] by (auto simp: is_rune_def)

lemma runes_are_runes: "Some r \<in> set (runes s) \<Longrightarrow> is_rune r"
proof (induction s rule: runes.induct)
  case 1
  then show ?case by simp
next
  case (2 c s)
  then show ?case
    using is_rune_take [of "c # s"] by (auto simp: runes.simps(2) split: if_splits)
qed

lemma runes_rune_append:
  assumes "is_rune r"
  shows "runes (r @ s) = Some r # runes s"
proof -
  obtain c r' where r: "r = c # r'" using assms by (cases r) (auto simp: is_rune_def)
  have "rune_len (r @ s) = length r"
    using rune_len_append [of r s] assms by (auto simp: is_rune_def)
  with r show ?thesis by (simp add: runes.simps(2))
qed

lemma runes_ascii: "byte c < 128 \<Longrightarrow> runes (c # s) = Some [c] # runes s"
  by (simp add: runes.simps(2))

lemma valid_utf8_fix: "valid_utf8 s \<Longrightarrow> utf8_fix s = s"
proof (induction s rule: runes.induct)
  case 1
  then show ?case by (simp add: utf8_fix_def)
next
  case (2 c s)
  from "2.prems" have nz: "rune_len (c # s) \<noteq> 0"
    by (auto simp: valid_utf8_def runes.simps(2) simp del: rune_len.simps split: if_splits)
  with 2 have "utf8_fix (drop (rune_len (c # s)) (c # s)) = drop (rune_len (c # s)) (c # s)"
    by (auto simp: valid_utf8_def runes.simps(2) simp del: rune_len.simps)
  with nz show ?case
    by (simp add: utf8_fix_def runes.simps(2) del: rune_len.simps)
qed

lemma is_rune_replacement [simp]: "is_rune replacement"
  by (simp add: is_rune_def replacement_def Let_def rune_len_defs cont_byte_def)

lemma runes_concat: "\<forall>r \<in> set rs. is_rune r \<Longrightarrow> runes (concat rs) = map Some rs"
  by (induction rs) (auto simp: runes_rune_append)

lemma valid_utf8_utf8_fix [simp]: "valid_utf8 (utf8_fix s)"
proof -
  have "\<forall>r \<in> set (map (case_option replacement id) (runes s)). is_rune r"
    using runes_are_runes [of _ s] by (auto split: option.splits)
  then show ?thesis
    unfolding utf8_fix_def valid_utf8_def by (subst runes_concat) auto
qed

lemma utf8_fix_idem [simp]: "utf8_fix (utf8_fix s) = utf8_fix s"
  by (simp add: valid_utf8_fix)

lemma valid_utf8_ascii: "\<forall>c \<in> set s. byte c < 128 \<Longrightarrow> valid_utf8 s"
  by (induction s) (auto simp: valid_utf8_def runes_ascii)

lemma valid_utf8_Nil [simp]: "valid_utf8 []"
  by (simp add: valid_utf8_def)

text \<open>\<^verbatim>\<open>utf8.EncodeRune\<close>; a value that is no code point is written as U+FFFD.\<close>

definition encode_rune :: "nat \<Rightarrow> string" where
  "encode_rune n =
     (if n < 128 then [char_of n]
      else if n < 2048 then map char_of [192 + n div 64, 128 + n mod 64]
      else if 55296 \<le> n \<and> n \<le> 57343 \<or> 1114111 < n then replacement
      else if n < 65536 then
        map char_of [224 + n div 4096, 128 + n div 64 mod 64, 128 + n mod 64]
      else
        map char_of [240 + n div 262144, 128 + n div 4096 mod 64,
                     128 + n div 64 mod 64, 128 + n mod 64])"

lemma encode_rune_nonempty [simp]: "encode_rune n \<noteq> []"
  by (simp add: encode_rune_def replacement_def)

end
