(* ===== verification/Go_Json_RT.thy ===== *)
theory Go_Json_RT
  imports Go_Json
begin

text \<open>
  Decoding what the JSON encoder wrote: string literals, integers, then whole values. The
  final lemma \<open>json_parse_jprint\<close> is the law every component that stores or sends JSON
  rests on.
\<close>

section \<open>String literals\<close>

lemma hex_val_dig [simp]: "d < 16 \<Longrightarrow> hex_val (hex_dig d) = Some d"
  by (auto simp: hex_val_def hex_dig_def Let_def)

lemma nibbles:
  assumes "n < 65536"
  shows "((n div 4096 mod 16 * 16 + n div 256 mod 16) * 16 + n div 16 mod 16) * 16 + n mod 16 = (n::nat)"
proof -
  have "n div 256 = n div 16 div 16" "n div 4096 = n div 256 div 16"
    by (simp_all add: div_mult2_eq [symmetric])
  moreover have "n div 4096 mod 16 = n div 4096" using assms by (simp add: less_mult_imp_div_less)
  ultimately show ?thesis
    using div_mult_mod_eq [of n 16] div_mult_mod_eq [of "n div 16" 16]
      div_mult_mod_eq [of "n div 256" 16] by simp
qed

lemma hex_run_digits:
  "a < 16 \<Longrightarrow> b < 16 \<Longrightarrow> c < 16 \<Longrightarrow> d < 16 \<Longrightarrow>
    hex_run 4 0 (map hex_dig [a, b, c, d] @ s) = Done (((a * 16 + b) * 16 + c) * 16 + d) s"
  by (simp add: numeral_eq_Suc)

lemma hex_run_u_esc:
  assumes "n < 65536"
  shows "hex_run 4 0 (map hex_dig [n div 4096 mod 16, n div 256 mod 16, n div 16 mod 16, n mod 16] @ s)
    = Done n s"
  by (subst hex_run_digits) (simp_all only: nibbles [OF assms] mod_less_divisor zero_less_numeral)

lemma unescape_u_esc: "n < 65536 \<Longrightarrow> unescape (tl (u_esc n) @ s) = u_rune n s"
  using hex_run_u_esc [of n s] by (simp add: u_esc_def unescape_def)

lemma jstring_u_esc:
  "n < 65536 \<Longrightarrow> n < 55296 \<or> 57343 < n
    \<Longrightarrow> jstring (u_esc n @ s) = prepend (encode_rune n) (jstring s)"
  using unescape_u_esc [of n s]
  by (auto simp: u_esc_def jstring.simps(2) u_rune_def)

lemma jstring_ascii:
  "byte c < 128 \<Longrightarrow> 32 \<le> byte c \<Longrightarrow> c \<noteq> CHR 0x22 \<Longrightarrow> c \<noteq> CHR 0x5C
    \<Longrightarrow> jstring (c # s) = prepend [c] (jstring s)"
  by (simp add: jstring.simps(2) Let_def)

lemma byte_eqD: "byte d = n \<Longrightarrow> byte c = n \<Longrightarrow> c = d"
  by (metis of_char_eq_iff)

lemma byte_special:
  "byte c = 34 \<Longrightarrow> c = CHR 0x22" "byte c = 92 \<Longrightarrow> c = CHR 0x5C" "byte c = 8 \<Longrightarrow> c = CHR 0x08"
  "byte c = 12 \<Longrightarrow> c = CHR 0x0C" "byte c = 10 \<Longrightarrow> c = CHR 0x0A" "byte c = 13 \<Longrightarrow> c = CHR 0x0D"
  "byte c = 9 \<Longrightarrow> c = CHR 0x09"
  by (rule byte_eqD [rotated], assumption, simp)+

definition short_escaped :: "nat \<Rightarrow> bool" where
  "short_escaped b \<longleftrightarrow> b = 34 \<or> b = 92 \<or> b = 8 \<or> b = 12 \<or> b = 10 \<or> b = 13 \<or> b = 9"

lemma jstring_short_escape:
  "short_escaped (byte c) \<Longrightarrow> jstring (esc_ascii c @ s) = prepend [c] (jstring s)"
  unfolding short_escaped_def
  by (elim disjE; drule byte_special; simp add: esc_ascii_def jstring.simps(2) unescape_def)

lemma esc_ascii_cases:
  "\<not> short_escaped (byte c) \<Longrightarrow>
    esc_ascii c = (if byte c < 32 \<or> byte c = 60 \<or> byte c = 62 \<or> byte c = 38 then u_esc (byte c) else [c])"
  unfolding short_escaped_def esc_ascii_def Let_def by presburger

lemma jstring_esc_ascii:
  assumes "byte c < 128"
  shows "jstring (esc_ascii c @ s) = prepend [c] (jstring s)"
proof (cases "short_escaped (byte c)")
  case True
  then show ?thesis by (rule jstring_short_escape)
next
  case False
  have rune: "encode_rune (byte c) = [c]" using assms by (simp add: encode_rune_def)
  have "c \<noteq> CHR 0x22" "c \<noteq> CHR 0x5C" using False by (auto simp: short_escaped_def)
  then show ?thesis
    using assms rune jstring_u_esc [of "byte c" s] jstring_ascii [of c s]
    by (simp only: esc_ascii_cases [OF False] split: if_split) auto
qed

lemma jstring_rune:
  assumes "is_rune r" and "length r \<noteq> 1"
  shows "jstring (r @ s) = prepend r (jstring s)"
proof -
  obtain c r' where r: "r = c # r'" using assms by (cases r) (auto simp: is_rune_def)
  have n: "rune_len (r @ s) = length r"
    using assms rune_len_append [of r s] by (auto simp: is_rune_def)
  have "\<not> byte c < 128" using assms r by (auto simp: is_rune_def Let_def)
  then have "c \<noteq> CHR 0x22" "c \<noteq> CHR 0x5C" by auto
  with r n \<open>\<not> byte c < 128\<close> show ?thesis
    by (simp add: jstring.simps(2) del: rune_len.simps)
qed

lemma encode_rune_seps: "encode_rune 8232 = line_sep" "encode_rune 8233 = para_sep"
    "encode_rune 65533 = replacement"
  by (simp_all add: encode_rune_def line_sep_def para_sep_def replacement_def)

lemma jstring_esc_rune:
  assumes "\<And>x. r = Some x \<Longrightarrow> is_rune x"
  shows "jstring (esc_rune r @ s) = prepend (case_option replacement id r) (jstring s)"
proof (cases r)
  case None
  then show ?thesis by (simp add: esc_rune_def jstring_u_esc encode_rune_seps)
next
  case (Some x)
  show ?thesis
  proof (cases "length x = 1")
    case True
    then obtain c where x: "x = [c]" by (cases x) auto
    have "byte c < 128"
      using assms [OF Some] x by (auto simp: is_rune_def Let_def rune_len_defs split: if_splits)
    moreover have "x \<noteq> line_sep" "x \<noteq> para_sep" using x by (auto simp: line_sep_def para_sep_def)
    ultimately show ?thesis using x Some by (simp add: esc_rune_def jstring_esc_ascii)
  next
    case False
    with Some assms [OF Some] show ?thesis
      by (auto simp: esc_rune_def jstring_u_esc encode_rune_seps jstring_rune)
  qed
qed

lemma jstring_esc_runes:
  "\<forall>x. Some x \<in> set rs \<longrightarrow> is_rune x
    \<Longrightarrow> jstring (concat (map esc_rune rs) @ CHR 0x22 # s)
      = Done (concat (map (case_option replacement id) rs)) s"
  by (induction rs) (simp_all add: jstring.simps(2) jstring_esc_rune prepend_def)

lemma jstring_quote: "jstring (tl (json_quote x) @ s) = Done (utf8_fix x) s"
  using jstring_esc_runes [of "runes x" s] runes_are_runes [of _ x]
  by (simp add: json_quote_def utf8_fix_def)

section \<open>Integers\<close>

definition num_end :: "string \<Rightarrow> bool" where
  "num_end s \<longleftrightarrow> s = [] \<or> hd s \<in> {CHR '','', CHR '']'', CHR 0x7D, CHR 0x0A}"

lemma num_end_simps [simp]: "num_end []" "num_end (CHR '','' # s)" "num_end (CHR '']'' # s)"
    "num_end (CHR 0x7D # s)" "num_end (CHR 0x0A # s)"
  by (simp_all add: num_end_def)

lemma num_end_not_digit: "num_end s \<Longrightarrow> takeWhile is_digit s = [] \<and> dropWhile is_digit s = s"
  by (cases s) (auto simp: num_end_def is_digit_def)

lemma num_end_tail: "num_end s \<Longrightarrow> jfrac s = Done [] s \<and> jexp s = Done [] s"
  by (auto simp: num_end_def jfrac_def jexp_def)

lemma jint_nat_dec: "num_end s \<Longrightarrow> jint (nat_dec n @ s) = Done (nat_dec n) s"
proof (cases "n = 0")
  case True
  then show "num_end s \<Longrightarrow> ?thesis" by (simp add: nat_dec_zero jint_def)
next
  case False
  assume s: "num_end s"
  obtain c ds where nd: "nat_dec n = c # ds" by (cases "nat_dec n") auto
  have ds: "\<forall>x \<in> set (c # ds). is_digit x" using nat_dec_digits [of n] nd by simp
  have "c \<noteq> CHR ''0''" using nat_dec_hd_zero [of n] False nd by simp
  with ds nd num_end_not_digit [OF s] show ?thesis
    by (simp add: jint_def takeWhile_append2 dropWhile_append2)
qed

lemma junsigned_nat_dec: "num_end s \<Longrightarrow> junsigned (nat_dec n @ s) = Done (nat_dec n) s"
  by (simp add: junsigned_def jint_nat_dec num_end_tail)

lemma nat_dec_hd: "is_digit (hd (nat_dec n))"
  using nat_dec_digits [of n] by (cases "nat_dec n") auto

lemma jnum_itoa:
  assumes "num_end s"
  shows "jnum (itoa w @ s) = Done (itoa w) s"
proof (cases "sint w < 0")
  case True
  then show ?thesis using assms
    by (simp add: itoa_def jnum_def Let_def junsigned_nat_dec prepend_def)
next
  case False
  moreover have "hd (nat_dec (nat (sint w))) \<noteq> CHR ''-''"
    using nat_dec_hd digit_not_sign by blast
  ultimately show ?thesis using assms
    by (simp add: itoa_def jnum_def Let_def junsigned_nat_dec)
qed

section \<open>Values\<close>

text \<open>What a value becomes on the other side: every string, keys too, made valid UTF-8.\<close>

primrec jfix :: "json \<Rightarrow> json" where
  "jfix JNull = JNull"
| "jfix (JBool b) = JBool b"
| "jfix (JNum n) = JNum n"
| "jfix (JStr s) = JStr (utf8_fix s)"
| "jfix (JArr vs) = JArr (map jfix vs)"
| "jfix (JObj kvs) = JObj (map (\<lambda>(k, v). (utf8_fix k, v)) (map (map_prod id jfix) kvs))"

text \<open>The values the program encodes: its numbers are Go integers.\<close>

primrec json_ok :: "json \<Rightarrow> bool" where
  "json_ok JNull = True"
| "json_ok (JBool b) = True"
| "json_ok (JNum n) = (case atoi n of Some w \<Rightarrow> itoa w = n | None \<Rightarrow> False)"
| "json_ok (JStr s) = True"
| "json_ok (JArr vs) = list_all id (map json_ok vs)"
| "json_ok (JObj kvs) = list_all snd (map (map_prod id json_ok) kvs)"

primrec jdepth :: "json \<Rightarrow> nat" where
  "jdepth JNull = 0"
| "jdepth (JBool b) = 0"
| "jdepth (JNum n) = 0"
| "jdepth (JStr s) = 0"
| "jdepth (JArr vs) = Suc (foldr max (map jdepth vs) 0)"
| "jdepth (JObj kvs) = Suc (foldr max (map snd (map (map_prod id jdepth) kvs)) 0)"

fun jact :: "jaction \<Rightarrow> string \<Rightarrow> json scan" where
  "jact (JStop v) r = Done v r"
| "jact (JGo fs p) r = jrun fs p r"
| "jact JFail r = Bad"

lemma jrun_tok:
  assumes "\<not> is_ws c" and "jstarts p c" and "jlex c u = Done t r"
  shows "jrun fs p (c # u) = jact (jstep fs p t) r"
  using assms by (subst jrun.simps) (simp split: jaction.split)

definition opens_value :: "jexpect \<Rightarrow> bool" where
  "opens_value p \<longleftrightarrow> p = EValue \<or> p = EValueOrEnd"

lemma opens_value_simps [simp]: "opens_value EValue" "opens_value EValueOrEnd"
  by (simp_all add: opens_value_def)

lemma jrun_begin:
  assumes "opens_value p" and "\<not> is_ws c" and "begins_value c" and "jlex c u = Done t r"
    and "t \<noteq> TRBrack"
  shows "jrun fs p (c # u) = jact (jbegin fs t) r"
  using assms jrun_tok [of c p u t r fs] by (auto simp: opens_value_def)

lemma jrun_punct:
  "jstarts ESep (CHR '','')" "jrun fs ESep (CHR '','' # u) = jact (jstep fs ESep TComma) u"
  "jrun fs ESep (CHR '']'' # u) = jact (jclose fs TRBrack) u"
  "jrun fs ESep (CHR 0x7D # u) = jact (jclose fs TRBrace) u"
  "jrun fs EValueOrEnd (CHR '']'' # u) = jact (jclose fs TRBrack) u"
  "jrun fs EKeyOrEnd (CHR 0x7D # u) = jact (jclose fs TRBrace) u"
  "jrun fs EColon (CHR '':'' # u) = jrun fs EValue u"
  by (simp_all add: jrun_tok is_ws_def jlex_def jpunct_def)

lemma jrun_open:
  assumes "opens_value p" and "length fs < max_depth"
  shows "jrun fs p (CHR ''['' # u) = jrun (FArr [] # fs) EValueOrEnd u"
    and "jrun fs p (CHR 0x7B # u) = jrun (FObj [] [] # fs) EKeyOrEnd u"
  using assms
  by (simp_all add: jrun_begin [OF assms(1)] is_ws_def begins_value_def jlex_def jpunct_def jopen_def)

lemma jlex_quote: "jlex (CHR 0x22) (tl (json_quote k) @ u) = Done (TStr (utf8_fix k)) u"
  by (simp add: jlex_def jpunct_def jword_def jstring_quote)

lemma json_quote_Cons: "json_quote k = CHR 0x22 # tl (json_quote k)"
  by (simp add: json_quote_def)

lemma jrun_key:
  assumes "p = EKeyOrEnd \<or> p = EKey"
  shows "jrun (FObj acc k0 # fs) p (json_quote k @ CHR '':'' # u)
    = jrun (FObj acc (utf8_fix k) # fs) EValue u"
proof -
  have "jrun (FObj acc k0 # fs) p (CHR 0x22 # (tl (json_quote k) @ CHR '':'' # u))
    = jact (jstep (FObj acc k0 # fs) p (TStr (utf8_fix k))) (CHR '':'' # u)"
    using assms by (intro jrun_tok jlex_quote) (auto simp: is_ws_def)
  with assms show ?thesis
    by (subst json_quote_Cons) (auto simp: jrun_punct)
qed

lemma digit_neq: "is_digit c \<Longrightarrow> \<not> is_digit d \<Longrightarrow> c \<noteq> d"
  by auto

lemma digit_first:
  assumes "is_digit c"
  shows "\<not> is_ws c" "begins_value c" "jpunct c = None" "jword c = None" "c \<noteq> CHR 0x22"
proof -
  have ne: "c \<noteq> CHR '' ''" "c \<noteq> CHR 0x09" "c \<noteq> CHR 0x0A" "c \<noteq> CHR 0x0D"
    "c \<noteq> CHR ''[''" "c \<noteq> CHR '']''" "c \<noteq> CHR 0x7B" "c \<noteq> CHR 0x7D" "c \<noteq> CHR '',''"
    "c \<noteq> CHR '':''" "c \<noteq> CHR ''t''" "c \<noteq> CHR ''f''" "c \<noteq> CHR ''n''" "c \<noteq> CHR 0x22"
    by (rule digit_neq [OF assms]; simp add: is_digit_def)+
  then show "\<not> is_ws c" "jpunct c = None" "jword c = None" "c \<noteq> CHR 0x22"
    by (simp_all only: is_ws_def jpunct_def jword_def map_of.simps fst_conv fun_upd_apply if_False
        simp_thms)
  show "begins_value c" using assms by (simp add: begins_value_def)
qed

lemma num_first:
  "c = CHR ''-'' \<or> is_digit c \<Longrightarrow>
    \<not> is_ws c \<and> begins_value c \<and> jpunct c = None \<and> jword c = None \<and> c \<noteq> CHR 0x22"
  using digit_first [of c]
  by (elim disjE) (simp_all add: is_ws_def begins_value_def jpunct_def jword_def)

lemma itoa_first: "\<exists>c s. itoa w = c # s \<and> (c = CHR ''-'' \<or> is_digit c)"
  using nat_dec_hd [of "nat (sint w)"]
  by (cases "nat_dec (nat (sint w))") (auto simp: itoa_def Let_def)

lemma jrun_itoa:
  assumes "opens_value p" and "num_end r"
  shows "jrun fs p (itoa w @ r) = jact (jpush fs (JNum (itoa w))) r"
proof -
  obtain c s where w: "itoa w = c # s" and c: "c = CHR ''-'' \<or> is_digit c"
    using itoa_first by blast
  have "jlex c (s @ r) = Done (TNum (itoa w)) r"
    using num_first [OF c] c jnum_itoa [OF assms(2), of w] w by (simp add: jlex_def)
  then show ?thesis
    using num_first [OF c] jrun_begin [OF assms(1), of c "s @ r" "TNum (itoa w)" r fs] w by simp
qed

definition print_ok :: "json \<Rightarrow> bool" where
  "print_ok v \<longleftrightarrow> (\<forall>fs p r. opens_value p \<longrightarrow> num_end r \<longrightarrow> length fs + jdepth v \<le> max_depth \<longrightarrow>
     jrun fs p (jprint v @ r) = jact (jpush fs (jfix v)) r)"

lemma print_okD:
  "print_ok v \<Longrightarrow> opens_value p \<Longrightarrow> num_end r \<Longrightarrow> length fs + jdepth v \<le> max_depth
    \<Longrightarrow> jrun fs p (jprint v @ r) = jact (jpush fs (jfix v)) r"
  by (simp add: print_ok_def)

lemma jrun_array_tail:
  assumes "\<forall>v \<in> set vs. print_ok v \<and> Suc (length fs + jdepth v) \<le> max_depth"
  shows "jrun (FArr acc # fs) ESep (concat (map (\<lambda>y. CHR '','' # y) (map jprint vs)) @ CHR '']'' # r)
    = jact (jpush fs (JArr (acc @ map jfix vs))) r"
  using assms
proof (induction vs arbitrary: acc)
  case Nil
  then show ?case by (simp add: jrun_punct)
next
  case (Cons v vs)
  have "num_end (concat (map (\<lambda>y. CHR '','' # y) (map jprint vs)) @ CHR '']'' # r)"
    by (cases vs) simp_all
  with Cons show ?case by (simp add: jrun_punct print_okD)
qed

lemma jrun_object_tail:
  assumes "\<forall>(k, v) \<in> set kvs. print_ok v \<and> Suc (length fs + jdepth v) \<le> max_depth"
  shows "jrun (FObj acc k0 # fs) ESep
      (concat (map (\<lambda>y. CHR '','' # y) (map (\<lambda>(k, v). json_quote k @ CHR '':'' # jprint v) kvs)) @ CHR 0x7D # r)
    = jact (jpush fs (JObj (acc @ map (\<lambda>(k, v). (utf8_fix k, jfix v)) kvs))) r"
  using assms
proof (induction kvs arbitrary: acc k0)
  case Nil
  then show ?case by (simp add: jrun_punct)
next
  case (Cons kv kvs)
  obtain k v where kv: "kv = (k, v)" by fastforce
  have "num_end (concat (map (\<lambda>y. CHR '','' # y)
      (map (\<lambda>(k, v). json_quote k @ CHR '':'' # jprint v) kvs)) @ CHR 0x7D # r)"
    by (cases kvs) simp_all
  with Cons kv show ?case by (simp add: jrun_punct jrun_key print_okD)
qed

lemma le_foldr_max: "x \<in> set xs \<Longrightarrow> x \<le> foldr max xs (0 :: nat)"
  by (induction xs) (auto simp: le_max_iff_disj)

lemma jdepth_in: "v \<in> set vs \<Longrightarrow> jdepth v < jdepth (JArr vs)"
    "(k, v) \<in> set kvs \<Longrightarrow> jdepth v < jdepth (JObj kvs)"
  by (force simp: less_Suc_eq_le comp_def intro!: le_foldr_max)+

lemma jrun_lit:
  assumes "opens_value p"
  shows "jrun fs p (''null'' @ r) = jact (jpush fs JNull) r"
    and "jrun fs p (''true'' @ r) = jact (jpush fs (JBool True)) r"
    and "jrun fs p (''false'' @ r) = jact (jpush fs (JBool False)) r"
  by (simp_all add: jrun_begin [OF assms] is_ws_def begins_value_def jlex_def jpunct_def jword_def)

lemma jrun_string:
  assumes "opens_value p"
  shows "jrun fs p (json_quote s @ r) = jact (jpush fs (JStr (utf8_fix s))) r"
proof -
  have "jrun fs p (CHR 0x22 # (tl (json_quote s) @ r)) = jact (jbegin fs (TStr (utf8_fix s))) r"
    by (rule jrun_begin [OF assms _ _ jlex_quote]) (simp_all add: is_ws_def begins_value_def)
  then show ?thesis by (subst json_quote_Cons) simp
qed

lemma print_ok_array:
  assumes "\<forall>v \<in> set vs. print_ok v"
  shows "print_ok (JArr vs)"
  unfolding print_ok_def
proof (intro allI impI)
  fix fs :: "jframe list" and p r
  assume p: "opens_value p" and d: "length fs + jdepth (JArr vs) \<le> max_depth"
  have ok: "\<forall>v \<in> set vs. print_ok v \<and> Suc (length fs + jdepth v) \<le> max_depth"
    using assms jdepth_in(1) [of _ vs] d by fastforce
  have o: "jrun fs p (CHR ''['' # u) = jrun (FArr [] # fs) EValueOrEnd u" for u
    using jrun_open(1) [OF p] d by simp
  show "jrun fs p (jprint (JArr vs) @ r) = jact (jpush fs (jfix (JArr vs))) r"
  proof (cases vs)
    case Nil
    then show ?thesis by (simp add: o jrun_punct)
  next
    case (Cons v ws)
    have "num_end (concat (map (\<lambda>y. CHR '','' # y) (map jprint ws)) @ CHR '']'' # r)"
      by (cases ws) simp_all
    with Cons ok show ?thesis
      using jrun_array_tail [of ws fs "[jfix v]" r] by (simp add: o print_okD)
  qed
qed

lemma print_ok_object:
  assumes "\<forall>(k, v) \<in> set kvs. print_ok v"
  shows "print_ok (JObj kvs)"
  unfolding print_ok_def
proof (intro allI impI)
  fix fs :: "jframe list" and p r
  assume p: "opens_value p" and d: "length fs + jdepth (JObj kvs) \<le> max_depth"
  have ok: "\<forall>(k, v) \<in> set kvs. print_ok v \<and> Suc (length fs + jdepth v) \<le> max_depth"
    using assms jdepth_in(2) [of _ _ kvs] d by fastforce
  have o: "jrun fs p (CHR 0x7B # u) = jrun (FObj [] [] # fs) EKeyOrEnd u" for u
    using jrun_open(2) [OF p] d by simp
  have txts: "map (\<lambda>(k, s). json_quote k @ CHR '':'' # s) (map (map_prod id jprint) ws)
    = map (\<lambda>(k, v). json_quote k @ CHR '':'' # jprint v) ws" for ws
    by (simp add: comp_def case_prod_beta)
  have val: "jfix (JObj ws) = JObj (map (\<lambda>(k, v). (utf8_fix k, jfix v)) ws)" for ws
    by (simp add: comp_def case_prod_beta)
  show "jrun fs p (jprint (JObj kvs) @ r) = jact (jpush fs (jfix (JObj kvs))) r"
  proof (cases kvs)
    case Nil
    then show ?thesis by (simp add: o jrun_punct)
  next
    case (Cons kv ws)
    obtain k v where kv: "kv = (k, v)" by fastforce
    have "num_end (concat (map (\<lambda>y. CHR '','' # y)
        (map (\<lambda>(k, v). json_quote k @ CHR '':'' # jprint v) ws)) @ CHR 0x7D # r)"
      by (cases ws) simp_all
    with Cons kv ok show ?thesis
      using jrun_object_tail [of ws fs "[(utf8_fix k, jfix v)]" "utf8_fix k" r]
      unfolding jprint.simps txts val by (simp add: o jrun_key print_okD)
  qed
qed

lemma json_ok_print_ok: "json_ok v \<Longrightarrow> print_ok v"
proof (induction v)
  case (JArr vs)
  then show ?case by (intro print_ok_array) (auto simp: list_all_iff)
next
  case (JObj kvs)
  then show ?case by (intro print_ok_object) (fastforce simp: list_all_iff)
next
  case (JNum n)
  then obtain w where "n = itoa w" by (auto split: option.splits)
  then show ?case by (simp add: print_ok_def jrun_itoa)
qed (auto simp: print_ok_def jrun_lit [simplified] jrun_string)

lemma jrun_jprint:
  assumes "json_ok v" and "jdepth v \<le> max_depth" and "num_end r"
  shows "jrun [] EValue (jprint v @ r) = Done (jfix v) r"
  using print_okD [OF json_ok_print_ok [OF assms(1)], of EValue r "[]"] assms by simp

lemma json_parse_jprint:
  "json_ok v \<Longrightarrow> jdepth v \<le> max_depth \<Longrightarrow> json_parse (jprint v) = Some (jfix v)"
  using jrun_jprint [of v "[]"] by (simp add: json_parse_def)

lemma jprint_nonempty [simp]: "json_ok v \<Longrightarrow> jprint v \<noteq> []"
  by (cases v) (auto simp: json_quote_def split: option.splits)

end
