(* ===== verification/Go_Json_Types.thy ===== *)
theory Go_Json_Types
  imports Go_Json_RT
begin

text \<open>
  The typed half of \<^verbatim>\<open>encoding/json\<close>: storing a scanned value into Go strings, integers,
  booleans, slices and structs. A store takes the target's present value, because \<open>null\<close>
  leaves strings, numbers and structs as they are; \<open>None\<close> is Go's \<^verbatim>\<open>UnmarshalTypeError\<close>,
  after which every caller in the program drops the target. One simplification: an element
  of an array starts from its zero value, where Go would show through elements of an
  earlier duplicate of the same key.
\<close>

definition dec_string :: "json \<Rightarrow> string \<Rightarrow> string option" where
  "dec_string v old = (case v of JNull \<Rightarrow> Some old | JStr s \<Rightarrow> Some s | _ \<Rightarrow> None)"

definition dec_int :: "json \<Rightarrow> gint \<Rightarrow> gint option" where
  "dec_int v old = (case v of JNull \<Rightarrow> Some old | JNum n \<Rightarrow> atoi n | _ \<Rightarrow> None)"

definition dec_bool :: "json \<Rightarrow> bool \<Rightarrow> bool option" where
  "dec_bool v old = (case v of JNull \<Rightarrow> Some old | JBool b \<Rightarrow> Some b | _ \<Rightarrow> None)"

fun dec_all :: "(json \<Rightarrow> 'a option) \<Rightarrow> json list \<Rightarrow> 'a list option" where
  "dec_all f [] = Some []"
| "dec_all f (v # vs) =
     (case f v of None \<Rightarrow> None | Some x \<Rightarrow> map_option ((#) x) (dec_all f vs))"

definition dec_slice :: "(json \<Rightarrow> 'a option) \<Rightarrow> json \<Rightarrow> 'a slice option" where
  "dec_slice f v =
     (case v of JNull \<Rightarrow> Some None | JArr vs \<Rightarrow> map_option Some (dec_all f vs) | _ \<Rightarrow> None)"

definition enc_slice :: "('a \<Rightarrow> json) \<Rightarrow> 'a slice \<Rightarrow> json" where
  "enc_slice f xs = (case xs of None \<Rightarrow> JNull | Some ys \<Rightarrow> JArr (map f ys))"

lemmas dec_defs = dec_string_def dec_int_def dec_bool_def

section \<open>Structs\<close>

text \<open>
  Object keys meet field names exactly or, failing that, up to Unicode case folding. The
  field names of the program are ASCII; besides the capital letters, U+017F folds to
  \<open>s\<close> and U+212A to \<open>k\<close>.
\<close>

definition lower :: "char \<Rightarrow> char" where
  "lower c = (if 65 \<le> byte c \<and> byte c \<le> 90 then char_of (byte c + 32) else c)"

function fold_key :: "string \<Rightarrow> string" where
  "fold_key [] = []"
| "fold_key (c # s) =
     (if byte c = 197 \<and> map byte (take 1 s) = [191] then CHR ''s'' # fold_key (drop 1 s)
      else if byte c = 226 \<and> map byte (take 2 s) = [132, 170] then CHR ''k'' # fold_key (drop 2 s)
      else lower c # fold_key s)"
  by pat_completeness auto
termination
  by (relation "measure length") auto

type_synonym 'r field = "json \<Rightarrow> 'r \<Rightarrow> 'r option"

definition find_field :: "(string \<times> 'r field) list \<Rightarrow> string \<Rightarrow> 'r field option" where
  "find_field fs k =
     (case map_of fs k of
        Some f \<Rightarrow> Some f
      | None \<Rightarrow> map_option snd (find (\<lambda>(n, _). fold_key n = fold_key k) fs))"

text \<open>\<open>strict\<close> is \<^verbatim>\<open>Decoder.DisallowUnknownFields\<close>.\<close>

fun dec_fields ::
    "bool \<Rightarrow> (string \<times> 'r field) list \<Rightarrow> (string \<times> json) list \<Rightarrow> 'r \<Rightarrow> 'r option" where
  "dec_fields strict fs [] r = Some r"
| "dec_fields strict fs ((k, v) # kvs) r =
     (case find_field fs k of
        None \<Rightarrow> if strict then None else dec_fields strict fs kvs r
      | Some f \<Rightarrow> (case f v r of None \<Rightarrow> None | Some r' \<Rightarrow> dec_fields strict fs kvs r'))"

definition dec_struct :: "bool \<Rightarrow> (string \<times> 'r field) list \<Rightarrow> json \<Rightarrow> 'r \<Rightarrow> 'r option" where
  "dec_struct strict fs v r =
     (case v of JNull \<Rightarrow> Some r | JObj kvs \<Rightarrow> dec_fields strict fs kvs r | _ \<Rightarrow> None)"

lemma find_field_exact: "map_of fs k = Some f \<Longrightarrow> find_field fs k = Some f"
  by (simp add: find_field_def)

section \<open>Round trips of the basic types\<close>

lemma dec_string_fix [simp]: "dec_string (JStr s) old = Some s"
  by (simp add: dec_string_def)

lemma dec_int_itoa [simp]: "dec_int (JNum (itoa w)) old = Some w"
  by (simp add: dec_int_def)

lemma dec_bool_JBool [simp]: "dec_bool (JBool b) old = Some b"
  by (simp add: dec_bool_def)

lemma dec_all_map:
  "(\<And>x. x \<in> set xs \<Longrightarrow> f (g x) = Some (h x)) \<Longrightarrow> dec_all f (map g xs) = Some (map h xs)"
  by (induction xs) auto

lemma dec_slice_enc:
  "(\<And>x. f (jfix (g x)) = Some (h x))
    \<Longrightarrow> dec_slice f (jfix (enc_slice g xs)) = Some (map_option (map h) xs)"
  by (cases xs) (auto simp: dec_slice_def enc_slice_def comp_def intro!: dec_all_map)

lemma json_ok_itoa [simp]: "json_ok (JNum (itoa w))"
  by simp

lemma json_ok_enc_slice: "(\<And>x. json_ok (g x)) \<Longrightarrow> json_ok (enc_slice g xs)"
  by (auto simp: enc_slice_def list_all_iff split: option.splits)

lemma jdepth_enc_slice: "(\<And>x. jdepth (g x) \<le> n) \<Longrightarrow> jdepth (enc_slice g xs) \<le> Suc n"
proof -
  assume "\<And>x. jdepth (g x) \<le> n"
  then have "foldr max (map jdepth (map g ys)) 0 \<le> n" for ys
    by (induction ys) auto
  then show ?thesis by (simp add: enc_slice_def split: option.splits)
qed

lemma jdepth_obj_le:
  "(\<And>k v. (k, v) \<in> set kvs \<Longrightarrow> jdepth v \<le> n) \<Longrightarrow> jdepth (JObj kvs) \<le> Suc n"
proof -
  assume "\<And>k v. (k, v) \<in> set kvs \<Longrightarrow> jdepth v \<le> n"
  then have "foldr max (map snd (map (map_prod id jdepth) kvs)) 0 \<le> n"
    by (induction kvs) (auto, metis)
  then show ?thesis by simp
qed

lemma valid_ascii_literal [simp]:
  "list_all (\<lambda>c. byte c < 128) s \<Longrightarrow> utf8_fix s = s"
  by (intro valid_utf8_fix valid_utf8_ascii) (simp add: list_all_iff)

end
