(* ===== verification/Agent_Proto.thy ===== *)
theory Agent_Proto
  imports Go_Json_Types
begin

text \<open>
  \<^verbatim>\<open>agent/proto.go\<close>: the messages between the host and the guest agent, with the JSON
  encoding their struct tags give them. The round-trip lemmas say what the other side
  reads: the same message with its strings made valid UTF-8 and, in a response, an empty
  result list turned into none.
\<close>

definition VsockPort :: "32 word" where
  "VsockPort = 52000"

definition MaxFrameBytes :: nat where
  "MaxFrameBytes = 32 * 1024 * 1024"

record ExecRequest =
  req_SourceFile :: string
  req_Source :: string
  req_CompileCmd :: string
  req_RunCmd :: string
  req_Stdins :: "string slice"
  req_TimeLimitMs :: gint
  req_MemoryLimitMb :: gint
  req_OutputLimitBytes :: gint

record CaseResult =
  cr_Stdout :: string
  cr_Stderr :: string
  cr_ExitCode :: gint
  cr_TimeMs :: gint
  cr_MemoryKb :: gint
  cr_TimedOut :: bool

record ExecResponse =
  resp_CompileError :: string
  resp_Results :: "CaseResult slice"
  resp_AgentError :: string

text \<open>The zero values a decoder starts from.\<close>

definition zero_ExecRequest :: ExecRequest where
  "zero_ExecRequest = \<lparr>req_SourceFile = [], req_Source = [], req_CompileCmd = [], req_RunCmd = [],
     req_Stdins = None, req_TimeLimitMs = 0, req_MemoryLimitMb = 0, req_OutputLimitBytes = 0\<rparr>"

definition zero_CaseResult :: CaseResult where
  "zero_CaseResult = \<lparr>cr_Stdout = [], cr_Stderr = [], cr_ExitCode = 0, cr_TimeMs = 0,
     cr_MemoryKb = 0, cr_TimedOut = False\<rparr>"

definition zero_ExecResponse :: ExecResponse where
  "zero_ExecResponse = \<lparr>resp_CompileError = [], resp_Results = None, resp_AgentError = []\<rparr>"

section \<open>Encoding\<close>

definition enc_ExecRequest :: "ExecRequest \<Rightarrow> json" where
  "enc_ExecRequest r = JObj
     [(''source_file'', JStr (req_SourceFile r)),
      (''source'', JStr (req_Source r)),
      (''compile_cmd'', JStr (req_CompileCmd r)),
      (''run_cmd'', JStr (req_RunCmd r)),
      (''stdins'', enc_slice JStr (req_Stdins r)),
      (''time_limit_ms'', JNum (itoa (req_TimeLimitMs r))),
      (''memory_limit_mb'', JNum (itoa (req_MemoryLimitMb r))),
      (''output_limit_bytes'', JNum (itoa (req_OutputLimitBytes r)))]"

definition enc_CaseResult :: "CaseResult \<Rightarrow> json" where
  "enc_CaseResult c = JObj
     [(''stdout'', JStr (cr_Stdout c)),
      (''stderr'', JStr (cr_Stderr c)),
      (''exit_code'', JNum (itoa (cr_ExitCode c))),
      (''time_ms'', JNum (itoa (cr_TimeMs c))),
      (''memory_kb'', JNum (itoa (cr_MemoryKb c))),
      (''timed_out'', JBool (cr_TimedOut c))]"

text \<open>\<open>omitempty\<close> leaves out an empty string and a slice of length 0.\<close>

definition omitempty :: "bool \<Rightarrow> (string \<times> json) \<Rightarrow> (string \<times> json) list" where
  "omitempty skip kv = (if skip then [] else [kv])"

definition enc_ExecResponse :: "ExecResponse \<Rightarrow> json" where
  "enc_ExecResponse r = JObj
     (omitempty (resp_CompileError r = []) (''compile_error'', JStr (resp_CompileError r)) @
      omitempty (elems (resp_Results r) = []) (''results'', enc_slice enc_CaseResult (resp_Results r)) @
      omitempty (resp_AgentError r = []) (''agent_error'', JStr (resp_AgentError r)))"

section \<open>Decoding\<close>

definition ExecRequest_fields :: "(string \<times> ExecRequest field) list" where
  "ExecRequest_fields =
     [(''source_file'', \<lambda>v r. map_option (\<lambda>x. r\<lparr>req_SourceFile := x\<rparr>) (dec_string v (req_SourceFile r))),
      (''source'', \<lambda>v r. map_option (\<lambda>x. r\<lparr>req_Source := x\<rparr>) (dec_string v (req_Source r))),
      (''compile_cmd'', \<lambda>v r. map_option (\<lambda>x. r\<lparr>req_CompileCmd := x\<rparr>) (dec_string v (req_CompileCmd r))),
      (''run_cmd'', \<lambda>v r. map_option (\<lambda>x. r\<lparr>req_RunCmd := x\<rparr>) (dec_string v (req_RunCmd r))),
      (''stdins'', \<lambda>v r. map_option (\<lambda>x. r\<lparr>req_Stdins := x\<rparr>) (dec_slice (\<lambda>u. dec_string u []) v)),
      (''time_limit_ms'', \<lambda>v r. map_option (\<lambda>x. r\<lparr>req_TimeLimitMs := x\<rparr>) (dec_int v (req_TimeLimitMs r))),
      (''memory_limit_mb'', \<lambda>v r. map_option (\<lambda>x. r\<lparr>req_MemoryLimitMb := x\<rparr>) (dec_int v (req_MemoryLimitMb r))),
      (''output_limit_bytes'', \<lambda>v r. map_option (\<lambda>x. r\<lparr>req_OutputLimitBytes := x\<rparr>) (dec_int v (req_OutputLimitBytes r)))]"

definition CaseResult_fields :: "(string \<times> CaseResult field) list" where
  "CaseResult_fields =
     [(''stdout'', \<lambda>v r. map_option (\<lambda>x. r\<lparr>cr_Stdout := x\<rparr>) (dec_string v (cr_Stdout r))),
      (''stderr'', \<lambda>v r. map_option (\<lambda>x. r\<lparr>cr_Stderr := x\<rparr>) (dec_string v (cr_Stderr r))),
      (''exit_code'', \<lambda>v r. map_option (\<lambda>x. r\<lparr>cr_ExitCode := x\<rparr>) (dec_int v (cr_ExitCode r))),
      (''time_ms'', \<lambda>v r. map_option (\<lambda>x. r\<lparr>cr_TimeMs := x\<rparr>) (dec_int v (cr_TimeMs r))),
      (''memory_kb'', \<lambda>v r. map_option (\<lambda>x. r\<lparr>cr_MemoryKb := x\<rparr>) (dec_int v (cr_MemoryKb r))),
      (''timed_out'', \<lambda>v r. map_option (\<lambda>x. r\<lparr>cr_TimedOut := x\<rparr>) (dec_bool v (cr_TimedOut r)))]"

definition dec_CaseResult :: "json \<Rightarrow> CaseResult option" where
  "dec_CaseResult v = dec_struct False CaseResult_fields v zero_CaseResult"

definition ExecResponse_fields :: "(string \<times> ExecResponse field) list" where
  "ExecResponse_fields =
     [(''compile_error'', \<lambda>v r. map_option (\<lambda>x. r\<lparr>resp_CompileError := x\<rparr>) (dec_string v (resp_CompileError r))),
      (''results'', \<lambda>v r. map_option (\<lambda>x. r\<lparr>resp_Results := x\<rparr>) (dec_slice dec_CaseResult v)),
      (''agent_error'', \<lambda>v r. map_option (\<lambda>x. r\<lparr>resp_AgentError := x\<rparr>) (dec_string v (resp_AgentError r)))]"

text \<open>\<^verbatim>\<open>json.Marshal(&m)\<close> and \<^verbatim>\<open>json.Unmarshal(b, &m)\<close> into a fresh message.\<close>

definition marshal_ExecRequest :: "ExecRequest \<Rightarrow> string" where
  "marshal_ExecRequest r = jprint (enc_ExecRequest r)"

definition unmarshal_ExecRequest :: "string \<Rightarrow> ExecRequest option" where
  "unmarshal_ExecRequest b =
     Option.bind (json_parse b) (\<lambda>v. dec_struct False ExecRequest_fields v zero_ExecRequest)"

definition marshal_ExecResponse :: "ExecResponse \<Rightarrow> string" where
  "marshal_ExecResponse r = jprint (enc_ExecResponse r)"

definition unmarshal_ExecResponse :: "string \<Rightarrow> ExecResponse option" where
  "unmarshal_ExecResponse b =
     Option.bind (json_parse b) (\<lambda>v. dec_struct False ExecResponse_fields v zero_ExecResponse)"

section \<open>What the other side reads\<close>

definition wire_ExecRequest :: "ExecRequest \<Rightarrow> ExecRequest" where
  "wire_ExecRequest r = r\<lparr>req_SourceFile := utf8_fix (req_SourceFile r),
     req_Source := utf8_fix (req_Source r), req_CompileCmd := utf8_fix (req_CompileCmd r),
     req_RunCmd := utf8_fix (req_RunCmd r), req_Stdins := map_option (map utf8_fix) (req_Stdins r)\<rparr>"

definition wire_CaseResult :: "CaseResult \<Rightarrow> CaseResult" where
  "wire_CaseResult c = c\<lparr>cr_Stdout := utf8_fix (cr_Stdout c), cr_Stderr := utf8_fix (cr_Stderr c)\<rparr>"

definition wire_ExecResponse :: "ExecResponse \<Rightarrow> ExecResponse" where
  "wire_ExecResponse r = \<lparr>resp_CompileError = utf8_fix (resp_CompileError r),
     resp_Results = (if elems (resp_Results r) = [] then None
                     else map_option (map wire_CaseResult) (resp_Results r)),
     resp_AgentError = utf8_fix (resp_AgentError r)\<rparr>"

lemma dec_CaseResult_enc [simp]:
  "dec_CaseResult (jfix (enc_CaseResult c)) = Some (wire_CaseResult c)"
  by (simp add: dec_CaseResult_def enc_CaseResult_def dec_struct_def CaseResult_fields_def
      find_field_def zero_CaseResult_def wire_CaseResult_def)

lemma dec_stdins_enc [simp]:
  "dec_slice (\<lambda>u. dec_string u []) (jfix (enc_slice JStr xs)) = Some (map_option (map utf8_fix) xs)"
  by (rule dec_slice_enc) simp

lemma dec_results_enc [simp]:
  "dec_slice dec_CaseResult (jfix (enc_slice enc_CaseResult xs))
    = Some (map_option (map wire_CaseResult) xs)"
  by (rule dec_slice_enc) simp

lemma dec_ExecRequest_enc:
  "dec_struct False ExecRequest_fields (jfix (enc_ExecRequest r)) zero_ExecRequest
    = Some (wire_ExecRequest r)"
  by (simp add: enc_ExecRequest_def dec_struct_def ExecRequest_fields_def
      find_field_def zero_ExecRequest_def wire_ExecRequest_def)

lemma dec_ExecResponse_enc:
  "dec_struct False ExecResponse_fields (jfix (enc_ExecResponse r)) zero_ExecResponse
    = Some (wire_ExecResponse r)"
  by (simp add: enc_ExecResponse_def omitempty_def dec_struct_def ExecResponse_fields_def
      find_field_def zero_ExecResponse_def wire_ExecResponse_def)

section \<open>The codecs\<close>

text \<open>
  What a user of a JSON encoding relies on: encoding writes at least one byte, and decoding
  it gives the message as it looks on the wire. Framing and storage are proved from this
  contract, once for all messages.
\<close>

locale message_codec =
  fixes marshal :: "'m \<Rightarrow> string"
    and unmarshal :: "string \<Rightarrow> 'm option"
    and wire :: "'m \<Rightarrow> 'm"
  assumes unmarshal_marshal: "unmarshal (marshal m) = Some (wire m)"
    and marshal_nonempty: "marshal m \<noteq> []"
    and wire_wire: "wire (wire m) = wire m"
begin

lemma unmarshal_marshal_wire: "unmarshal (marshal (wire m)) = Some (wire m)"
  by (simp add: unmarshal_marshal wire_wire)

lemma marshal_eq_wire_eq: "marshal m = marshal m' \<Longrightarrow> wire m = wire m'"
  using unmarshal_marshal [of m] unmarshal_marshal [of m'] by simp

end

lemma json_ok_enc [simp]:
  "json_ok (enc_ExecRequest r)" "json_ok (enc_CaseResult c)" "json_ok (enc_ExecResponse p)"
proof -
  show c: "json_ok (enc_CaseResult c)" for c by (simp add: enc_CaseResult_def)
  show "json_ok (enc_ExecRequest r)" by (simp add: enc_ExecRequest_def json_ok_enc_slice)
  show "json_ok (enc_ExecResponse p)"
    using c by (simp add: enc_ExecResponse_def omitempty_def json_ok_enc_slice)
qed

lemma jdepth_enc:
  "jdepth (enc_ExecRequest r) \<le> max_depth" "jdepth (enc_CaseResult c) \<le> 1"
  "jdepth (enc_ExecResponse p) \<le> max_depth"
proof -
  show c: "jdepth (enc_CaseResult c) \<le> 1" for c by (simp add: enc_CaseResult_def)
  have s: "jdepth (enc_slice JStr xs) \<le> 1" for xs
    using jdepth_enc_slice [of JStr 0] by simp
  show "jdepth (enc_ExecRequest r) \<le> max_depth"
    using s [of "req_Stdins r"] by (simp add: enc_ExecRequest_def max_depth_def)
  have "jdepth (enc_slice enc_CaseResult xs) \<le> 2" for xs
    using jdepth_enc_slice [of enc_CaseResult 1] c by (simp add: numeral_2_eq_2)
  then have "jdepth (enc_slice enc_CaseResult xs) \<le> 9999" for xs
    by (rule order_trans) simp
  then show "jdepth (enc_ExecResponse p) \<le> max_depth"
    by (simp add: enc_ExecResponse_def omitempty_def max_depth_def)
qed

lemma unmarshal_marshal_ExecRequest:
  "unmarshal_ExecRequest (marshal_ExecRequest r) = Some (wire_ExecRequest r)"
  by (simp add: unmarshal_ExecRequest_def marshal_ExecRequest_def json_parse_jprint jdepth_enc
      dec_ExecRequest_enc)

lemma unmarshal_marshal_ExecResponse:
  "unmarshal_ExecResponse (marshal_ExecResponse r) = Some (wire_ExecResponse r)"
  by (simp add: unmarshal_ExecResponse_def marshal_ExecResponse_def json_parse_jprint jdepth_enc
      dec_ExecResponse_enc)

lemma wire_CaseResult_idem [simp]: "wire_CaseResult (wire_CaseResult c) = wire_CaseResult c"
  by (simp add: wire_CaseResult_def)

lemma wire_ExecRequest_idem [simp]: "wire_ExecRequest (wire_ExecRequest r) = wire_ExecRequest r"
  by (simp add: wire_ExecRequest_def option.map_comp comp_def)

lemma wire_ExecResponse_idem [simp]: "wire_ExecResponse (wire_ExecResponse r) = wire_ExecResponse r"
  by (cases "resp_Results r") (auto simp: wire_ExecResponse_def)

interpretation request_codec:
  message_codec marshal_ExecRequest unmarshal_ExecRequest wire_ExecRequest
  by unfold_locales
    (simp_all add: unmarshal_marshal_ExecRequest, simp add: marshal_ExecRequest_def)

interpretation response_codec:
  message_codec marshal_ExecResponse unmarshal_ExecResponse wire_ExecResponse
  by unfold_locales
    (simp_all add: unmarshal_marshal_ExecResponse, simp add: marshal_ExecResponse_def)

text \<open>Messages whose strings are already valid UTF-8 arrive unchanged.\<close>

definition utf8_request :: "ExecRequest \<Rightarrow> bool" where
  "utf8_request r \<longleftrightarrow> valid_utf8 (req_SourceFile r) \<and> valid_utf8 (req_Source r) \<and>
     valid_utf8 (req_CompileCmd r) \<and> valid_utf8 (req_RunCmd r) \<and>
     list_all valid_utf8 (elems (req_Stdins r))"

lemma map_utf8_fix: "list_all valid_utf8 xs \<Longrightarrow> map utf8_fix xs = xs"
  by (induction xs) (auto simp: valid_utf8_fix)

lemma wire_utf8_request: "utf8_request r \<Longrightarrow> wire_ExecRequest r = r"
  by (cases "req_Stdins r")
    (simp_all add: wire_ExecRequest_def utf8_request_def valid_utf8_fix map_utf8_fix)

lemma req_TimeLimitMs_wire [simp]: "req_TimeLimitMs (wire_ExecRequest r) = req_TimeLimitMs r"
  and req_Stdins_wire [simp]: "length (elems (req_Stdins (wire_ExecRequest r))) = length (elems (req_Stdins r))"
  by (cases "req_Stdins r"; simp add: wire_ExecRequest_def)+

end
