(* ===== verification/Jobs.thy ===== *)
theory Jobs
  imports Agent_Proto
begin

text \<open>
  \<^verbatim>\<open>jobs/status.go\<close> and \<^verbatim>\<open>jobs/job.go\<close>: a submission and its status, and the order in which
  the statuses of one submission follow each other.
\<close>

definition StatusQueued :: string where "StatusQueued = ''queued''"
definition StatusRunning :: string where "StatusRunning = ''running''"
definition StatusDone :: string where "StatusDone = ''done''"
definition StatusFailed :: string where "StatusFailed = ''failed''"

lemmas status_defs = StatusQueued_def StatusRunning_def StatusDone_def StatusFailed_def

definition Terminal :: "string \<Rightarrow> bool" where
  "Terminal s \<longleftrightarrow> s = StatusDone \<or> s = StatusFailed"

record Job =
  job_ID :: string
  job_Language :: string
  job_Source :: string
  job_Stdins :: "string slice"
  job_TimeLimitMs :: gint
  job_MemoryLimitMb :: gint
  job_Status :: string
  job_Error :: string
  job_CompileError :: string
  job_Results :: "CaseResult slice"

text \<open>A submission is queued, then running, then done or failed; nothing follows these.\<close>

inductive status_step :: "string \<Rightarrow> string \<Rightarrow> bool" where
  start: "status_step StatusQueued StatusRunning"
| finish: "Terminal s \<Longrightarrow> status_step StatusRunning s"

inductive_cases status_stepE: "status_step s t"

inductive_simps status_step_simps: "status_step s t"

lemma Terminal_final: "Terminal s \<Longrightarrow> \<not> status_step s t"
  by (auto simp: Terminal_def status_defs elim!: status_stepE)

lemma Terminal_simps [simp]:
  "Terminal StatusDone" "Terminal StatusFailed" "\<not> Terminal StatusQueued" "\<not> Terminal StatusRunning"
  by (simp_all add: Terminal_def status_defs)

section \<open>Stored fields\<close>

definition marshal_stdins :: "string slice \<Rightarrow> string" where
  "marshal_stdins xs = jprint (enc_slice JStr xs)"

definition unmarshal_stdins :: "string \<Rightarrow> string slice option" where
  "unmarshal_stdins s = Option.bind (json_parse s) (dec_slice (\<lambda>u. dec_string u []))"

definition marshal_results :: "CaseResult slice \<Rightarrow> string" where
  "marshal_results xs = jprint (enc_slice enc_CaseResult xs)"

definition unmarshal_results :: "string \<Rightarrow> CaseResult slice option" where
  "unmarshal_results s = Option.bind (json_parse s) (dec_slice dec_CaseResult)"

definition wire_stdins :: "string slice \<Rightarrow> string slice" where
  "wire_stdins = map_option (map utf8_fix)"

definition wire_results :: "CaseResult slice \<Rightarrow> CaseResult slice" where
  "wire_results = map_option (map wire_CaseResult)"

lemma enc_slice_depth:
  "jdepth (enc_slice JStr xs) \<le> max_depth" "jdepth (enc_slice enc_CaseResult ys) \<le> max_depth"
proof -
  have "jdepth (enc_slice JStr xs) \<le> 1" using jdepth_enc_slice [of JStr 0] by simp
  then show "jdepth (enc_slice JStr xs) \<le> max_depth" by (simp add: max_depth_def)
  have "jdepth (enc_slice enc_CaseResult ys) \<le> Suc 1"
    using jdepth_enc_slice [of enc_CaseResult 1] jdepth_enc(2) by blast
  then show "jdepth (enc_slice enc_CaseResult ys) \<le> max_depth" by (simp add: max_depth_def)
qed

interpretation stdins_codec: message_codec marshal_stdins unmarshal_stdins wire_stdins
proof unfold_locales
  fix m
  show "unmarshal_stdins (marshal_stdins m) = Some (wire_stdins m)"
    by (simp add: unmarshal_stdins_def marshal_stdins_def json_parse_jprint json_ok_enc_slice
        enc_slice_depth wire_stdins_def)
  show "marshal_stdins m \<noteq> []" by (simp add: marshal_stdins_def json_ok_enc_slice)
  show "wire_stdins (wire_stdins m) = wire_stdins m"
    by (simp add: wire_stdins_def option.map_comp comp_def)
qed

interpretation results_codec: message_codec marshal_results unmarshal_results wire_results
proof unfold_locales
  fix m
  show "unmarshal_results (marshal_results m) = Some (wire_results m)"
    by (simp add: unmarshal_results_def marshal_results_def json_parse_jprint json_ok_enc_slice
        enc_slice_depth wire_results_def)
  show "marshal_results m \<noteq> []" by (simp add: marshal_results_def json_ok_enc_slice)
  show "wire_results (wire_results m) = wire_results m"
    by (simp add: wire_results_def option.map_comp comp_def)
qed

end
