(* ===== verification/Redis.thy ===== *)
theory Redis
  imports Prelude "HOL-Library.AList"
begin

text \<open>
  The Redis client as the queue uses it. The client and the server are not part of the
  program: they are a record of operations over an opaque state, and \<open>redis_laws\<close> states
  the documented behaviour the queue relies on, over a \<open>redis_view\<close> of the state. A command
  that reports an error may or may not have been carried out. \<open>mem_redis\<close> is the view
  itself with the documented commands, always available: the laws hold of it.
\<close>

datatype redis_cmd =
    HSet string "(string \<times> string) list"
  | LPush string string
  | Expire string gint

datatype brpop_reply = BValue "string list" | BNil | BCtx | BError string

type_synonym hash = "(string \<times> string) list"

record redis_view =
  rv_hash :: "string \<Rightarrow> hash"
  rv_list :: "string \<Rightarrow> string list"
  rv_ttl :: "string \<Rightarrow> gint option"

record 'r redis_client =
  rc_tx :: "redis_cmd list \<Rightarrow> 'r \<Rightarrow> string option \<times> 'r"
  rc_cmd :: "redis_cmd \<Rightarrow> 'r \<Rightarrow> string option \<times> 'r"
  rc_brpop :: "gint \<Rightarrow> string \<Rightarrow> 'r \<Rightarrow> brpop_reply \<times> 'r"
  rc_hgetall :: "string \<Rightarrow> 'r \<Rightarrow> (string + hash) \<times> 'r"

fun hset :: "(string \<times> string) list \<Rightarrow> hash \<Rightarrow> hash" where
  "hset [] h = h"
| "hset ((f, x) # fs) h = hset fs (AList.update f x h)"

text \<open>
  HSET sets fields and keeps the others and the key's expiry; LPUSH adds at the head; EXPIRE
  does nothing to a missing key.
\<close>

fun redis_exec :: "redis_cmd \<Rightarrow> redis_view \<Rightarrow> redis_view" where
  "redis_exec (HSet k fs) v = v\<lparr>rv_hash := (rv_hash v)(k := hset fs (rv_hash v k))\<rparr>"
| "redis_exec (LPush k x) v = v\<lparr>rv_list := (rv_list v)(k := x # rv_list v k)\<rparr>"
| "redis_exec (Expire k d) v =
     (if rv_hash v k = [] then v else v\<lparr>rv_ttl := (rv_ttl v)(k := Some d)\<rparr>)"

definition rpop_view :: "string \<Rightarrow> redis_view \<Rightarrow> redis_view" where
  "rpop_view k v = v\<lparr>rv_list := (rv_list v)(k := butlast (rv_list v k))\<rparr>"

text \<open>A key whose time has come is gone.\<close>

definition expire_key :: "string \<Rightarrow> redis_view \<Rightarrow> redis_view" where
  "expire_key k v =
     (if rv_ttl v k = None then v
      else v\<lparr>rv_hash := (rv_hash v)(k := []), rv_ttl := (rv_ttl v)(k := None)\<rparr>)"

locale redis_laws =
  fixes rc :: "'r redis_client"
    and view :: "'r \<Rightarrow> redis_view"
  assumes tx_ok: "rc_tx rc cs r = (None, r') \<Longrightarrow> view r' = fold redis_exec cs (view r)"
    and tx_err: "rc_tx rc cs r = (Some e, r') \<Longrightarrow>
      view r' = view r \<or> view r' = fold redis_exec cs (view r)"
    and cmd_ok: "rc_cmd rc c r = (None, r') \<Longrightarrow> view r' = redis_exec c (view r)"
    and cmd_err: "rc_cmd rc c r = (Some e, r') \<Longrightarrow>
      view r' = view r \<or> view r' = redis_exec c (view r)"
    and brpop_value: "rc_brpop rc t k r = (BValue xs, r') \<Longrightarrow>
      rv_list (view r) k \<noteq> [] \<and> xs = [k, last (rv_list (view r) k)] \<and> view r' = rpop_view k (view r)"
    and brpop_nil: "rc_brpop rc t k r = (BNil, r') \<Longrightarrow> view r' = view r"
    and brpop_lost: "rc_brpop rc t k r = (b, r') \<Longrightarrow> view r' = view r \<or> view r' = rpop_view k (view r)"
    and hgetall_view: "rc_hgetall rc k r = (x, r') \<Longrightarrow> view r' = view r"
    and hgetall_value: "rc_hgetall rc k r = (Inr h, r') \<Longrightarrow> h = rv_hash (view r) k"

definition mem_redis :: "redis_view redis_client" where
  "mem_redis =
     \<lparr>rc_tx = (\<lambda>cs v. (None, fold redis_exec cs v)),
      rc_cmd = (\<lambda>c v. (None, redis_exec c v)),
      rc_brpop = (\<lambda>t k v. if rv_list v k = [] then (BNil, v)
                         else (BValue [k, last (rv_list v k)], rpop_view k v)),
      rc_hgetall = (\<lambda>k v. (Inr (rv_hash v k), v))\<rparr>"

definition empty_view :: redis_view where
  "empty_view = \<lparr>rv_hash = (\<lambda>_. []), rv_list = (\<lambda>_. []), rv_ttl = (\<lambda>_. None)\<rparr>"

interpretation mem: redis_laws mem_redis "\<lambda>v. v"
  by unfold_locales (auto simp: mem_redis_def split: if_splits)

section \<open>Hashes\<close>

text \<open>Reading a field as Go reads a \<^verbatim>\<open>map[string]string\<close>: the empty string where it is missing.\<close>

definition field_of :: "hash \<Rightarrow> string \<Rightarrow> string" where
  "field_of h f = (case map_of h f of Some x \<Rightarrow> x | None \<Rightarrow> [])"

lemma field_of_update [simp]: "field_of (AList.update f x h) = (field_of h)(f := x)"
  by (auto simp: field_of_def update_conv')

lemma field_of_Cons [simp]: "field_of ((f, x) # h) = (field_of h)(f := x)"
  by (auto simp: field_of_def)

lemma field_of_Nil [simp]: "field_of [] = (\<lambda>_. [])"
  by (auto simp: field_of_def)

lemma update_nonempty [simp]: "AList.update f x h \<noteq> []"
  by (cases h) auto

lemma hset_nonempty: "fs \<noteq> [] \<Longrightarrow> hset fs h \<noteq> []"
proof (induction fs arbitrary: h)
  case (Cons a fs)
  then show ?case by (cases a; cases fs) auto
qed simp

lemma field_of_hset_other: "g \<notin> fst ` set fs \<Longrightarrow> field_of (hset fs h) g = field_of h g"
  by (induction fs h rule: hset.induct) auto

end
