(* ===== verification/Queue.thy ===== *)
theory Queue
  imports Jobs Redis "HOL-Library.Sublist"
begin

text \<open>
  \<^verbatim>\<open>queue/redis.go\<close>: the work list and the job hashes. The operations take the Redis client
  as a parameter and pass its state. The contracts at the end are what the API and the
  worker use: a first-in-first-out list of job ids, and a store of jobs whose abstract
  content (\<open>job_at\<close>) each operation updates as an assignment to a few fields.
\<close>

definition queueKey :: string where
  "queueKey = ''dredd:queue''"

definition popTimeout :: gint where
  "popTimeout = 500000000"

definition jobKey :: "string \<Rightarrow> string" where
  "jobKey jid = ''dredd:job:'' @ jid"

datatype queue_error =
    QRedis string
  | NotFound
  | QDecode string string

section \<open>Operations\<close>

definition Enqueue :: "'r redis_client \<Rightarrow> Job \<Rightarrow> 'r \<Rightarrow> string option \<times> 'r" where
  "Enqueue rc j r =
     (let key = jobKey (job_ID j) in
      rc_tx rc
        [HSet key
           [(''id'', job_ID j),
            (''language'', job_Language j),
            (''source'', job_Source j),
            (''stdins'', marshal_stdins (job_Stdins j)),
            (''time_limit_ms'', itoa (job_TimeLimitMs j)),
            (''memory_limit_mb'', itoa (job_MemoryLimitMb j)),
            (''status'', StatusQueued)],
         LPush queueKey (job_ID j)] r)"

text \<open>The empty string stands for a timeout or a cancelled context.\<close>

definition Dequeue :: "'r redis_client \<Rightarrow> 'r \<Rightarrow> (queue_error + string) \<times> 'r" where
  "Dequeue rc r =
     (case rc_brpop rc popTimeout queueKey r of
        (BNil, r') \<Rightarrow> (Inr [], r')
      | (BCtx, r') \<Rightarrow> (Inr [], r')
      | (BError e, r') \<Rightarrow> (Inl (QRedis e), r')
      | (BValue xs, r') \<Rightarrow> (Inr (if length xs < 2 then [] else xs ! 1), r'))"

text \<open>A job hash read back: a field that is there and does not parse is an error.\<close>

definition load_int :: "string \<Rightarrow> gint option" where
  "load_int s = (if s = [] then Some 0 else atoi s)"

definition load_slice :: "(string \<Rightarrow> 'a slice option) \<Rightarrow> string \<Rightarrow> 'a slice option" where
  "load_slice unmarshal s = (if s = [] then Some None else unmarshal s)"

definition load_fields :: "string \<Rightarrow> (string \<Rightarrow> string) \<Rightarrow> queue_error + Job" where
  "load_fields jid m =
     (case load_slice unmarshal_stdins (m ''stdins'') of
        None \<Rightarrow> Inl (QDecode ''stdins'' jid)
      | Some stdins \<Rightarrow>
     (case load_slice unmarshal_results (m ''results'') of
        None \<Rightarrow> Inl (QDecode ''results'' jid)
      | Some results \<Rightarrow>
     (case load_int (m ''time_limit_ms'') of
        None \<Rightarrow> Inl (QDecode ''time_limit_ms'' jid)
      | Some tlim \<Rightarrow>
     (case load_int (m ''memory_limit_mb'') of
        None \<Rightarrow> Inl (QDecode ''memory_limit_mb'' jid)
      | Some mlim \<Rightarrow>
          Inr \<lparr>job_ID = m ''id'', job_Language = m ''language'', job_Source = m ''source'',
               job_Stdins = stdins, job_TimeLimitMs = tlim, job_MemoryLimitMb = mlim,
               job_Status = m ''status'', job_Error = m ''error'',
               job_CompileError = m ''compile_error'', job_Results = results\<rparr>))))"

definition load_hash :: "string \<Rightarrow> hash \<Rightarrow> queue_error + Job" where
  "load_hash jid m = (if m = [] then Inl NotFound else load_fields jid (field_of m))"

definition Load :: "'r redis_client \<Rightarrow> string \<Rightarrow> 'r \<Rightarrow> (queue_error + Job) \<times> 'r" where
  "Load rc jid r =
     (case rc_hgetall rc (jobKey jid) r of
        (Inl e, r') \<Rightarrow> (Inl (QRedis e), r')
      | (Inr m, r') \<Rightarrow> (load_hash jid m, r'))"

definition SetRunning :: "'r redis_client \<Rightarrow> string \<Rightarrow> 'r \<Rightarrow> string option \<times> 'r" where
  "SetRunning rc jid r = rc_cmd rc (HSet (jobKey jid) [(''status'', StatusRunning)]) r"

definition Finish ::
    "'r redis_client \<Rightarrow> gint \<Rightarrow> string \<Rightarrow> string \<Rightarrow> string \<Rightarrow> string \<Rightarrow> CaseResult slice \<Rightarrow> 'r
      \<Rightarrow> string option \<times> 'r" where
  "Finish rc resultTTL jid status compileErr errStr results r =
     rc_tx rc
       (HSet (jobKey jid)
          [(''status'', status),
           (''compile_error'', compileErr),
           (''error'', errStr),
           (''results'', marshal_results results)] #
        (if Terminal status \<and> 0 < sint resultTTL then [Expire (jobKey jid) resultTTL] else [])) r"

section \<open>The abstract store\<close>

text \<open>The job a view holds under an id, if its hash is there and sound.\<close>

definition job_at :: "redis_view \<Rightarrow> string \<Rightarrow> Job option" where
  "job_at v jid = (case load_hash jid (rv_hash v (jobKey jid)) of Inr j \<Rightarrow> Some j | Inl _ \<Rightarrow> None)"

definition pending :: "redis_view \<Rightarrow> string list" where
  "pending v = rev (rv_list v queueKey)"

lemma jobKey_eq [simp]: "jobKey a = jobKey b \<longleftrightarrow> a = b"
  by (simp add: jobKey_def)

lemma load_int_itoa [simp]: "load_int (itoa w) = Some w"
  by (simp add: load_int_def)

text \<open>A job as it is read back: stdins valid UTF-8, queued, and no outcome yet.\<close>

definition queued_job :: "Job \<Rightarrow> Job" where
  "queued_job j = j\<lparr>job_Stdins := wire_stdins (job_Stdins j), job_Status := StatusQueued,
     job_Error := [], job_CompileError := [], job_Results := None\<rparr>"

definition finish_job :: "string \<Rightarrow> string \<Rightarrow> string \<Rightarrow> CaseResult slice \<Rightarrow> Job \<Rightarrow> Job" where
  "finish_job status compileErr errStr results j =
     j\<lparr>job_Status := status, job_CompileError := compileErr, job_Error := errStr,
       job_Results := wire_results results\<rparr>"

abbreviation enqueue_cmds :: "Job \<Rightarrow> redis_cmd list" where
  "enqueue_cmds j \<equiv>
     [HSet (jobKey (job_ID j))
        [(''id'', job_ID j), (''language'', job_Language j), (''source'', job_Source j),
         (''stdins'', marshal_stdins (job_Stdins j)),
         (''time_limit_ms'', itoa (job_TimeLimitMs j)),
         (''memory_limit_mb'', itoa (job_MemoryLimitMb j)), (''status'', StatusQueued)],
      LPush queueKey (job_ID j)]"

lemma load_slice_marshal [simp]:
  "load_slice unmarshal_stdins (marshal_stdins xs) = Some (wire_stdins xs)"
  "load_slice unmarshal_results (marshal_results ys) = Some (wire_results ys)"
  by (simp_all add: load_slice_def stdins_codec.marshal_nonempty stdins_codec.unmarshal_marshal
      results_codec.marshal_nonempty results_codec.unmarshal_marshal)

lemma load_empty [simp]: "load_slice u [] = Some None" "load_int [] = Some 0"
  by (simp_all add: load_slice_def load_int_def)

text \<open>Storing the outcome fields of a job is an assignment to the job that is read back.\<close>

lemma load_fields_status:
  "load_fields jid (m(''status'' := s)) = map_sum id (job_Status_update (\<lambda>_. s)) (load_fields jid m)"
  by (simp add: load_fields_def split: option.split)

lemma load_fields_finish:
  "load_fields jid m = Inr j \<Longrightarrow>
    load_fields jid (m(''status'' := s, ''compile_error'' := ce, ''error'' := es,
      ''results'' := marshal_results rs)) = Inr (finish_job s ce es rs j)"
  by (auto simp: load_fields_def finish_job_def split: option.splits)

lemma job_at_enqueue:
  assumes "rv_hash v (jobKey (job_ID j)) = []"
  shows "job_at (fold redis_exec (enqueue_cmds j) v) k =
    (if k = job_ID j then Some (queued_job j) else job_at v k)"
  using assms
  by (simp add: job_at_def load_hash_def load_fields_def queued_job_def)

lemma pending_enqueue: "pending (fold redis_exec (enqueue_cmds j) v) = pending v @ [job_ID j]"
  by (simp add: pending_def)

lemma job_at_running:
  "job_at v jid = Some j \<Longrightarrow>
    job_at (redis_exec (HSet (jobKey jid) [(''status'', s)]) v) k =
      (if k = jid then Some (j\<lparr>job_Status := s\<rparr>) else job_at v k)"
  by (auto simp: job_at_def load_hash_def load_fields_status split: sum.splits if_splits)

definition finish_cmds :: "gint \<Rightarrow> string \<Rightarrow> string \<Rightarrow> string \<Rightarrow> string \<Rightarrow> CaseResult slice \<Rightarrow> redis_cmd list" where
  "finish_cmds ttl jid status compileErr errStr results =
     HSet (jobKey jid)
       [(''status'', status), (''compile_error'', compileErr), (''error'', errStr),
        (''results'', marshal_results results)] #
     (if Terminal status \<and> 0 < sint ttl then [Expire (jobKey jid) ttl] else [])"

lemma Finish_cmds:
  "Finish rc ttl jid status ce es rs r = rc_tx rc (finish_cmds ttl jid status ce es rs) r"
  by (simp add: Finish_def finish_cmds_def)

lemma finish_cmds_hash:
  "rv_hash (fold redis_exec (finish_cmds ttl jid status ce es rs) v) =
    (rv_hash v)(jobKey jid := hset [(''status'', status), (''compile_error'', ce), (''error'', es),
       (''results'', marshal_results rs)] (rv_hash v (jobKey jid)))"
  by (simp add: finish_cmds_def)

lemma job_at_finish:
  assumes "job_at v jid = Some j"
  shows "job_at (fold redis_exec (finish_cmds ttl jid status ce es rs) v) k =
    (if k = jid then Some (finish_job status ce es rs j) else job_at v k)"
  using assms
  by (auto simp: job_at_def finish_cmds_hash load_hash_def load_fields_finish
      split: sum.splits if_splits)

lemma finish_ttl:
  "rv_ttl (fold redis_exec (finish_cmds ttl jid status ce es rs) v) (jobKey jid) =
    (if Terminal status \<and> 0 < sint ttl then Some ttl else rv_ttl v (jobKey jid))"
  by (simp add: finish_cmds_def)

lemma pending_finish:
  "pending (fold redis_exec (finish_cmds ttl jid status ce es rs) v) = pending v"
  by (simp add: finish_cmds_def pending_def)

lemma pending_running: "pending (redis_exec (HSet k fs) v) = pending v"
  by (simp add: pending_def)

section \<open>The contracts\<close>

text \<open>
  A history of calls: the ids offered to \<^verbatim>\<open>Enqueue\<close>, the ids \<^verbatim>\<open>Dequeue\<close> handed out, and the
  states before and after. The first relation has every outcome, the second the successes.
\<close>

inductive queue_run ::
    "(Job \<Rightarrow> 'r \<Rightarrow> string option \<times> 'r) \<Rightarrow> ('r \<Rightarrow> (queue_error + string) \<times> 'r) \<Rightarrow> 'r
      \<Rightarrow> string list \<Rightarrow> string list \<Rightarrow> 'r \<Rightarrow> bool"
  for enq deq r0 where
  start: "queue_run enq deq r0 [] [] r0"
| push: "queue_run enq deq r0 ins outs r \<Longrightarrow> enq j r = (e, r')
    \<Longrightarrow> queue_run enq deq r0 (ins @ [job_ID j]) outs r'"
| pop: "queue_run enq deq r0 ins outs r \<Longrightarrow> deq r = (Inr k, r') \<Longrightarrow> k \<noteq> []
    \<Longrightarrow> queue_run enq deq r0 ins (outs @ [k]) r'"
| miss: "queue_run enq deq r0 ins outs r \<Longrightarrow> deq r = (x, r')
    \<Longrightarrow> x = Inr [] \<or> isl x \<Longrightarrow> queue_run enq deq r0 ins outs r'"

inductive clean_run ::
    "(Job \<Rightarrow> 'r \<Rightarrow> string option \<times> 'r) \<Rightarrow> ('r \<Rightarrow> (queue_error + string) \<times> 'r) \<Rightarrow> 'r
      \<Rightarrow> string list \<Rightarrow> string list \<Rightarrow> 'r \<Rightarrow> bool"
  for enq deq r0 where
  start: "clean_run enq deq r0 [] [] r0"
| push: "clean_run enq deq r0 ins outs r \<Longrightarrow> enq j r = (None, r')
    \<Longrightarrow> clean_run enq deq r0 (ins @ [job_ID j]) outs r'"
| pop: "clean_run enq deq r0 ins outs r \<Longrightarrow> deq r = (Inr k, r') \<Longrightarrow> k \<noteq> []
    \<Longrightarrow> clean_run enq deq r0 ins (outs @ [k]) r'"

text \<open>
  The work list: ids leave it in the order they entered. A call that reports an error, or
  that comes back empty-handed because its context ended, may have taken the oldest id all
  the same.
\<close>

locale job_queue =
  fixes enq :: "Job \<Rightarrow> 'r \<Rightarrow> string option \<times> 'r"
    and deq :: "'r \<Rightarrow> (queue_error + string) \<times> 'r"
    and waiting :: "'r \<Rightarrow> string list"
  assumes enq_ok: "enq j r = (None, r') \<Longrightarrow> waiting r' = waiting r @ [job_ID j]"
    and enq_err: "enq j r = (Some e, r') \<Longrightarrow> waiting r' = waiting r \<or> waiting r' = waiting r @ [job_ID j]"
    and deq_id: "deq r = (Inr k, r') \<Longrightarrow> k \<noteq> [] \<Longrightarrow> waiting r = k # waiting r'"
    and deq_other: "deq r = (x, r') \<Longrightarrow> waiting r' = waiting r \<or> waiting r' = tl (waiting r)"
begin

text \<open>
  Whatever calls were made, by any number of workers, and however they failed: the ids handed
  out and those still waiting are among those that were waiting and those offered since, in
  that order, and each is handed out for one submission at most.
\<close>

lemma queue_run_subseq:
  "queue_run enq deq r0 ins outs r \<Longrightarrow> subseq (outs @ waiting r) (waiting r0 @ ins)"
proof (induction rule: queue_run.induct)
  case (push ins outs r j e r')
  have "waiting r' = waiting r \<or> waiting r' = waiting r @ [job_ID j]"
    using push.hyps(2) enq_ok [of j r r'] enq_err [of j r _ r'] by (cases e) auto
  then show ?case
    using list_emb_append_mono [OF push.IH subseq_order.refl, of "[job_ID j]"]
      list_emb_prefix [OF push.IH, of "[job_ID j]"]
    by auto
next
  case (pop ins outs r k r')
  then show ?case using deq_id [of r k r'] by simp
next
  case (miss ins outs r x r')
  have "subseq (tl (waiting r)) (waiting r)"
    by (cases "waiting r") auto
  then have "subseq (outs @ waiting r') (outs @ waiting r)"
    using deq_other [OF miss.hyps(2)] by (auto intro!: list_emb_append_mono)
  from subseq_order.trans [OF this miss.IH] show ?case .
qed simp

text \<open>Without failures nothing is lost: the ids handed out are the first ones submitted.\<close>

lemma queue_run_fifo:
  "clean_run enq deq r0 ins outs r \<Longrightarrow> outs @ waiting r = waiting r0 @ ins"
proof (induction rule: clean_run.induct)
  case (push ins outs r j r')
  then show ?case using enq_ok [of j r r'] by simp
next
  case (pop ins outs r k r')
  then show ?case using deq_id [of r k r'] by simp
qed simp

end

text \<open>The job store: what reading a job gives, and what the two writes of the worker assign.\<close>

locale job_store =
  fixes load :: "string \<Rightarrow> 'r \<Rightarrow> (queue_error + Job) \<times> 'r"
    and run :: "string \<Rightarrow> 'r \<Rightarrow> string option \<times> 'r"
    and fin :: "string \<Rightarrow> string \<Rightarrow> string \<Rightarrow> string \<Rightarrow> CaseResult slice \<Rightarrow> 'r \<Rightarrow> string option \<times> 'r"
    and jobs :: "'r \<Rightarrow> string \<Rightarrow> Job option"
    and waiting :: "'r \<Rightarrow> string list"
  assumes load_frame: "load k r = (x, r') \<Longrightarrow> jobs r' = jobs r \<and> waiting r' = waiting r"
    and load_value: "load k r = (Inr j, r') \<Longrightarrow> jobs r k = Some j"
    and run_waiting: "run k r = (res, r') \<Longrightarrow> waiting r' = waiting r"
    and run_ok: "jobs r k = Some j \<Longrightarrow> run k r = (None, r') \<Longrightarrow>
      jobs r' = (jobs r)(k \<mapsto> j\<lparr>job_Status := StatusRunning\<rparr>)"
    and run_err: "jobs r k = Some j \<Longrightarrow> run k r = (Some e, r') \<Longrightarrow>
      jobs r' = jobs r \<or> jobs r' = (jobs r)(k \<mapsto> j\<lparr>job_Status := StatusRunning\<rparr>)"
    and fin_waiting: "fin k s ce es rs r = (res, r') \<Longrightarrow> waiting r' = waiting r"
    and fin_ok: "jobs r k = Some j \<Longrightarrow> fin k s ce es rs r = (None, r') \<Longrightarrow>
      jobs r' = (jobs r)(k \<mapsto> finish_job s ce es rs j)"
    and fin_err: "jobs r k = Some j \<Longrightarrow> fin k s ce es rs r = (Some e, r') \<Longrightarrow>
      jobs r' = jobs r \<or> jobs r' = (jobs r)(k \<mapsto> finish_job s ce es rs j)"
begin

lemma run_cases_jobs:
  "jobs r k = Some j \<Longrightarrow> run k r = (e, r') \<Longrightarrow>
    jobs r' = (jobs r)(k \<mapsto> j\<lparr>job_Status := StatusRunning\<rparr>) \<or> e \<noteq> None \<and> jobs r' = jobs r"
  using run_ok [of r k j r'] run_err [of r k j _ r'] by (cases e) auto

lemma fin_cases_jobs:
  "jobs r k = Some j \<Longrightarrow> fin k s ce es rs r = (e, r') \<Longrightarrow>
    jobs r' = (jobs r)(k \<mapsto> finish_job s ce es rs j) \<or> e \<noteq> None \<and> jobs r' = jobs r"
  using fin_ok [of r k j s ce es rs r'] fin_err [of r k j s ce es rs _ r'] by (cases e) auto

end

lemma fun_eqI: "(\<And>k. f k = g k) \<Longrightarrow> f = g"
  by auto

lemma job_at_running_upd:
  "job_at v jid = Some j \<Longrightarrow>
    job_at (redis_exec (HSet (jobKey jid) [(''status'', s)]) v) = (job_at v)(jid \<mapsto> j\<lparr>job_Status := s\<rparr>)"
  by (rule fun_eqI) (simp add: job_at_running del: redis_exec.simps)

lemma job_at_finish_upd:
  "job_at v jid = Some j \<Longrightarrow>
    job_at (fold redis_exec (finish_cmds ttl jid s ce es rs) v) = (job_at v)(jid \<mapsto> finish_job s ce es rs j)"
  by (rule fun_eqI) (simp add: job_at_finish)

lemma Enqueue_cmds: "Enqueue rc j r = rc_tx rc (enqueue_cmds j) r"
  by (simp add: Enqueue_def Let_def)

text \<open>The code's operations keep both contracts over any Redis that keeps its own.\<close>

context redis_laws
begin

lemma Enqueue_view:
  "Enqueue rc j r = (None, r') \<Longrightarrow> view r' = fold redis_exec (enqueue_cmds j) (view r)"
  unfolding Enqueue_cmds by (rule tx_ok)

lemma Dequeue_view:
  assumes "Dequeue rc r = (x, r')"
  shows "view r' = view r \<or> view r' = rpop_view queueKey (view r)"
    and "x = Inr k \<Longrightarrow> k \<noteq> [] \<Longrightarrow>
      rv_list (view r) queueKey \<noteq> [] \<and> k = last (rv_list (view r) queueKey) \<and>
      view r' = rpop_view queueKey (view r)"
proof -
  obtain b where b: "rc_brpop rc popTimeout queueKey r = (b, r')"
    using assms by (auto simp: Dequeue_def split: prod.splits brpop_reply.splits)
  show "view r' = view r \<or> view r' = rpop_view queueKey (view r)"
    using brpop_lost [OF b] .
  show "x = Inr k \<Longrightarrow> k \<noteq> [] \<Longrightarrow>
      rv_list (view r) queueKey \<noteq> [] \<and> k = last (rv_list (view r) queueKey) \<and>
      view r' = rpop_view queueKey (view r)"
    using assms b brpop_value [of popTimeout queueKey r _ r']
    by (cases b) (auto simp: Dequeue_def)
qed

lemma Load_view:
  assumes "Load rc k r = (x, r')"
  shows "view r' = view r" and "x = Inr j \<Longrightarrow> job_at (view r) k = Some j"
  using assms hgetall_view hgetall_value
  by (auto simp: Load_def job_at_def split: prod.splits sum.splits)

end

lemma pending_pop:
  "pending (rpop_view queueKey v) = tl (pending v)"
  by (cases "rv_list v queueKey" rule: rev_cases) (simp_all add: pending_def rpop_view_def)

lemma pending_last:
  "rv_list v queueKey \<noteq> [] \<Longrightarrow> pending v = last (rv_list v queueKey) # pending (rpop_view queueKey v)"
  by (cases "rv_list v queueKey" rule: rev_cases) (simp_all add: pending_def rpop_view_def)

sublocale redis_laws \<subseteq> work: job_queue "Enqueue rc" "Dequeue rc" "\<lambda>r. pending (view r)"
proof unfold_locales
  fix j r r' e k x
  show "Enqueue rc j r = (None, r') \<Longrightarrow> pending (view r') = pending (view r) @ [job_ID j]"
    by (simp only: Enqueue_view pending_enqueue)
  show "Enqueue rc j r = (Some e, r') \<Longrightarrow>
      pending (view r') = pending (view r) \<or> pending (view r') = pending (view r) @ [job_ID j]"
    unfolding Enqueue_cmds by (drule tx_err) (metis pending_enqueue)
  show "Dequeue rc r = (Inr k, r') \<Longrightarrow> k \<noteq> [] \<Longrightarrow> pending (view r) = k # pending (view r')"
    using Dequeue_view(2) pending_last by metis
  show "Dequeue rc r = (x, r') \<Longrightarrow>
      pending (view r') = pending (view r) \<or> pending (view r') = tl (pending (view r))"
    using Dequeue_view(1) pending_pop by metis
qed

sublocale redis_laws \<subseteq> store: job_store "Load rc" "SetRunning rc" "Finish rc ttl"
  "\<lambda>r. job_at (view r)" "\<lambda>r. pending (view r)" for ttl
proof unfold_locales
  fix k r r' x j e res s ce es rs
  show "Load rc k r = (x, r') \<Longrightarrow> job_at (view r') = job_at (view r) \<and> pending (view r') = pending (view r)"
    by (simp add: Load_view(1))
  show "Load rc k r = (Inr j, r') \<Longrightarrow> job_at (view r) k = Some j"
    using Load_view(2) by blast
  show "SetRunning rc k r = (res, r') \<Longrightarrow> pending (view r') = pending (view r)"
    using cmd_ok cmd_err pending_running by (cases res) (metis SetRunning_def)+
  show "job_at (view r) k = Some j \<Longrightarrow> SetRunning rc k r = (None, r') \<Longrightarrow>
      job_at (view r') = (job_at (view r))(k \<mapsto> j\<lparr>job_Status := StatusRunning\<rparr>)"
    using cmd_ok job_at_running_upd by (metis SetRunning_def)
  show "job_at (view r) k = Some j \<Longrightarrow> SetRunning rc k r = (Some e, r') \<Longrightarrow>
      job_at (view r') = job_at (view r) \<or>
      job_at (view r') = (job_at (view r))(k \<mapsto> j\<lparr>job_Status := StatusRunning\<rparr>)"
    using cmd_err job_at_running_upd by (metis SetRunning_def)
  show "Finish rc ttl k s ce es rs r = (res, r') \<Longrightarrow> pending (view r') = pending (view r)"
    using tx_ok tx_err pending_finish by (cases res) (metis Finish_cmds)+
  show "job_at (view r) k = Some j \<Longrightarrow> Finish rc ttl k s ce es rs r = (None, r') \<Longrightarrow>
      job_at (view r') = (job_at (view r))(k \<mapsto> finish_job s ce es rs j)"
    using tx_ok job_at_finish_upd by (metis Finish_cmds)
  show "job_at (view r) k = Some j \<Longrightarrow> Finish rc ttl k s ce es rs r = (Some e, r') \<Longrightarrow>
      job_at (view r') = job_at (view r) \<or>
      job_at (view r') = (job_at (view r))(k \<mapsto> finish_job s ce es rs j)"
    using tx_err job_at_finish_upd by (metis Finish_cmds)
qed

context redis_laws
begin

lemma history_subseq:
  "queue_run (Enqueue rc) (Dequeue rc) r0 ins outs r \<Longrightarrow>
    subseq (outs @ pending (view r)) (pending (view r0) @ ins)"
  by (rule work.queue_run_subseq)

lemma history_fifo:
  "clean_run (Enqueue rc) (Dequeue rc) r0 ins outs r \<Longrightarrow>
    outs @ pending (view r) = pending (view r0) @ ins"
  by (rule work.queue_run_fifo)

lemmas SetRunning_jobs = store.run_cases_jobs

lemma Finish_jobs:
  "job_at (view r) k = Some j \<Longrightarrow> Finish rc ttl k s ce es rs r = (e, r') \<Longrightarrow>
    job_at (view r') = (job_at (view r))(k \<mapsto> finish_job s ce es rs j) \<or>
    e \<noteq> None \<and> job_at (view r') = job_at (view r)"
  by (rule store.fin_cases_jobs)

lemma waiting_kept:
  "Load rc k r = (x, r') \<Longrightarrow> pending (view r') = pending (view r)"
  "SetRunning rc k r = (e, r') \<Longrightarrow> pending (view r') = pending (view r)"
  "Finish rc ttl k s ce es rs r = (e, r') \<Longrightarrow> pending (view r') = pending (view r)"
  using store.load_frame store.run_waiting store.fin_waiting by blast+

lemma dequeued_gone:
  "Dequeue rc r = (Inr k, r') \<Longrightarrow> k \<noteq> [] \<Longrightarrow> distinct (pending (view r)) \<Longrightarrow> k \<notin> set (pending (view r'))"
  using work.deq_id [of r k r'] by simp

lemma work_list_pop:
  "Dequeue rc r = (Inr k, r') \<Longrightarrow> k \<noteq> [] \<Longrightarrow> pending (view r) = k # pending (view r')"
  by (rule work.deq_id)

lemma SetRunning_ttl: "SetRunning rc k r = (e, r') \<Longrightarrow> rv_ttl (view r') = rv_ttl (view r)"
  using cmd_ok [of _ r r'] cmd_err [of _ r _ r'] by (cases e) (fastforce simp: SetRunning_def)+

end

section \<open>Properties\<close>

text \<open>
  C17. A submission is read back as it was made: on any Redis that keeps its documented
  behaviour, \<^verbatim>\<open>Load\<close> after a successful \<^verbatim>\<open>Enqueue\<close> of a fresh id either reports the
  transport's error or gives the job with its limits, source and (UTF-8) stdins, queued and
  without an outcome; no field fails to decode.
\<close>

theorem Enqueue_Load:
  assumes "redis_laws rc view"
    and "rv_hash (view r) (jobKey (job_ID j)) = []"
    and "Enqueue rc j r = (None, r1)"
    and "Load rc (job_ID j) r1 = (x, r2)"
  shows "x = Inr (queued_job j) \<or> (\<exists>e. x = Inl (QRedis e))"
proof -
  have v: "view r1 = fold redis_exec (enqueue_cmds j) (view r)"
    by (rule redis_laws.Enqueue_view [OF assms(1,3)])
  obtain h where h: "rc_hgetall rc (jobKey (job_ID j)) r1 = (h, r2)"
    using assms(4) by (auto simp: Load_def split: prod.splits sum.splits)
  have "job_at (view r1) (job_ID j) = Some (queued_job j)"
    using job_at_enqueue [OF assms(2)] v by simp
  then have "load_hash (job_ID j) (rv_hash (view r1) (jobKey (job_ID j))) = Inr (queued_job j)"
    by (simp add: job_at_def split: sum.splits)
  then show ?thesis
    using assms(4) h redis_laws.hgetall_value [OF assms(1), of "jobKey (job_ID j)" r1 _ r2]
    by (cases h) (auto simp: Load_def)
qed

definition sample_job :: Job where
  "sample_job = \<lparr>job_ID = ''j1'', job_Language = ''py'', job_Source = ''print(1)'',
     job_Stdins = Some [''a'', []], job_TimeLimitMs = 1500, job_MemoryLimitMb = 0,
     job_Status = [], job_Error = [], job_CompileError = [], job_Results = None\<rparr>"

lemma mem_laws: "redis_laws mem_redis (\<lambda>v. v)"
  by (rule mem.redis_laws_axioms)

lemma Enqueue_mem: "Enqueue mem_redis j v = (None, fold redis_exec (enqueue_cmds j) v)"
  by (simp add: Enqueue_cmds mem_redis_def)

lemma Load_mem: "Load mem_redis k v = (load_hash k (rv_hash v (jobKey k)), v)"
  by (simp add: Load_def mem_redis_def)

lemma Dequeue_mem: "pending v = k # ks \<Longrightarrow> Dequeue mem_redis v = (Inr k, rpop_view queueKey v)"
  by (cases "rv_list v queueKey" rule: rev_cases) (simp_all add: pending_def Dequeue_def mem_redis_def)

lemma Enqueue_Load_witness:
  "fst (Load mem_redis ''j1'' (snd (Enqueue mem_redis sample_job empty_view))) = Inr (queued_job sample_job)"
proof -
  have "rv_hash empty_view (jobKey (job_ID sample_job)) = []" by (simp add: empty_view_def)
  from Enqueue_Load [OF mem_laws this Enqueue_mem Load_mem]
  show ?thesis
    by (simp add: Load_mem Enqueue_mem sample_job_def load_hash_def load_fields_def
        split: sum.splits option.splits)
qed

text \<open>
  C16. The work list never duplicates or reorders: for any history of \<^verbatim>\<open>Enqueue\<close> and
  \<^verbatim>\<open>Dequeue\<close> calls by any number of callers, whatever their outcomes, the ids handed out,
  followed by those still waiting, are a subsequence of the ids that were waiting before,
  followed by those submitted.
\<close>

theorem work_list_at_most_once:
  assumes "redis_laws rc view"
    and "queue_run (Enqueue rc) (Dequeue rc) r0 ins outs r"
  shows "subseq (outs @ pending (view r)) (pending (view r0) @ ins)"
  by (rule redis_laws.history_subseq [OF assms])

text \<open>
  While no call fails the work list is a queue: the ids handed out and those still waiting
  are exactly the ones submitted, oldest first.
\<close>

theorem work_list_fifo:
  assumes "redis_laws rc view"
    and "clean_run (Enqueue rc) (Dequeue rc) r0 ins outs r"
  shows "outs @ pending (view r) = pending (view r0) @ ins"
  by (rule redis_laws.history_fifo [OF assms])

text \<open>A short history: one submission, handed out again.\<close>

definition sample_state :: redis_view where
  "sample_state = snd (Enqueue mem_redis sample_job empty_view)"

definition drained_state :: redis_view where
  "drained_state = snd (Dequeue mem_redis sample_state)"

lemma sample_steps:
  "Enqueue mem_redis sample_job empty_view = (None, sample_state)"
  "Dequeue mem_redis sample_state = (Inr ''j1'', drained_state)"
  "pending empty_view = []" "pending sample_state = [''j1'']"
proof -
  have l: "rv_list sample_state queueKey = [''j1'']"
    by (simp add: sample_state_def Enqueue_mem empty_view_def sample_job_def)
  show "Enqueue mem_redis sample_job empty_view = (None, sample_state)"
    by (simp only: sample_state_def Enqueue_mem snd_conv)
  show "Dequeue mem_redis sample_state = (Inr ''j1'', drained_state)"
    using l by (simp add: drained_state_def Dequeue_def mem_redis_def)
  show "pending empty_view = []" "pending sample_state = [''j1'']"
    using l by (simp_all add: pending_def empty_view_def)
qed

lemma sample_runs:
  "queue_run (Enqueue mem_redis) (Dequeue mem_redis) empty_view [''j1''] [''j1''] drained_state"
  "clean_run (Enqueue mem_redis) (Dequeue mem_redis) empty_view [''j1''] [''j1''] drained_state"
proof -
  have "job_ID sample_job = ''j1''" by (simp add: sample_job_def)
  with sample_steps show
    "queue_run (Enqueue mem_redis) (Dequeue mem_redis) empty_view [''j1''] [''j1''] drained_state"
    "clean_run (Enqueue mem_redis) (Dequeue mem_redis) empty_view [''j1''] [''j1''] drained_state"
    by (metis append_Nil queue_run.start queue_run.push queue_run.pop list.distinct(1))
      (metis append_Nil clean_run.start clean_run.push clean_run.pop list.distinct(1) sample_steps
        \<open>job_ID sample_job = ''j1''\<close>)
qed

lemma work_list_at_most_once_witness: "subseq ([''j1''] @ pending drained_state) [''j1'']"
  using work_list_at_most_once [OF mem_laws sample_runs(1)] by (simp add: sample_steps)

lemma work_list_fifo_witness: "[''j1''] @ pending drained_state = [''j1'']"
  using work_list_fifo [OF mem_laws sample_runs(2)] by (simp add: sample_steps)

text \<open>
  \<^verbatim>\<open>Finish\<close> is an assignment to one job: when it succeeds the job keeps what was
  submitted and gets the status, errors and (UTF-8) results, every other job and the work
  list stay as they are, and the hash expires after the result TTL exactly when the status is
  terminal and the TTL positive.
\<close>

theorem Finish_assigns:
  assumes "redis_laws rc view"
    and "job_at (view r) k = Some j"
    and "Finish rc ttl k status ce es rs r = (None, r')"
  shows "job_at (view r') = (job_at (view r))(k \<mapsto> finish_job status ce es rs j) \<and>
    pending (view r') = pending (view r) \<and>
    rv_ttl (view r') (jobKey k) =
      (if Terminal status \<and> 0 < sint ttl then Some ttl else rv_ttl (view r) (jobKey k))"
  using redis_laws.Finish_jobs [OF assms] redis_laws.waiting_kept(3) [OF assms(1,3)]
    redis_laws.tx_ok [OF assms(1) assms(3) [unfolded Finish_cmds]] finish_ttl by simp

lemma Finish_mem:
  "Finish mem_redis ttl k s ce es rs v = (None, fold redis_exec (finish_cmds ttl k s ce es rs) v)"
  by (simp add: Finish_cmds mem_redis_def)

lemma sample_state_job: "job_at sample_state ''j1'' = Some (queued_job sample_job)"
  using job_at_enqueue [of empty_view sample_job "''j1''"]
  by (simp add: sample_state_def Enqueue_mem empty_view_def sample_job_def)

lemma Finish_assigns_witness:
  "rv_ttl (snd (Finish mem_redis 7 ''j1'' StatusDone [] [] None sample_state)) (jobKey ''j1'') = Some 7"
  using Finish_assigns [OF mem_laws sample_state_job Finish_mem, of 7 StatusDone "[]" "[]" None]
  by (simp add: Finish_mem)

end
