(* ===== verification/Go_Path.thy ===== *)
theory Go_Path
  imports Prelude
begin

text \<open>
  \<^verbatim>\<open>path/filepath\<close> on Unix, as far as the program uses it: \<^verbatim>\<open>Clean\<close>, \<^verbatim>\<open>Join\<close> of two elements,
  \<^verbatim>\<open>Dir\<close>, \<^verbatim>\<open>Base\<close> and \<^verbatim>\<open>IsAbs\<close>. All of them are lexical.
\<close>

abbreviation slash :: char where
  "slash \<equiv> CHR ''/''"

fun split_slash :: "string \<Rightarrow> string list" where
  "split_slash [] = [[]]"
| "split_slash (c # s) =
     (if c = slash then [] # split_slash s
      else case split_slash s of [] \<Rightarrow> [[c]] | x # xs \<Rightarrow> (c # x) # xs)"

text \<open>One element onto the cleaned ones, innermost first: \<open>..\<close> takes one back where it can.\<close>

definition clean_step :: "bool \<Rightarrow> string list \<Rightarrow> string \<Rightarrow> string list" where
  "clean_step rooted acc x =
     (if x = [] \<or> x = ''.'' then acc
      else if x = ''..'' then
        (case acc of
           [] \<Rightarrow> if rooted then [] else [''..'']
         | y # ys \<Rightarrow> if y = ''..'' then ''..'' # acc else ys)
      else x # acc)"

fun join_slash :: "string list \<Rightarrow> string" where
  "join_slash [] = []"
| "join_slash [x] = x"
| "join_slash (x # y # ys) = x @ slash # join_slash (y # ys)"

definition IsAbs :: "string \<Rightarrow> bool" where
  "IsAbs p \<longleftrightarrow> p \<noteq> [] \<and> hd p = slash"

definition Clean :: "string \<Rightarrow> string" where
  "Clean p =
     (let out = join_slash (rev (foldl (clean_step (IsAbs p)) [] (split_slash p)))
      in if IsAbs p then slash # out else if out = [] then ''.'' else out)"

text \<open>\<^verbatim>\<open>filepath.Join(a, b)\<close>: empty elements are left out, the rest is cleaned.\<close>

definition Join :: "string \<Rightarrow> string \<Rightarrow> string" where
  "Join a b =
     (if a \<noteq> [] then Clean (a @ slash # b) else if b \<noteq> [] then Clean b else [])"

text \<open>\<^verbatim>\<open>filepath.Dir\<close>: everything up to and with the last slash, cleaned.\<close>

definition Dir :: "string \<Rightarrow> string" where
  "Dir p = Clean (rev (dropWhile (\<lambda>c. c \<noteq> slash) (rev p)))"

text \<open>\<^verbatim>\<open>filepath.Base\<close>: the last element, trailing slashes left out.\<close>

definition Base :: "string \<Rightarrow> string" where
  "Base p =
     (if p = [] then ''.''
      else (let q = rev (dropWhile (\<lambda>c. c = slash) (rev p));
                b = rev (takeWhile (\<lambda>c. c \<noteq> slash) (rev q))
            in if b = [] then [slash] else b))"

lemma IsAbs_Clean [simp]: "IsAbs p \<Longrightarrow> IsAbs (Clean p)"
  by (simp add: Clean_def IsAbs_def Let_def)

lemma Clean_nonempty [simp]: "Clean p \<noteq> []"
  by (simp add: Clean_def Let_def)

lemma IsAbs_append [simp]: "IsAbs a \<Longrightarrow> IsAbs (a @ b)"
  by (cases a) (simp_all add: IsAbs_def)

lemma IsAbs_Join: "IsAbs a \<Longrightarrow> IsAbs (Join a b)"
  by (auto simp: Join_def IsAbs_def [of "[]"])

lemma split_slash_nonempty [simp]: "split_slash s \<noteq> []"
  by (induction s) (auto split: list.splits)

text \<open>The elements of a cleaned rooted path: never empty, never \<open>.\<close> or \<open>..\<close>.\<close>

definition plain_elem :: "string \<Rightarrow> bool" where
  "plain_elem x \<longleftrightarrow> x \<noteq> [] \<and> x \<noteq> ''.'' \<and> x \<noteq> ''..''"

lemma clean_step_plain:
  "list_all plain_elem acc \<Longrightarrow> list_all plain_elem (clean_step True acc x)"
  by (auto simp: clean_step_def plain_elem_def split: list.splits)

lemma foldl_clean_plain:
  "list_all plain_elem acc \<Longrightarrow> list_all plain_elem (foldl (clean_step True) acc xs)"
  by (induction xs arbitrary: acc) (auto simp: clean_step_plain)

section \<open>The last element of a joined path\<close>

lemma split_slash_append: "split_slash (a @ slash # b) = split_slash a @ split_slash b"
proof (induction a)
  case (Cons c a)
  then show ?case by (cases "split_slash a") auto
qed simp

lemma split_slash_elem: "slash \<notin> set f \<Longrightarrow> split_slash f = [f]"
  by (induction f) auto

lemma join_slash_snoc: "join_slash (xs @ [f]) = (if xs = [] then f else join_slash xs @ slash # f)"
  by (induction xs rule: join_slash.induct) auto

lemma Join_last:
  assumes "d \<noteq> []" and "slash \<notin> set f" and "plain_elem f"
  shows "\<exists>u. Join d f = u @ f \<and> (u = [] \<or> last u = slash)"
proof -
  let ?p = "d @ slash # f"
  obtain acc where "foldl (clean_step (IsAbs ?p)) [] (split_slash ?p) = f # acc"
    using assms(2,3) by (simp add: split_slash_append split_slash_elem clean_step_def plain_elem_def)
  then have "Clean ?p = (if IsAbs ?p then [slash] else []) @ (if acc = [] then [] else join_slash (rev acc) @ [slash]) @ f"
    using assms(3) by (auto simp: Clean_def Let_def join_slash_snoc plain_elem_def)
  then show ?thesis
    using assms(1)
    by (intro exI [of _ "(if IsAbs ?p then [slash] else []) @ (if acc = [] then [] else join_slash (rev acc) @ [slash])"])
      (simp add: Join_def)
qed

lemma Base_append:
  assumes "slash \<notin> set f" and "f \<noteq> []" and "u = [] \<or> last u = slash"
  shows "Base (u @ f) = f"
proof -
  have 1: "dropWhile (\<lambda>c. c = slash) (rev f @ rev u) = rev f @ rev u"
    using assms(1,2) by (cases f rule: rev_cases) auto
  have 2: "takeWhile (\<lambda>c. c \<noteq> slash) (rev f @ rev u) = rev f"
  proof -
    have all: "\<And>x. x \<in> set (rev f) \<Longrightarrow> x \<noteq> slash" using assms(1) by auto
    have "takeWhile (\<lambda>c. c \<noteq> slash) (rev u) = []"
      using assms(3) by (cases u rule: rev_cases) auto
    then show ?thesis by (subst takeWhile_append2) (use all in auto)
  qed
  show ?thesis using assms(2) 1 2 by (simp add: Base_def)
qed

lemma Base_Join: "d \<noteq> [] \<Longrightarrow> slash \<notin> set f \<Longrightarrow> plain_elem f \<Longrightarrow> Base (Join d f) = f"
  using Join_last [of d f] Base_append [of f] by (metis plain_elem_def)

end
