(* ===== verification/Langs.thy ===== *)
theory Langs
  imports Go_Json_Types Go_Path
begin

text \<open>
  \<^verbatim>\<open>langs/language.go\<close> and \<^verbatim>\<open>langs/registry.go\<close>: the language catalogue. A registry is the
  map from language ids to languages with the order of the file; \<open>registry_ok\<close> is what
  \<^verbatim>\<open>Load\<close> establishes and every lookup relies on.
\<close>

record Language =
  lang_ID :: string
  lang_Name :: string
  lang_Version :: string
  lang_Rootfs :: string
  lang_SourceFile :: string
  lang_CompileCmd :: string
  lang_RunCmd :: string

record PublicView =
  pub_ID :: string
  pub_Name :: string
  pub_Version :: string

definition Public :: "Language \<Rightarrow> PublicView" where
  "Public l = \<lparr>pub_ID = lang_ID l, pub_Name = lang_Name l, pub_Version = lang_Version l\<rparr>"

definition zero_Language :: Language where
  "zero_Language = \<lparr>lang_ID = [], lang_Name = [], lang_Version = [], lang_Rootfs = [],
     lang_SourceFile = [], lang_CompileCmd = [], lang_RunCmd = []\<rparr>"

section \<open>The languages file\<close>

definition enc_Language :: "Language \<Rightarrow> json" where
  "enc_Language l = JObj
     [(''id'', JStr (lang_ID l)), (''name'', JStr (lang_Name l)),
      (''version'', JStr (lang_Version l)), (''rootfs'', JStr (lang_Rootfs l)),
      (''source_file'', JStr (lang_SourceFile l)), (''compile_cmd'', JStr (lang_CompileCmd l)),
      (''run_cmd'', JStr (lang_RunCmd l))]"

definition Language_fields :: "(string \<times> Language field) list" where
  "Language_fields =
     [(''id'', \<lambda>v l. map_option (\<lambda>x. l\<lparr>lang_ID := x\<rparr>) (dec_string v (lang_ID l))),
      (''name'', \<lambda>v l. map_option (\<lambda>x. l\<lparr>lang_Name := x\<rparr>) (dec_string v (lang_Name l))),
      (''version'', \<lambda>v l. map_option (\<lambda>x. l\<lparr>lang_Version := x\<rparr>) (dec_string v (lang_Version l))),
      (''rootfs'', \<lambda>v l. map_option (\<lambda>x. l\<lparr>lang_Rootfs := x\<rparr>) (dec_string v (lang_Rootfs l))),
      (''source_file'', \<lambda>v l. map_option (\<lambda>x. l\<lparr>lang_SourceFile := x\<rparr>) (dec_string v (lang_SourceFile l))),
      (''compile_cmd'', \<lambda>v l. map_option (\<lambda>x. l\<lparr>lang_CompileCmd := x\<rparr>) (dec_string v (lang_CompileCmd l))),
      (''run_cmd'', \<lambda>v l. map_option (\<lambda>x. l\<lparr>lang_RunCmd := x\<rparr>) (dec_string v (lang_RunCmd l)))]"

definition dec_Language :: "json \<Rightarrow> Language option" where
  "dec_Language v = dec_struct False Language_fields v zero_Language"

definition enc_PublicView :: "PublicView \<Rightarrow> json" where
  "enc_PublicView p = JObj
     [(''id'', JStr (pub_ID p)), (''name'', JStr (pub_Name p)), (''version'', JStr (pub_Version p))]"

section \<open>Loading\<close>

record Registry =
  reg_byID :: "string \<rightharpoonup> Language"
  reg_order :: "string list"

datatype load_error =
    ReadLanguages string
  | ParseLanguages
  | MissingFields Language
  | DuplicateLanguage string

definition incomplete :: "Language \<Rightarrow> bool" where
  "incomplete l \<longleftrightarrow>
     lang_ID l = [] \<or> lang_Rootfs l = [] \<or> lang_RunCmd l = [] \<or> lang_SourceFile l = []"

definition resolve :: "string \<Rightarrow> Language \<Rightarrow> Language" where
  "resolve rootfsDir l =
     (if \<not> IsAbs (lang_Rootfs l) then l\<lparr>lang_Rootfs := Join rootfsDir (lang_Rootfs l)\<rparr> else l)"

fun load_loop :: "string \<Rightarrow> Language list \<Rightarrow> Registry \<Rightarrow> load_error + Registry" where
  "load_loop dir [] r = Inr r"
| "load_loop dir (l # ls) r =
     (if incomplete l then Inl (MissingFields l)
      else
        (let l' = resolve dir l in
         if reg_byID r (lang_ID l') \<noteq> None then Inl (DuplicateLanguage (lang_ID l'))
         else load_loop dir ls
           \<lparr>reg_byID = (reg_byID r)(lang_ID l' \<mapsto> l'), reg_order = reg_order r @ [lang_ID l']\<rparr>))"

definition empty_registry :: Registry where
  "empty_registry = \<lparr>reg_byID = Map.empty, reg_order = []\<rparr>"

text \<open>\<^verbatim>\<open>os.ReadFile\<close> gives an error or the bytes of the file.\<close>

definition Load_registry :: "string + string \<Rightarrow> string \<Rightarrow> load_error + Registry" where
  "Load_registry file rootfsDir =
     (case file of
        Inl e \<Rightarrow> Inl (ReadLanguages e)
      | Inr b \<Rightarrow>
          (case Option.bind (json_parse b) (dec_slice dec_Language) of
             None \<Rightarrow> Inl ParseLanguages
           | Some list \<Rightarrow> load_loop rootfsDir (elems list) empty_registry))"

definition Get :: "Registry \<Rightarrow> string \<Rightarrow> Language option" where
  "Get r lid = reg_byID r lid"

text \<open>Indexing a Go map with a missing key gives the zero value.\<close>

definition All :: "Registry \<Rightarrow> Language list" where
  "All r = map (\<lambda>k. case reg_byID r k of Some l \<Rightarrow> l | None \<Rightarrow> zero_Language) (reg_order r)"

definition PublicAll :: "Registry \<Rightarrow> PublicView list" where
  "PublicAll r =
     map (\<lambda>k. Public (case reg_byID r k of Some l \<Rightarrow> l | None \<Rightarrow> zero_Language)) (reg_order r)"

section \<open>The invariant\<close>

definition registry_ok :: "Registry \<Rightarrow> bool" where
  "registry_ok r \<longleftrightarrow>
     distinct (reg_order r) \<and> dom (reg_byID r) = set (reg_order r) \<and>
     (\<forall>k l. reg_byID r k = Some l \<longrightarrow> lang_ID l = k \<and> \<not> incomplete l)"

lemma registry_ok_empty [simp]: "registry_ok empty_registry"
  by (simp add: registry_ok_def empty_registry_def)

lemma lang_ID_resolve [simp]: "lang_ID (resolve d l) = lang_ID l"
  by (simp add: resolve_def)

lemma Join_nonempty: "b \<noteq> [] \<Longrightarrow> Join a b \<noteq> []"
  by (simp add: Join_def)

lemma incomplete_resolve [simp]: "\<not> incomplete l \<Longrightarrow> \<not> incomplete (resolve d l)"
  using Join_nonempty [of "lang_Rootfs l" d] by (auto simp: incomplete_def resolve_def)

lemma Get_registry_ok:
  "registry_ok r \<Longrightarrow> Get r k = Some l \<Longrightarrow> lang_ID l = k \<and> \<not> incomplete l"
  by (simp add: registry_ok_def Get_def)

lemma All_ids: "registry_ok r \<Longrightarrow> map lang_ID (All r) = reg_order r"
  unfolding All_def map_map registry_ok_def by (intro map_idI) (force split: option.split)

lemma load_loop_registry_ok:
  "registry_ok r \<Longrightarrow> load_loop d ls r = Inr r' \<Longrightarrow> registry_ok r'"
proof (induction ls arbitrary: r)
  case Nil
  then show ?case by simp
next
  case (Cons l ls)
  let ?r = "\<lparr>reg_byID = (reg_byID r)(lang_ID l \<mapsto> resolve d l), reg_order = reg_order r @ [lang_ID l]\<rparr>"
  from Cons.prems have "\<not> incomplete l" "reg_byID r (lang_ID l) = None"
    "load_loop d ls ?r = Inr r'"
    by (auto simp: Let_def split: if_splits)
  moreover from this Cons.prems(1) have "registry_ok ?r"
    by (auto simp: registry_ok_def)
  ultimately show ?case using Cons.IH by blast
qed

text \<open>The loop accepts exactly the complete entries with distinct, new ids.\<close>

definition loadable :: "Language list \<Rightarrow> bool" where
  "loadable ls \<longleftrightarrow> list_all (\<lambda>l. \<not> incomplete l) ls \<and> distinct (map lang_ID ls)"

lemma load_loop_loadable:
  assumes "loadable ls" and "\<forall>l \<in> set ls. reg_byID r (lang_ID l) = None"
  shows "\<exists>r'. load_loop d ls r = Inr r' \<and> reg_order r' = reg_order r @ map lang_ID ls \<and>
    reg_byID r' = reg_byID r ++ map_of (map (\<lambda>l. (lang_ID l, resolve d l)) ls)"
  using assms
proof (induction ls arbitrary: r)
  case Nil
  then show ?case by simp
next
  case (Cons l ls)
  let ?r = "\<lparr>reg_byID = (reg_byID r)(lang_ID l \<mapsto> resolve d l), reg_order = reg_order r @ [lang_ID l]\<rparr>"
  have "loadable ls" and l: "\<not> incomplete l" "lang_ID l \<notin> lang_ID ` set ls"
    using Cons.prems(1) by (auto simp: loadable_def)
  moreover have "lang_ID k \<noteq> lang_ID l" if "k \<in> set ls" for k
    using that l(2) by (metis image_eqI)
  then have "\<forall>k \<in> set ls. reg_byID ?r (lang_ID k) = None"
    using Cons.prems(2) by simp
  ultimately obtain r' where r': "load_loop d ls ?r = Inr r'"
    "reg_order r' = reg_order ?r @ map lang_ID ls"
    "reg_byID r' = reg_byID ?r ++ map_of (map (\<lambda>l. (lang_ID l, resolve d l)) ls)"
    using Cons.IH by blast
  have upd: "(reg_byID r)(lang_ID l \<mapsto> resolve d l) ++ map_of (map (\<lambda>l. (lang_ID l, resolve d l)) ls)
    = reg_byID r ++ map_of (map (\<lambda>l. (lang_ID l, resolve d l)) (l # ls))"
    using l(2) by (subst map_add_upd_left) (auto simp: dom_map_of_conv_image_fst image_image)
  have "reg_byID r' = reg_byID r ++ map_of (map (\<lambda>l. (lang_ID l, resolve d l)) (l # ls))"
    using r'(3) upd by (metis Registry.select_convs(1))
  moreover have "load_loop d (l # ls) r = Inr r'"
    using r'(1) l Cons.prems(2) by (simp add: Let_def)
  moreover have "reg_order r' = reg_order r @ map lang_ID (l # ls)"
    using r'(2) by simp
  ultimately show ?case by blast
qed

lemma load_loop_rejects:
  "load_loop d ls r = Inr r' \<Longrightarrow> loadable ls \<and> (\<forall>l \<in> set ls. reg_byID r (lang_ID l) = None)"
proof (induction ls arbitrary: r)
  case Nil
  then show ?case by (simp add: loadable_def)
next
  case (Cons l ls)
  let ?r = "\<lparr>reg_byID = (reg_byID r)(lang_ID l \<mapsto> resolve d l), reg_order = reg_order r @ [lang_ID l]\<rparr>"
  from Cons.prems have "\<not> incomplete l" "reg_byID r (lang_ID l) = None" "load_loop d ls ?r = Inr r'"
    by (auto simp: Let_def split: if_splits)
  moreover from this have "loadable ls \<and> (\<forall>k \<in> set ls. reg_byID ?r (lang_ID k) = None)"
    using Cons.IH by blast
  ultimately show ?case by (force simp: loadable_def split: if_splits)
qed

lemma load_loop_All:
  assumes "load_loop d ls empty_registry = Inr r"
  shows "All r = map (resolve d) ls"
proof -
  have ls: "loadable ls" using load_loop_rejects [OF assms] by simp
  then obtain r' where "load_loop d ls empty_registry = Inr r'" "reg_order r' = map lang_ID ls"
    "reg_byID r' = map_of (map (\<lambda>l. (lang_ID l, resolve d l)) ls)"
    using load_loop_loadable [of ls empty_registry d] by (auto simp: empty_registry_def)
  moreover have "map_of (map (\<lambda>l. (lang_ID l, resolve d l)) ls) (lang_ID l) = Some (resolve d l)"
    if "l \<in> set ls" for l
    using that ls by (intro map_of_is_SomeI) (auto simp: loadable_def comp_def)
  ultimately show ?thesis using assms by (simp add: All_def)
qed

text \<open>What a language is after a round trip through the file.\<close>

definition wire_Language :: "Language \<Rightarrow> Language" where
  "wire_Language l = \<lparr>lang_ID = utf8_fix (lang_ID l), lang_Name = utf8_fix (lang_Name l),
     lang_Version = utf8_fix (lang_Version l), lang_Rootfs = utf8_fix (lang_Rootfs l),
     lang_SourceFile = utf8_fix (lang_SourceFile l), lang_CompileCmd = utf8_fix (lang_CompileCmd l),
     lang_RunCmd = utf8_fix (lang_RunCmd l)\<rparr>"

lemma dec_Language_enc: "dec_Language (jfix (enc_Language l)) = Some (wire_Language l)"
  by (simp add: dec_Language_def enc_Language_def dec_struct_def Language_fields_def
      find_field_def zero_Language_def wire_Language_def)

section \<open>Properties\<close>

definition decode_languages :: "string \<Rightarrow> Language slice option" where
  "decode_languages b = Option.bind (json_parse b) (dec_slice dec_Language)"

lemma Load_registry_decode:
  "Load_registry (Inr b) dir =
    (case decode_languages b of None \<Rightarrow> Inl ParseLanguages | Some ls \<Rightarrow> load_loop dir (elems ls) empty_registry)"
  by (simp add: Load_registry_def decode_languages_def)

lemma load_loop_Get:
  assumes "load_loop d ls empty_registry = Inr r" and "l \<in> set ls"
  shows "Get r (lang_ID l) = Some (resolve d l)"
proof -
  have ls: "loadable ls" using load_loop_rejects [OF assms(1)] by simp
  then obtain r' where "load_loop d ls empty_registry = Inr r'"
    "reg_byID r' = map_of (map (\<lambda>l. (lang_ID l, resolve d l)) ls)"
    using load_loop_loadable [of ls empty_registry d] by (auto simp: empty_registry_def)
  moreover have "map_of (map (\<lambda>l. (lang_ID l, resolve d l)) ls) (lang_ID l) = Some (resolve d l)"
    using ls assms(2) by (intro map_of_is_SomeI) (auto simp: loadable_def comp_def)
  ultimately show ?thesis using assms(1) by (simp add: Get_def)
qed

lemma load_loop_ok_iff: "(\<exists>r. load_loop d ls empty_registry = Inr r) \<longleftrightarrow> loadable ls"
  using load_loop_rejects [of d ls empty_registry] load_loop_loadable [of ls empty_registry d]
  by (auto simp: empty_registry_def)

lemma PublicAll_All: "PublicAll r = map Public (All r)"
  by (simp add: PublicAll_def All_def)

lemma languages_file:
  "decode_languages (jprint (enc_slice enc_Language (Some ls))) = Some (Some (map wire_Language ls))"
proof -
  have "jdepth (enc_slice enc_Language (Some ls)) \<le> Suc 1"
    by (rule jdepth_enc_slice) (simp add: enc_Language_def)
  then have "jdepth (enc_slice enc_Language (Some ls)) \<le> max_depth" by (simp add: max_depth_def)
  moreover have "json_ok (enc_slice enc_Language (Some ls))"
    by (rule json_ok_enc_slice) (simp add: enc_Language_def)
  ultimately show ?thesis
    by (simp add: decode_languages_def json_parse_jprint dec_Language_enc
        dec_slice_enc [where f = dec_Language and g = enc_Language and h = wire_Language])
qed

lemma Load_registry_ok: "Load_registry file dir = Inr r \<Longrightarrow> registry_ok r"
  using load_loop_registry_ok [OF registry_ok_empty]
  by (auto simp: Load_registry_def split: sum.splits option.splits)

text \<open>
  C37. A registry that \<^verbatim>\<open>Load\<close> returns is sound whatever the file holds: the file decoded,
  every entry has its required fields and the ids are distinct; looking up an entry's id gives
  the entry with its rootfs resolved against the directory, and the listings have the entries
  in the order of the file.
\<close>

theorem Load_registry_sound:
  assumes "Load_registry file dir = Inr r"
  shows "\<exists>b ls. file = Inr b \<and> decode_languages b = Some ls \<and> loadable (elems ls) \<and> registry_ok r \<and>
    All r = map (resolve dir) (elems ls) \<and> PublicAll r = map Public (elems ls) \<and>
    list_all (\<lambda>l. Get r (lang_ID l) = Some (resolve dir l)) (elems ls)"
proof -
  obtain b ls where b: "file = Inr b" "decode_languages b = Some ls"
    "load_loop dir (elems ls) empty_registry = Inr r"
    using assms by (auto simp: Load_registry_def decode_languages_def split: sum.splits option.splits)
  have "Public (resolve dir l) = Public l" for l by (simp add: Public_def resolve_def)
  then have "PublicAll r = map Public (elems ls)"
    using load_loop_All [OF b(3)] by (simp add: PublicAll_All)
  moreover have "loadable (elems ls)" using load_loop_rejects [OF b(3)] by simp
  ultimately show ?thesis
    using b load_loop_All [OF b(3)] load_loop_registry_ok [OF registry_ok_empty b(3)] load_loop_Get [OF b(3)]
    by (auto simp: list_all_iff)
qed

definition python_lang :: Language where
  "python_lang = \<lparr>lang_ID = ''py'', lang_Name = ''Python'', lang_Version = ''3'',
     lang_Rootfs = ''/r/py.ext4'', lang_SourceFile = ''main.py'', lang_CompileCmd = [],
     lang_RunCmd = ''python3 main.py''\<rparr>"

definition python_registry :: Registry where
  "python_registry = \<lparr>reg_byID = [''py'' \<mapsto> python_lang], reg_order = [''py'']\<rparr>"

definition python_file :: string where
  "python_file = jprint (enc_slice enc_Language (Some [python_lang]))"

lemma python_loads: "Load_registry (Inr python_file) dir = Inr python_registry"
proof -
  have "wire_Language python_lang = python_lang"
    by (simp add: wire_Language_def python_lang_def valid_utf8_fix valid_utf8_ascii)
  moreover have "load_loop dir [python_lang] empty_registry = Inr python_registry"
    by (simp add: incomplete_def resolve_def IsAbs_def empty_registry_def python_registry_def
        python_lang_def)
  ultimately show ?thesis
    by (simp add: Load_registry_decode python_file_def languages_file)
qed

lemma Load_registry_sound_witness:
  "registry_ok python_registry"
  using Load_registry_sound [OF python_loads] by blast

text \<open>
  \<^verbatim>\<open>Load\<close> accepts exactly the loadable files: reading back a file that lists the given
  languages succeeds if and only if every entry has an id, a rootfs, a run command and a
  source file, and no id occurs twice.
\<close>

theorem Load_registry_accepts:
  "(\<exists>r. Load_registry (Inr (jprint (enc_slice enc_Language (Some ls)))) dir = Inr r)
    \<longleftrightarrow> loadable (map wire_Language ls)"
  by (simp add: Load_registry_decode languages_file load_loop_ok_iff)

end
