(* ===== verification/Config.thy ===== *)
theory Config
  imports Prelude
begin

text \<open>
  \<^verbatim>\<open>config/config.go\<close>: the configuration read from the environment, with its defaults,
  checks and floors. The environment is a map from variable names to values.
\<close>

section \<open>Time\<close>

definition Millisecond :: gint where "Millisecond = 1000000"
definition Second :: gint where "Second = 1000000000"

section \<open>The record\<close>

definition PoolPrewarmedPerLang :: string where "PoolPrewarmedPerLang = ''prewarmed_per_lang''"
definition PoolOnDemandSpare :: string where "PoolOnDemandSpare = ''ondemand_spare''"
definition PoolPrewarmedGeneric :: string where "PoolPrewarmedGeneric = ''prewarmed_generic''"

record Config =
  cfg_HTTPAddr :: string
  cfg_RedisURL :: string
  cfg_LanguagesFile :: string
  cfg_KernelPath :: string
  cfg_RootfsDir :: string
  cfg_AgentBinary :: string
  cfg_GenericRootfs :: string
  cfg_PoolStrategy :: string
  cfg_PoolSize :: gint
  cfg_BootConcurrency :: gint
  cfg_WorkerConcurrency :: gint
  cfg_ResultTTL :: gint
  cfg_VMVcpus :: gint
  cfg_VMMemMB :: gint
  cfg_DefaultTimeLimit :: gint
  cfg_DefaultMemoryLimit :: gint
  cfg_OutputLimitBytes :: gint
  cfg_MaxRequestBytes :: gint
  cfg_FirecrackerBin :: string

section \<open>Reading the environment\<close>

definition env :: "(string \<rightharpoonup> string) \<Rightarrow> string \<Rightarrow> string \<Rightarrow> string" where
  "env e key def =
     (case e key of Some v \<Rightarrow> if v \<noteq> [] then v else def | None \<Rightarrow> def)"

definition envInt :: "(string \<rightharpoonup> string) \<Rightarrow> string \<Rightarrow> gint \<Rightarrow> gint" where
  "envInt e key def =
     (case e key of
        Some v \<Rightarrow>
          if v \<noteq> [] then (case atoi v of Some n \<Rightarrow> n | None \<Rightarrow> def) else def
      | None \<Rightarrow> def)"

definition read_config :: "(string \<rightharpoonup> string) \<Rightarrow> Config" where
  "read_config e =
     \<lparr>cfg_HTTPAddr = env e ''DREDD_HTTP_ADDR'' '':8080'',
      cfg_RedisURL = env e ''DREDD_REDIS_URL'' ''redis://localhost:6379/0'',
      cfg_LanguagesFile = env e ''DREDD_LANGUAGES_FILE'' [],
      cfg_KernelPath = env e ''DREDD_KERNEL_PATH'' [],
      cfg_RootfsDir = env e ''DREDD_ROOTFS_DIR'' ''/var/lib/dredd/rootfs'',
      cfg_AgentBinary = env e ''DREDD_AGENT_BINARY'' [],
      cfg_GenericRootfs = env e ''DREDD_GENERIC_ROOTFS'' [],
      cfg_PoolStrategy = env e ''DREDD_POOL_STRATEGY'' PoolPrewarmedPerLang,
      cfg_PoolSize = envInt e ''DREDD_POOL_SIZE'' 1,
      cfg_BootConcurrency = envInt e ''DREDD_BOOT_CONCURRENCY'' 8,
      cfg_WorkerConcurrency = envInt e ''DREDD_WORKER_CONCURRENCY'' 4,
      cfg_ResultTTL = envInt e ''DREDD_RESULT_TTL_SECONDS'' 300 * Second,
      cfg_VMVcpus = envInt e ''DREDD_VM_VCPUS'' 1,
      cfg_VMMemMB = envInt e ''DREDD_VM_MEM_MB'' 256,
      cfg_DefaultTimeLimit = envInt e ''DREDD_DEFAULT_TIME_LIMIT_MS'' 2000 * Millisecond,
      cfg_DefaultMemoryLimit = envInt e ''DREDD_DEFAULT_MEMORY_LIMIT_MB'' 256,
      cfg_OutputLimitBytes = envInt e ''DREDD_OUTPUT_LIMIT_BYTES'' 1048576,
      cfg_MaxRequestBytes = envInt e ''DREDD_MAX_REQUEST_BYTES'' 4194304,
      cfg_FirecrackerBin = env e ''DREDD_FIRECRACKER_BIN'' ''firecracker''\<rparr>"

datatype config_error =
    LanguagesFileRequired
  | KernelPathRequired
  | PoolStrategyInvalid string
  | GenericRootfsRequired

definition known_strategy :: "string \<Rightarrow> bool" where
  "known_strategy s \<longleftrightarrow>
     s = PoolPrewarmedPerLang \<or> s = PoolOnDemandSpare \<or> s = PoolPrewarmedGeneric"

definition at_least_one :: "gint \<Rightarrow> gint" where
  "at_least_one n = (if sint n < 1 then 1 else n)"

definition floor_config :: "Config \<Rightarrow> Config" where
  "floor_config c = c\<lparr>cfg_PoolSize := at_least_one (cfg_PoolSize c),
     cfg_BootConcurrency := at_least_one (cfg_BootConcurrency c),
     cfg_WorkerConcurrency := at_least_one (cfg_WorkerConcurrency c)\<rparr>"

definition FromEnv :: "(string \<rightharpoonup> string) \<Rightarrow> config_error + Config" where
  "FromEnv e =
     (let c = read_config e in
      if cfg_LanguagesFile c = [] then Inl LanguagesFileRequired
      else if cfg_KernelPath c = [] then Inl KernelPathRequired
      else if \<not> known_strategy (cfg_PoolStrategy c)
      then Inl (PoolStrategyInvalid (cfg_PoolStrategy c))
      else if cfg_PoolStrategy c = PoolPrewarmedGeneric \<and> cfg_GenericRootfs c = []
      then Inl GenericRootfsRequired
      else Inr (floor_config c))"

section \<open>What a configuration that was read satisfies\<close>

definition config_ok :: "Config \<Rightarrow> bool" where
  "config_ok c \<longleftrightarrow>
     cfg_LanguagesFile c \<noteq> [] \<and> cfg_KernelPath c \<noteq> [] \<and> cfg_FirecrackerBin c \<noteq> [] \<and>
     cfg_HTTPAddr c \<noteq> [] \<and> cfg_RootfsDir c \<noteq> [] \<and>
     known_strategy (cfg_PoolStrategy c) \<and>
     (cfg_PoolStrategy c = PoolPrewarmedGeneric \<longrightarrow> cfg_GenericRootfs c \<noteq> []) \<and>
     1 \<le> sint (cfg_PoolSize c) \<and> 1 \<le> sint (cfg_BootConcurrency c) \<and>
     1 \<le> sint (cfg_WorkerConcurrency c)"

lemma at_least_one_pos [simp]: "1 \<le> sint (at_least_one n)"
  by (simp add: at_least_one_def)

lemma env_nonempty: "d \<noteq> [] \<Longrightarrow> env e k d \<noteq> []"
  by (simp add: env_def split: option.split)

lemma env_unset: "e k = None \<or> e k = Some [] \<Longrightarrow> env e k d = d \<and> envInt e k n = n"
  by (auto simp: env_def envInt_def)

lemma env_set: "e k = Some v \<Longrightarrow> v \<noteq> [] \<Longrightarrow> env e k d = v"
  by (simp add: env_def)

lemma envInt_set: "e k = Some (itoa n) \<Longrightarrow> envInt e k d = n"
  by (simp add: envInt_def)

lemma FromEnv_ok: "FromEnv e = Inr c \<Longrightarrow> config_ok c"
  by (auto simp: FromEnv_def config_ok_def floor_config_def read_config_def Let_def env_nonempty split: if_splits)

text \<open>
  Whatever the environment holds, a configuration that \<^verbatim>\<open>FromEnv\<close> accepts is usable: the
  two required paths are set, the strategy is one of the three (with its rootfs, for the
  generic one), and pool size, boot concurrency and worker concurrency are at least 1.
\<close>

theorem FromEnv_config_ok:
  "case FromEnv e of Inr c \<Rightarrow> config_ok c | Inl _ \<Rightarrow> \<not> config_ok (floor_config (read_config e))"
  by (auto simp: FromEnv_def config_ok_def floor_config_def read_config_def Let_def env_nonempty)

end
