(* ===== verification/Go_Quote.thy ===== *)
theory Go_Quote
  imports Go_Utf8
begin

text \<open>
  \<^verbatim>\<open>strconv.Quote\<close>, which \<^verbatim>\<open>fmt\<close> uses for \<^verbatim>\<open>%q\<close>. Which code points above ASCII are
  printable is a table of the Unicode version of the toolchain: it is a parameter.
\<close>

definition hexdig :: "nat \<Rightarrow> char" where
  "hexdig d = (if d < 10 then char_of (48 + d) else char_of (87 + d))"

definition hexes :: "nat \<Rightarrow> nat \<Rightarrow> string" where
  "hexes k n = map (\<lambda>i. hexdig (n div 16 ^ i mod 16)) (rev [0..<k])"

text \<open>The code point of a well-formed sequence.\<close>

definition rune_value :: "string \<Rightarrow> nat" where
  "rune_value r =
     (case r of
        [] \<Rightarrow> 0
      | c # s \<Rightarrow>
          foldl (\<lambda>a x. a * 64 + byte x mod 64)
            (if s = [] then byte c
             else if length s = 1 then byte c mod 32
             else if length s = 2 then byte c mod 16
             else byte c mod 8) s)"

definition quote_rune :: "(nat \<Rightarrow> bool) \<Rightarrow> string \<Rightarrow> string" where
  "quote_rune is_print r =
     (let n = rune_value r in
      if n = 34 then [CHR 0x5C, CHR 0x22]
      else if n = 92 then [CHR 0x5C, CHR 0x5C]
      else if (if n < 128 then 32 \<le> n \<and> n < 127 else is_print n) then r
      else if n = 7 then [CHR 0x5C, CHR ''a'']
      else if n = 8 then [CHR 0x5C, CHR ''b'']
      else if n = 12 then [CHR 0x5C, CHR ''f'']
      else if n = 10 then [CHR 0x5C, CHR ''n'']
      else if n = 13 then [CHR 0x5C, CHR ''r'']
      else if n = 9 then [CHR 0x5C, CHR ''t'']
      else if n = 11 then [CHR 0x5C, CHR ''v'']
      else if n < 32 \<or> n = 127 then [CHR 0x5C, CHR ''x''] @ hexes 2 n
      else if n < 65536 then [CHR 0x5C, CHR ''u''] @ hexes 4 n
      else [CHR 0x5C, CHR ''U''] @ hexes 8 n)"

text \<open>A byte that starts no rune is written in hexadecimal.\<close>

fun quote_runes :: "(nat \<Rightarrow> bool) \<Rightarrow> string \<Rightarrow> string option list \<Rightarrow> string" where
  "quote_runes is_print s [] = []"
| "quote_runes is_print s (None # rs) =
     (case s of [] \<Rightarrow> [] | c # s' \<Rightarrow> [CHR 0x5C, CHR ''x''] @ hexes 2 (byte c) @ quote_runes is_print s' rs)"
| "quote_runes is_print s (Some r # rs) =
     quote_rune is_print r @ quote_runes is_print (drop (length r) s) rs"

definition quote :: "(nat \<Rightarrow> bool) \<Rightarrow> string \<Rightarrow> string" where
  "quote is_print s = [CHR 0x22] @ quote_runes is_print s (runes s) @ [CHR 0x22]"

text \<open>Printable ASCII without quotes and backslashes is only put between quotes.\<close>

definition plain_char :: "char \<Rightarrow> bool" where
  "plain_char c \<longleftrightarrow> 32 \<le> byte c \<and> byte c < 127 \<and> byte c \<noteq> 34 \<and> byte c \<noteq> 92"

lemma quote_runes_plain: "list_all plain_char s \<Longrightarrow> quote_runes p s (runes s) = s"
  by (induction s) (auto simp: plain_char_def runes_ascii quote_rune_def rune_value_def Let_def)

lemma quote_plain: "list_all plain_char s \<Longrightarrow> quote p s = [CHR 0x22] @ s @ [CHR 0x22]"
  by (simp add: quote_def quote_runes_plain)

end
