(* ===== verification/Worker.thy ===== *)
theory Worker
  imports Queue Langs Config Go_Quote
begin

text \<open>
  \<^verbatim>\<open>worker/worker.go\<close>: one job from the queue to its final status. The executor is a
  parameter over its own state; its calls give an error or a response. \<open>process\<close> is the
  handler as written; \<open>wstep\<close> is the same handler and the loop around it cut at each call
  that other goroutines can see, and \<open>process_wsteps\<close> says that they agree. What the retry
  needs of an executor is nothing; the contract the worker offers in turn is about how often
  it calls it and about the job it leaves behind.
\<close>

type_synonym 'e executor = "string \<Rightarrow> ExecRequest \<Rightarrow> 'e \<Rightarrow> (string + ExecResponse) \<times> 'e"

record ('r, 'e) Worker =
  w_cfg :: Config
  w_rdb :: "'r redis_client"
  w_resultTTL :: gint
  w_reg :: Registry
  w_exe :: "'e executor"
  w_is_print :: "nat \<Rightarrow> bool"

section \<open>The handler\<close>

definition pickPositive :: "gint \<Rightarrow> gint \<Rightarrow> gint" where
  "pickPositive v fallback = (if 0 < sint v then v else fallback)"

definition job_request :: "Config \<Rightarrow> Language \<Rightarrow> Job \<Rightarrow> ExecRequest" where
  "job_request cfg lang job =
     \<lparr>req_SourceFile = lang_SourceFile lang,
      req_Source = job_Source job,
      req_CompileCmd = lang_CompileCmd lang,
      req_RunCmd = lang_RunCmd lang,
      req_Stdins = job_Stdins job,
      req_TimeLimitMs = pickPositive (job_TimeLimitMs job) (gdiv (cfg_DefaultTimeLimit cfg) Millisecond),
      req_MemoryLimitMb = pickPositive (job_MemoryLimitMb job) (cfg_DefaultMemoryLimit cfg),
      req_OutputLimitBytes = cfg_OutputLimitBytes cfg\<rparr>"

definition maxAttempts :: nat where
  "maxAttempts = 2"

text \<open>The attempts that are left, and the error of the last one.\<close>

fun attempts :: "'e executor \<Rightarrow> string \<Rightarrow> ExecRequest \<Rightarrow> nat \<Rightarrow> string \<Rightarrow> 'e
      \<Rightarrow> (string + ExecResponse) \<times> 'e" where
  "attempts exe lid req 0 lastErr e = (Inl lastErr, e)"
| "attempts exe lid req (Suc n) lastErr e =
     (case exe lid req e of
        (Inr resp, e') \<Rightarrow> (Inr resp, e')
      | (Inl err, e') \<Rightarrow> attempts exe lid req n err e')"

text \<open>What is passed to \<^verbatim>\<open>Finish\<close>: status, compile error, error, results.\<close>

record verdict =
  v_status :: string
  v_compile :: string
  v_error :: string
  v_results :: "CaseResult slice"

definition failed :: "string \<Rightarrow> verdict" where
  "failed msg = \<lparr>v_status = StatusFailed, v_compile = [], v_error = msg, v_results = None\<rparr>"

definition verdict_of :: "string + ExecResponse \<Rightarrow> verdict" where
  "verdict_of out =
     (case out of
        Inr resp \<Rightarrow>
          if resp_AgentError resp \<noteq> [] then failed (''agent: '' @ resp_AgentError resp)
          else \<lparr>v_status = StatusDone, v_compile = resp_CompileError resp, v_error = [],
                v_results = resp_Results resp\<rparr>
      | Inl lastErr \<Rightarrow> failed lastErr)"

definition unknown_language :: "(nat \<Rightarrow> bool) \<Rightarrow> string \<Rightarrow> verdict" where
  "unknown_language is_print l = failed (''unknown language '' @ quote is_print l)"

definition finish :: "('r, 'e) Worker \<Rightarrow> string \<Rightarrow> verdict \<Rightarrow> 'r \<Rightarrow> string option \<times> 'r" where
  "finish w k v r =
     Finish (w_rdb w) (w_resultTTL w) k (v_status v) (v_compile v) (v_error v) (v_results v) r"

definition process :: "('r, 'e) Worker \<Rightarrow> string \<Rightarrow> 'r \<times> 'e \<Rightarrow> 'r \<times> 'e" where
  "process w k s =
     (case Load (w_rdb w) k (fst s) of
        (Inl _, r1) \<Rightarrow> (r1, snd s)
      | (Inr job, r1) \<Rightarrow>
          (case SetRunning (w_rdb w) k r1 of
             (Some _, r2) \<Rightarrow> (r2, snd s)
           | (None, r2) \<Rightarrow>
               (case Get (w_reg w) (job_Language job) of
                  None \<Rightarrow> (snd (finish w k (unknown_language (w_is_print w) (job_Language job)) r2), snd s)
                | Some lang \<Rightarrow>
                    (let req = job_request (w_cfg w) lang job;
                         (out, e') = attempts (w_exe w) (lang_ID lang) req maxAttempts [] (snd s)
                     in (snd (finish w k (verdict_of out) r2), e')))))"

section \<open>The loop, one visible call at a time\<close>

text \<open>
  Where a worker goroutine is between two calls. \<open>Attempt\<close> carries the attempts left and
  the last error.
\<close>

datatype pc =
    Idle
  | Got string
  | Loaded string Job
  | Running string Job
  | Attempt string string ExecRequest nat string
  | Finishing string verdict
  | Stopped

fun wstep :: "('r, 'e) Worker \<Rightarrow> bool \<Rightarrow> pc \<Rightarrow> 'r \<times> 'e \<Rightarrow> pc \<times> 'r \<times> 'e" where
  "wstep w done Idle (r, e) =
     (if done then (Stopped, r, e)
      else case Dequeue (w_rdb w) r of
             (Inl _, r') \<Rightarrow> (Idle, r', e)
           | (Inr k, r') \<Rightarrow> (if k = [] then Idle else Got k, r', e))"
| "wstep w done (Got k) (r, e) =
     (case Load (w_rdb w) k r of
        (Inl _, r') \<Rightarrow> (Idle, r', e)
      | (Inr job, r') \<Rightarrow> (Loaded k job, r', e))"
| "wstep w done (Loaded k job) (r, e) =
     (case SetRunning (w_rdb w) k r of
        (Some _, r') \<Rightarrow> (Idle, r', e)
      | (None, r') \<Rightarrow> (Running k job, r', e))"
| "wstep w done (Running k job) (r, e) =
     (case Get (w_reg w) (job_Language job) of
        None \<Rightarrow> (Finishing k (unknown_language (w_is_print w) (job_Language job)), r, e)
      | Some lang \<Rightarrow> (Attempt k (lang_ID lang) (job_request (w_cfg w) lang job) maxAttempts [], r, e))"
| "wstep w done (Attempt k lid req 0 lastErr) (r, e) = (Finishing k (verdict_of (Inl lastErr)), r, e)"
| "wstep w done (Attempt k lid req (Suc n) lastErr) (r, e) =
     (case w_exe w lid req e of
        (Inr resp, e') \<Rightarrow> (Finishing k (verdict_of (Inr resp)), r, e')
      | (Inl err, e') \<Rightarrow> (Attempt k lid req n err, r, e'))"
| "wstep w done (Finishing k v) (r, e) = (Idle, snd (finish w k v r), e)"
| "wstep w done Stopped s = (Stopped, s)"

text \<open>The steps of one worker that runs undisturbed until it is idle again.\<close>

fun wrun :: "('r, 'e) Worker \<Rightarrow> nat \<Rightarrow> pc \<times> 'r \<times> 'e \<Rightarrow> pc \<times> 'r \<times> 'e" where
  "wrun w 0 c = c"
| "wrun w (Suc n) (p, s) = (if p = Idle then (p, s) else wrun w n (wstep w False p s))"

text \<open>
  \<^verbatim>\<open>loop\<close>: \<open>cancelled i\<close> is what the \<open>i\<close>-th look at the context finds. The fuel bounds the
  iterations; \<open>None\<close> is a loop that has not returned yet.
\<close>

fun loop :: "nat \<Rightarrow> ('r, 'e) Worker \<Rightarrow> (nat \<Rightarrow> bool) \<Rightarrow> nat \<Rightarrow> 'r \<times> 'e \<Rightarrow> ('r \<times> 'e) option" where
  "loop 0 w cancelled i s = None"
| "loop (Suc n) w cancelled i s =
     (if cancelled i then Some s
      else case Dequeue (w_rdb w) (fst s) of
             (Inl _, r') \<Rightarrow> loop n w cancelled (Suc i) (r', snd s)
           | (Inr k, r') \<Rightarrow>
               if k = [] then loop n w cancelled (Suc i) (r', snd s)
               else loop n w cancelled (Suc i) (process w k (r', snd s)))"

section \<open>Attempts\<close>

lemma attempts_two:
  "attempts exe lid req maxAttempts err0 e =
     (case exe lid req e of
        (Inr resp, e1) \<Rightarrow> (Inr resp, e1)
      | (Inl err, e1) \<Rightarrow> exe lid req e1)"
  by (auto simp: maxAttempts_def numeral_2_eq_2 split: prod.split sum.split)

text \<open>An executor that keeps a log of the requests it was given.\<close>

definition logged :: "'e executor \<Rightarrow> ((string \<times> ExecRequest) list \<times> 'e) executor" where
  "logged exe lid req s = (let (out, e') = exe lid req (snd s) in (out, fst s @ [(lid, req)], e'))"

lemma attempts_logged:
  "attempts (logged exe) lid req maxAttempts err0 (log, e) =
    (let (out1, e1) = exe lid req e in
     if isl out1 then (let (out2, e2) = exe lid req e1 in (out2, log @ [(lid, req), (lid, req)], e2))
     else (out1, log @ [(lid, req)], e1))"
  by (simp add: attempts_two logged_def Let_def split: prod.split sum.split)

section \<open>The handler and its steps\<close>

lemma wrun_Idle [simp]: "wrun w n (Idle, s) = (Idle, s)"
  by (cases n) simp_all

lemma wrun_step: "p \<noteq> Idle \<Longrightarrow> wrun w (Suc n) (p, s) = wrun w n (wstep w False p s)"
  by simp

lemma wrun_finishing: "wrun w (Suc n) (Finishing k v, r, e) = (Idle, snd (finish w k v r), e)"
  by simp

lemma wrun_attempts:
  "wrun w (Suc (Suc n)) (Attempt k lid req n err0, r, e) =
    (case attempts (w_exe w) lid req n err0 e of
       (out, e') \<Rightarrow> (Idle, snd (finish w k (verdict_of out) r), e'))"
proof (induction n arbitrary: err0 e)
  case 0
  then show ?case by simp
next
  case (Suc n)
  obtain out e1 where x: "w_exe w lid req e = (out, e1)" by fastforce
  show ?case
    by (cases out) (simp_all only: wrun_step wstep.simps attempts.simps x Suc.IH prod.case sum.case
        wrun_finishing pc.distinct not_False_eq_True)
qed

text \<open>Seven steps are enough: load, mark, look up, two attempts, give up, finish.\<close>

lemma process_wsteps: "wrun w 7 (Got k, s) = (Idle, process w k s)"
proof -
  obtain r e where s: "s = (r, e)" by (cases s)
  have 7: "7 = Suc (Suc (Suc (Suc (Suc maxAttempts))))" by (simp add: maxAttempts_def)
  obtain x1 r1 where L: "Load (w_rdb w) k r = (x1, r1)" by fastforce
  note steps = wrun_step wstep.simps L prod.case sum.case option.case pc.distinct
    not_False_eq_True wrun_Idle wrun_finishing wrun_attempts fst_conv snd_conv
  show ?thesis
  proof (cases x1)
    case (Inl err)
    then show ?thesis unfolding 7 s process_def by (simp only: steps)
  next
    case (Inr job)
    obtain x2 r2 where R: "SetRunning (w_rdb w) k r1 = (x2, r2)" by fastforce
    show ?thesis
    proof (cases x2)
      case (Some err)
      then show ?thesis using Inr R unfolding 7 s process_def by (simp only: steps)
    next
      case None
      with Inr R show ?thesis
        unfolding 7 s process_def
        by (cases "Get (w_reg w) (job_Language job)") (simp_all only: steps Let_def split_beta)
    qed
  qed
qed

section \<open>The job it leaves behind\<close>

definition verdict_job :: "verdict \<Rightarrow> Job \<Rightarrow> Job" where
  "verdict_job v j = finish_job (v_status v) (v_compile v) (v_error v) (v_results v) j"

definition started_job :: "Job \<Rightarrow> Job" where
  "started_job j = j\<lparr>job_Status := StatusRunning\<rparr>"

lemma verdict_job_simps [simp]:
  "job_Status (verdict_job v j) = v_status v" "job_ID (verdict_job v j) = job_ID j"
  "job_Language (verdict_job v j) = job_Language j" "job_Source (verdict_job v j) = job_Source j"
  "job_Status (started_job j) = StatusRunning" "job_ID (started_job j) = job_ID j"
  "job_Language (started_job j) = job_Language j"
  "verdict_job v (started_job j) = verdict_job v j"
  by (simp_all add: verdict_job_def started_job_def finish_job_def)

text \<open>Every verdict of the handler is terminal.\<close>

lemma verdict_terminal [simp]:
  "Terminal (v_status (verdict_of out))" "Terminal (v_status (unknown_language p l))"
  by (auto simp: verdict_of_def unknown_language_def failed_def split: sum.split)

text \<open>The verdict on a job, and what the executor's state is afterwards.\<close>

definition judge :: "('r, 'e) Worker \<Rightarrow> Job \<Rightarrow> 'e \<Rightarrow> verdict \<times> 'e" where
  "judge w job e =
     (case Get (w_reg w) (job_Language job) of
        None \<Rightarrow> (unknown_language (w_is_print w) (job_Language job), e)
      | Some lang \<Rightarrow>
          (case attempts (w_exe w) (lang_ID lang) (job_request (w_cfg w) lang job) maxAttempts [] e of
             (out, e') \<Rightarrow> (verdict_of out, e')))"

lemma judge_terminal [simp]: "Terminal (v_status (fst (judge w job e)))"
  by (auto simp: judge_def split: option.split prod.split)

lemma process_judge:
  "process w k (r, e) =
     (case Load (w_rdb w) k r of
        (Inl _, r1) \<Rightarrow> (r1, e)
      | (Inr job, r1) \<Rightarrow>
          (case SetRunning (w_rdb w) k r1 of
             (Some _, r2) \<Rightarrow> (r2, e)
           | (None, r2) \<Rightarrow> (snd (finish w k (fst (judge w job e)) r2), snd (judge w job e))))"
  by (auto simp: process_def judge_def Let_def split: prod.split sum.split option.split)

context redis_laws
begin

lemma SetRunning_started:
  "job_at (view r) k = Some j \<Longrightarrow> SetRunning rc k r = (e, r') \<Longrightarrow>
    job_at (view r') = (job_at (view r))(k \<mapsto> started_job j) \<or> e \<noteq> None \<and> job_at (view r') = job_at (view r)"
  unfolding started_job_def by (rule SetRunning_jobs)

lemma finish_verdict:
  "w_rdb w = rc \<Longrightarrow> job_at (view r) k = Some j \<Longrightarrow> finish w k v r = (e, r') \<Longrightarrow>
    job_at (view r') = (job_at (view r))(k \<mapsto> verdict_job v j) \<or> e \<noteq> None \<and> job_at (view r') = job_at (view r)"
  unfolding finish_def verdict_job_def by (rule Finish_jobs) simp_all

text \<open>Whatever fails on the way, the handler leaves the job untouched, running or judged.\<close>

lemma process_jobs:
  assumes w: "w_rdb w = rc" and j: "job_at (view r) k = Some j" and p: "process w k (r, e) = (r', e')"
  obtains (kept) "job_at (view r') = job_at (view r)"
    | (started) "job_at (view r') = (job_at (view r))(k \<mapsto> started_job j)"
    | (judged) "job_at (view r') = (job_at (view r))(k \<mapsto> verdict_job (fst (judge w j e)) j)"
proof -
  obtain x r1 where L: "Load rc k r = (x, r1)" by fastforce
  note v1 = Load_view [OF L]
  show thesis
  proof (cases x)
    case (Inl err)
    with p L w v1 show thesis by (intro kept) (simp add: process_judge)
  next
    case (Inr job)
    with v1 j have job: "job = j" by simp
    obtain y r2 where R: "SetRunning rc k r1 = (y, r2)" by fastforce
    have v2: "job_at (view r2) = (job_at (view r))(k \<mapsto> started_job j) \<or>
        y \<noteq> None \<and> job_at (view r2) = job_at (view r)"
      using SetRunning_started [OF _ R] v1(1) j by simp
    show thesis
    proof (cases y)
      case (Some err)
      with p L R Inr w have "r' = r2" by (simp add: process_judge)
      with v2 show thesis using kept started by blast
    next
      case None
      with v2 have v2: "job_at (view r2) = (job_at (view r))(k \<mapsto> started_job j)" by simp
      obtain z where F: "finish w k (fst (judge w j e)) r2 = (z, r')"
        using None p L R Inr w job by (simp add: process_judge prod_eq_iff)
      from v2 have "job_at (view r2) k = Some (started_job j)" by simp
      from finish_verdict [OF w this F] v2 show thesis using started judged by auto
    qed
  qed
qed

lemma process_waiting:
  assumes "w_rdb w = rc" and "process w k (r, e) = (r', e')"
  shows "pending (view r') = pending (view r)"
proof -
  have f: "pending (view (snd (finish w k v r))) = pending (view r)" for v r
    using waiting_kept(3) [of "w_resultTTL w" k _ _ _ _ r] assms(1)
    by (metis finish_def prod.collapse)
  show ?thesis
    using assms waiting_kept(1,2) f
    by (auto simp: process_judge split: prod.splits sum.splits option.splits)
qed

end

text \<open>A Redis none of whose commands fails.\<close>

definition reliable :: "'r redis_client \<Rightarrow> bool" where
  "reliable rc \<longleftrightarrow>
     (\<forall>cs r. fst (rc_tx rc cs r) = None) \<and> (\<forall>c r. fst (rc_cmd rc c r) = None) \<and>
     (\<forall>k r. \<not> isl (fst (rc_hgetall rc k r)))"

lemma reliable_mem [simp]: "reliable mem_redis"
  by (simp add: reliable_def mem_redis_def)

lemma reliable_ops:
  assumes "reliable rc"
  shows "fst (SetRunning rc k r) = None" "fst (Finish rc ttl k s ce es rs r) = None"
    "fst (Enqueue rc j r) = None"
  using assms by (simp_all add: reliable_def SetRunning_def Finish_cmds Enqueue_cmds)

lemma reliable_Load:
  assumes "redis_laws rc view" and "reliable rc" and "job_at (view r) k = Some j"
  shows "\<exists>r'. Load rc k r = (Inr j, r')"
proof -
  obtain h r' where h: "rc_hgetall rc (jobKey k) r = (Inr h, r')"
    using assms(2) by (metis isl_def reliable_def obj_sumE prod.collapse)
  then have "h = rv_hash (view r) (jobKey k)"
    using redis_laws.hgetall_value [OF assms(1)] by blast
  with h assms(3) show ?thesis
    by (simp add: Load_def job_at_def split: sum.splits)
qed

section \<open>Properties\<close>


text \<open>A worker for the witnesses: one language, and an executor whose first \<open>n\<close> calls fail.\<close>

fun flaky :: "nat executor" where
  "flaky lid req (Suc n) = (Inl ''vm died'', n)"
| "flaky lid req 0 = (Inr (zero_ExecResponse\<lparr>resp_Results := Some []\<rparr>), 0)"

definition sample_config :: Config where
  "sample_config = floor_config (read_config Map.empty)"

definition sample_worker :: "'e executor \<Rightarrow> (redis_view, 'e) Worker" where
  "sample_worker exe = \<lparr>w_cfg = sample_config, w_rdb = mem_redis, w_resultTTL = cfg_ResultTTL sample_config,
     w_reg = python_registry, w_exe = exe, w_is_print = (\<lambda>_. True)\<rparr>"

lemma sample_worker_simps [simp]:
  "w_rdb (sample_worker exe) = mem_redis" "w_exe (sample_worker exe) = exe"
  "(sample_worker exe)\<lparr>w_exe := exe\<rparr> = sample_worker exe"
  "Get (w_reg (sample_worker exe)) (job_Language (queued_job sample_job)) = Some python_lang"
  by (simp_all add: sample_worker_def python_registry_def Get_def sample_job_def queued_job_def)

lemma judge_sample: "fst (judge (sample_worker flaky) (queued_job sample_job) 2) = failed ''vm died''"
  by (simp add: judge_def maxAttempts_def numeral_2_eq_2 verdict_of_def)


text \<open>
  C12. Exactly one retry: with an executor that logs its calls, one run of the handler makes
  no call, one, or two identical ones, all for the language of the registry and the request
  built from the job; there is a second call exactly when the first one reported an error,
  and then its outcome counts.
\<close>

theorem process_retries_once:
  assumes "process (w\<lparr>w_exe := logged exe\<rparr>) k (r, log, e) = (r', log', e')"
  shows "(log' = log \<and> e' = e) \<or>
    (\<exists>job lang out1 e1. fst (Load (w_rdb w) k r) = Inr job \<and> Get (w_reg w) (job_Language job) = Some lang \<and>
      exe (lang_ID lang) (job_request (w_cfg w) lang job) e = (out1, e1) \<and>
      (if isl out1
       then log' = log @ replicate 2 (lang_ID lang, job_request (w_cfg w) lang job) \<and>
            e' = snd (exe (lang_ID lang) (job_request (w_cfg w) lang job) e1)
       else log' = log @ [(lang_ID lang, job_request (w_cfg w) lang job)] \<and> e' = e1))"
proof -
  obtain x r1 where L: "Load (w_rdb w) k r = (x, r1)" by fastforce
  show ?thesis
  proof (cases x)
    case (Inl err)
    then show ?thesis using assms L by (simp add: process_judge)
  next
    case (Inr job)
    obtain y r2 where R: "SetRunning (w_rdb w) k r1 = (y, r2)" by fastforce
    show ?thesis
    proof (cases "y = None \<and> Get (w_reg w) (job_Language job) \<noteq> None")
      case False
      then show ?thesis using assms L R Inr
        by (auto simp: process_judge judge_def split: option.splits)
    next
      case True
      then obtain lang where lang: "y = None" "Get (w_reg w) (job_Language job) = Some lang" by auto
      obtain out1 e1 where 1: "exe (lang_ID lang) (job_request (w_cfg w) lang job) e = (out1, e1)"
        by fastforce
      obtain out2 e2 where 2: "exe (lang_ID lang) (job_request (w_cfg w) lang job) e1 = (out2, e2)"
        by fastforce
      have "(log', e') = snd (judge (w\<lparr>w_exe := logged exe\<rparr>) job (log, e))"
        using assms L R Inr lang by (simp add: process_judge prod_eq_iff)
      then show ?thesis
        using L Inr lang 1 2
        by (auto simp: judge_def attempts_logged Let_def numeral_2_eq_2 split: if_splits)
    qed
  qed
qed

lemma process_retries_once_witness:
  "\<exists>r' req. process (sample_worker (logged flaky)) ''j1'' (sample_state, [], 1)
    = (r', [(''py'', req), (''py'', req)], 0)"
proof -
  obtain r' log' e' where p: "process (sample_worker (logged flaky)) ''j1'' (sample_state, [], 1)
    = (r', log', e')" by (metis prod.collapse)
  obtain r1 where L: "Load mem_redis ''j1'' sample_state = (Inr (queued_job sample_job), r1)"
    using reliable_Load [OF mem_laws reliable_mem sample_state_job] by blast
  have "reliable mem_redis" by simp
  then obtain r2 where "SetRunning mem_redis ''j1'' r1 = (None, r2)"
    using reliable_ops(1) by (metis prod.collapse)
  then have "log' \<noteq> []"
    using p L by (auto simp: process_judge judge_def attempts_logged Let_def split: prod.splits)
  with process_retries_once [where w = "sample_worker (logged flaky)" and exe = flaky,
      unfolded sample_worker_simps(3), OF p] L
  have "\<exists>req. log' = [(''py'', req), (''py'', req)] \<and> e' = 0"
    by (auto simp: numeral_2_eq_2 python_lang_def)
  with p show ?thesis by blast
qed

text \<open>
  The status of a job only moves forward: whatever Redis and the executor do, a queued
  job that is processed is afterwards queued, running, done or failed, reached by the steps
  queued to running to a terminal status; it keeps what was submitted; no other job changes;
  and the work list is not touched.
\<close>

theorem process_lifecycle:
  assumes "redis_laws (w_rdb w) view"
    and "job_at (view r) k = Some j" and "job_Status j = StatusQueued"
    and "process w k (r, e) = (r', e')"
  shows "\<exists>j'. job_at (view r') = (job_at (view r))(k \<mapsto> j') \<and>
    status_step\<^sup>*\<^sup>* (job_Status j) (job_Status j') \<and>
    (job_ID j', job_Language j', job_Source j', job_Stdins j', job_TimeLimitMs j', job_MemoryLimitMb j')
      = (job_ID j, job_Language j, job_Source j, job_Stdins j, job_TimeLimitMs j, job_MemoryLimitMb j) \<and>
    pending (view r') = pending (view r)"
proof -
  have run: "status_step\<^sup>*\<^sup>* (job_Status j) StatusRunning"
    using assms(3) status_step.start by auto
  have fin: "status_step\<^sup>*\<^sup>* (job_Status j) s" if "Terminal s" for s
    using rtranclp.rtrancl_into_rtrancl [OF run status_step.finish [OF that]] .
  have pend: "pending (view r') = pending (view r)"
    using redis_laws.process_waiting [OF assms(1) refl assms(4)] .
  consider (kept) "job_at (view r') = job_at (view r)"
    | (started) "job_at (view r') = (job_at (view r))(k \<mapsto> started_job j)"
    | (judged) "job_at (view r') = (job_at (view r))(k \<mapsto> verdict_job (fst (judge w j e)) j)"
    using redis_laws.process_jobs [OF assms(1) refl assms(2,4)] by blast
  then show ?thesis
  proof cases
    case kept
    then show ?thesis using pend assms(2) by (intro exI [of _ j]) auto
  next
    case started
    then show ?thesis
      using pend run by (intro exI [of _ "started_job j"]) (simp add: started_job_def)
  next
    case judged
    then show ?thesis
      using pend fin by (intro exI [of _ "verdict_job (fst (judge w j e)) j"])
        (simp add: verdict_job_def finish_job_def)
  qed
qed

lemma process_lifecycle_witness:
  "\<exists>j'. job_at (fst (process (sample_worker flaky) ''j1'' (sample_state, 0))) ''j1'' = Some j' \<and>
    status_step\<^sup>*\<^sup>* StatusQueued (job_Status j')"
proof -
  have "redis_laws (w_rdb (sample_worker flaky)) (\<lambda>v. v)" by (simp add: mem_laws)
  moreover have "job_Status (queued_job sample_job) = StatusQueued" by (simp add: queued_job_def)
  moreover have "process (sample_worker flaky) ''j1'' (sample_state, 0) =
    (fst (process (sample_worker flaky) ''j1'' (sample_state, 0)),
     snd (process (sample_worker flaky) ''j1'' (sample_state, 0)))" by simp
  ultimately show ?thesis
    using process_lifecycle [where view = "\<lambda>v. v" and r = sample_state and j = "queued_job sample_job"]
      sample_state_job by fastforce
qed


definition sick_redis :: "redis_view redis_client" where
  "sick_redis = mem_redis\<lparr>rc_hgetall := (\<lambda>k v. (Inl ''timeout'', v))\<rparr>"

interpretation sick: redis_laws sick_redis "\<lambda>v. v"
  by unfold_locales (auto simp: sick_redis_def mem_redis_def split: if_splits)

lemma drained_state_view: "rv_hash drained_state = rv_hash sample_state" "pending drained_state = []"
proof -
  have "rv_list sample_state queueKey = [''j1'']"
    using sample_steps(4) by (simp add: pending_def rev_eq_Cons_iff)
  then show "rv_hash drained_state = rv_hash sample_state" "pending drained_state = []"
    by (simp_all add: drained_state_def Dequeue_def mem_redis_def rpop_view_def pending_def)
qed

lemma drained_state_job: "job_at drained_state ''j1'' = Some (queued_job sample_job)"
  using sample_state_job by (simp add: job_at_def drained_state_view)


text \<open>
  A job is stuck when its outcome cannot be written: if the job was loaded and marked
  running, and the transaction of \<^verbatim>\<open>Finish\<close> then fails without effect (as it does on the
  context that shutdown has cancelled), the verdict is dropped: the job stays running for
  good, without an expiry and off the work list.
\<close>

theorem process_finish_lost:
  assumes "redis_laws (w_rdb w) view"
    and "job_at (view r) k = Some j" and "k \<notin> set (pending (view r))"
    and "Load (w_rdb w) k r = (Inr j, r1)" and "SetRunning (w_rdb w) k r1 = (None, r2)"
    and "\<And>cs q. view (snd (rc_tx (w_rdb w) cs q)) = view q"
    and "process w k (r, e) = (r', e')"
  shows "job_at (view r') k = Some (started_job j) \<and> e' = snd (judge w j e) \<and>
    k \<notin> set (pending (view r')) \<and> rv_ttl (view r') = rv_ttl (view r)"
proof -
  have v1: "view r1 = view r" using redis_laws.Load_view(1) [OF assms(1,4)] .
  have "job_at (view r2) k = Some (started_job j)"
    using redis_laws.SetRunning_started [OF assms(1) _ assms(5)] v1 assms(2) by auto
  moreover have "rv_ttl (view r2) = rv_ttl (view r)"
    using redis_laws.SetRunning_ttl [OF assms(1,5)] v1 by simp
  moreover have "view r' = view r2" and "e' = snd (judge w j e)"
    using assms(4-7) by (auto simp: process_judge finish_def Finish_cmds)
  moreover have "pending (view r') = pending (view r)"
    using redis_laws.process_waiting [OF assms(1) refl assms(7)] .
  ultimately show ?thesis using assms(3) by simp
qed

definition cancelled_redis :: "redis_view redis_client" where
  "cancelled_redis = mem_redis\<lparr>rc_tx := (\<lambda>cs v. (Some ''context canceled'', v))\<rparr>"

interpretation cancelled: redis_laws cancelled_redis "\<lambda>v. v"
  by unfold_locales (auto simp: cancelled_redis_def mem_redis_def split: if_splits)

lemma process_finish_lost_witness:
  "job_at (fst (process ((sample_worker flaky)\<lparr>w_rdb := cancelled_redis\<rparr>) ''j1'' (drained_state, 0))) ''j1''
    = Some (started_job (queued_job sample_job))"
proof -
  let ?w = "(sample_worker flaky)\<lparr>w_rdb := cancelled_redis\<rparr>"
  have same: "Load cancelled_redis = Load mem_redis" "SetRunning cancelled_redis = SetRunning mem_redis"
    by (rule ext, rule ext, simp add: Load_def SetRunning_def cancelled_redis_def mem_redis_def)+
  have "Load (w_rdb ?w) ''j1'' drained_state = (Inr (queued_job sample_job), drained_state)"
    using drained_state_job by (auto simp: same Load_mem job_at_def split: sum.splits)
  moreover have "SetRunning (w_rdb ?w) ''j1'' drained_state =
    (None, redis_exec (HSet (jobKey ''j1'') [(''status'', StatusRunning)]) drained_state)"
    by (simp add: same SetRunning_def mem_redis_def)
  moreover have "redis_laws (w_rdb ?w) (\<lambda>v. v)" using cancelled.redis_laws_axioms by simp
  moreover have "\<And>cs q. snd (rc_tx (w_rdb ?w) cs q) = q" by (simp add: cancelled_redis_def)
  moreover have "''j1'' \<notin> set (pending drained_state)" by (simp add: drained_state_view)
  moreover have "process ?w ''j1'' (drained_state, 0) =
    (fst (process ?w ''j1'' (drained_state, 0)), snd (process ?w ''j1'' (drained_state, 0)))" by simp
  ultimately show ?thesis
    using process_finish_lost [where w = ?w and view = "\<lambda>v. v" and r = drained_state]
      drained_state_job by blast
qed

text \<open>
  The loop ends when its context does: if the first look that finds the context cancelled
  is the \<open>n\<close>-th from now, the loop returns after \<open>n\<close> iterations, not before, and however often
  the queue, the handler and the executor fail in them.
\<close>

theorem loop_returns:
  assumes "cancelled (i + n)" and "\<forall>m < n. \<not> cancelled (i + m)"
  shows "(\<exists>s'. loop (Suc n) w cancelled i s = Some s') \<and> (\<forall>m \<le> n. loop m w cancelled i s = None)"
  using assms
proof (induction n arbitrary: i s)
  case 0
  then show ?case by simp
next
  case (Suc n)
  have c: "\<not> cancelled i" using Suc.prems(2) by (metis add_0_right zero_less_Suc)
  have "cancelled (Suc i + n)" using Suc.prems(1) by simp
  moreover have "\<forall>m < n. \<not> cancelled (Suc i + m)" using Suc.prems(2) by (metis Suc_less_eq add_Suc_shift)
  ultimately have IH: "(\<exists>s'. loop (Suc n) w cancelled (Suc i) s = Some s') \<and>
    (\<forall>m \<le> n. loop m w cancelled (Suc i) s = None)" for s
    using Suc.IH by blast
  have "loop m w cancelled i s = None" if "m \<le> Suc n" for m
    using that c IH by (cases m) (auto split: prod.split sum.split)
  moreover have "\<exists>s'. loop (Suc (Suc n)) w cancelled i s = Some s'"
    using c IH by (subst loop.simps(2)) (simp del: loop.simps split: prod.split sum.split)
  ultimately show ?case by blast
qed

lemma loop_returns_witness:
  "(\<exists>s'. loop 4 (sample_worker flaky) (\<lambda>i. 3 \<le> i) 0 (sample_state, 2) = Some s')"
proof -
  have "Suc 3 = 4" by simp
  then show ?thesis
    using loop_returns [of "\<lambda>i. 3 \<le> i" 0 3 "sample_worker flaky" "(sample_state, 2)"] by auto
qed

section \<open>Two readings of the loop\<close>


end
