(* ===== verification/Worker_System.thy ===== *)
theory Worker_System
  imports Worker "HOL-Library.Multiset"
begin

text \<open>
  \<^verbatim>\<open>Worker.Run\<close> starts \<^verbatim>\<open>WorkerConcurrency\<close> goroutines that share the queue, while the API
  submits jobs and Redis expires keys. \<open>sys_step\<close> interleaves them at the calls they make:
  every step is one submission, one call of one worker, or one expiry. The invariant says
  which job each worker is at and in which status; from it follow that a job is with one
  worker at most, and that the status of a job only moves forward, in any interleaving and
  whatever the calls return.
\<close>

record ('r, 'e) system =
  sy_r :: 'r
  sy_e :: 'e
  sy_pcs :: "pc list"
  sy_seen :: "string list"

fun held :: "pc \<Rightarrow> string list" where
  "held Idle = []"
| "held (Got k) = [k]"
| "held (Loaded k _) = [k]"
| "held (Running k _) = [k]"
| "held (Attempt k _ _ _ _) = [k]"
| "held (Finishing k _) = [k]"
| "held Stopped = []"

text \<open>The state in which \<^verbatim>\<open>Run\<close> starts its goroutines; \<open>seen\<close> are the ids used before.\<close>

definition sys_init :: "Config \<Rightarrow> 'r \<Rightarrow> 'e \<Rightarrow> string list \<Rightarrow> ('r, 'e) system" where
  "sys_init cfg r e seen =
     \<lparr>sy_r = r, sy_e = e, sy_pcs = replicate (nat (sint (cfg_WorkerConcurrency cfg))) Idle, sy_seen = seen\<rparr>"

inductive sys_step ::
    "('r, 'e) Worker \<Rightarrow> ('r \<Rightarrow> redis_view) \<Rightarrow> ('r, 'e) system \<Rightarrow> ('r, 'e) system \<Rightarrow> bool"
  for w view where
  submit: "job_ID j \<notin> set (sy_seen s) \<Longrightarrow> Enqueue (w_rdb w) j (sy_r s) = (err, r')
    \<Longrightarrow> sys_step w view s (s\<lparr>sy_r := r', sy_seen := job_ID j # sy_seen s\<rparr>)"
| work: "i < length (sy_pcs s) \<Longrightarrow> wstep w done (sy_pcs s ! i) (sy_r s, sy_e s) = (p', r', e')
    \<Longrightarrow> sys_step w view s (s\<lparr>sy_r := r', sy_e := e', sy_pcs := (sy_pcs s)[i := p']\<rparr>)"
| expire: "view r' = expire_key (jobKey k) (view (sy_r s))
    \<Longrightarrow> sys_step w view s (s\<lparr>sy_r := r'\<rparr>)"

inductive_cases sys_stepE: "sys_step w view s s'"

section \<open>The invariant\<close>

definition status_at :: "redis_view \<Rightarrow> string \<Rightarrow> string \<Rightarrow> bool" where
  "status_at v k st \<longleftrightarrow>
     rv_ttl v (jobKey k) = None \<and> (\<exists>j. job_at v k = Some j \<and> job_Status j = st)"

fun pc_ok :: "redis_view \<Rightarrow> pc \<Rightarrow> bool" where
  "pc_ok v Idle \<longleftrightarrow> True"
| "pc_ok v (Got k) \<longleftrightarrow> status_at v k StatusQueued"
| "pc_ok v (Loaded k job) \<longleftrightarrow> status_at v k StatusQueued \<and> job_at v k = Some job"
| "pc_ok v (Running k job) \<longleftrightarrow> status_at v k StatusRunning \<and> job_at v k = Some (started_job job)"
| "pc_ok v (Attempt k _ _ _ _) \<longleftrightarrow> status_at v k StatusRunning"
| "pc_ok v (Finishing k vd) \<longleftrightarrow> status_at v k StatusRunning \<and> Terminal (v_status vd)"
| "pc_ok v Stopped \<longleftrightarrow> True"

definition ids :: "pc list \<Rightarrow> redis_view \<Rightarrow> string list" where
  "ids pcs v = concat (map held pcs) @ pending v"

definition sys_inv :: "('r \<Rightarrow> redis_view) \<Rightarrow> ('r, 'e) system \<Rightarrow> bool" where
  "sys_inv view s \<longleftrightarrow>
     (let v = view (sy_r s) in
      distinct (ids (sy_pcs s) v) \<and> set (ids (sy_pcs s) v) \<subseteq> set (sy_seen s) \<and>
      (\<forall>p \<in> set (sy_pcs s). pc_ok v p) \<and>
      (\<forall>k \<in> set (pending v). status_at v k StatusQueued) \<and>
      (\<forall>k. k \<notin> set (sy_seen s) \<longrightarrow> rv_hash v (jobKey k) = [] \<and> rv_ttl v (jobKey k) = None) \<and>
      (\<forall>k j. rv_ttl v (jobKey k) \<noteq> None \<longrightarrow> job_at v k = Some j \<longrightarrow> Terminal (job_Status j)))"

lemma sys_invD:
  assumes "sys_inv view s"
  shows "distinct (ids (sy_pcs s) (view (sy_r s)))"
    "set (ids (sy_pcs s) (view (sy_r s))) \<subseteq> set (sy_seen s)"
    "p \<in> set (sy_pcs s) \<Longrightarrow> pc_ok (view (sy_r s)) p"
    "k \<in> set (pending (view (sy_r s))) \<Longrightarrow> status_at (view (sy_r s)) k StatusQueued"
    "k \<notin> set (sy_seen s) \<Longrightarrow> rv_hash (view (sy_r s)) (jobKey k) = []"
    "k \<notin> set (sy_seen s) \<Longrightarrow> rv_ttl (view (sy_r s)) (jobKey k) = None"
    "rv_ttl (view (sy_r s)) (jobKey k) \<noteq> None \<Longrightarrow> job_at (view (sy_r s)) k = Some j \<Longrightarrow>
      Terminal (job_Status j)"
  using assms unfolding sys_inv_def Let_def by blast+

lemma held_in_ids: "p \<in> set pcs \<Longrightarrow> k \<in> set (held p) \<Longrightarrow> k \<in> set (ids pcs v)"
  by (auto simp: ids_def)

lemma pending_in_ids: "k \<in> set (pending v) \<Longrightarrow> k \<in> set (ids pcs v)"
  by (simp add: ids_def)

section \<open>Frames\<close>

definition same_at :: "redis_view \<Rightarrow> redis_view \<Rightarrow> string \<Rightarrow> bool" where
  "same_at v v' k \<longleftrightarrow>
     rv_hash v' (jobKey k) = rv_hash v (jobKey k) \<and> rv_ttl v' (jobKey k) = rv_ttl v (jobKey k)"

lemma same_at_job: "same_at v v' k \<Longrightarrow> job_at v' k = job_at v k"
  by (simp add: same_at_def job_at_def)

lemma same_at_status: "same_at v v' k \<Longrightarrow> status_at v' k st = status_at v k st"
  by (simp add: status_at_def same_at_job) (simp add: same_at_def)

lemma pc_ok_frame: "\<forall>k \<in> set (held p). same_at v v' k \<Longrightarrow> pc_ok v' p = pc_ok v p"
  by (cases p) (auto simp: same_at_status same_at_job)

lemma same_at_refl [simp]: "same_at v v k"
  by (simp add: same_at_def)

lemma same_at_rpop [simp]: "same_at v (rpop_view q v) k"
  by (simp add: same_at_def rpop_view_def)

lemma same_at_hset: "k \<noteq> k' \<Longrightarrow> same_at v (redis_exec (HSet (jobKey k) fs) v) k'"
  by (simp add: same_at_def)

lemma same_at_finish:
  "k \<noteq> k' \<Longrightarrow> same_at v (fold redis_exec (finish_cmds ttl k st ce es rs) v) k'"
  by (simp add: same_at_def finish_cmds_def)

lemma same_at_enqueue: "job_ID j \<noteq> k \<Longrightarrow> same_at v (fold redis_exec (enqueue_cmds j) v) k"
  by (simp add: same_at_def)

lemma same_at_expire: "rv_ttl v (jobKey k) = None \<or> k \<noteq> k' \<Longrightarrow> same_at v (expire_key (jobKey k') v) k"
  by (auto simp: same_at_def expire_key_def)

lemma status_at_job: "status_at v k st \<Longrightarrow> \<exists>j. job_at v k = Some j \<and> job_Status j = st"
  by (auto simp: status_at_def)

section \<open>One step of one worker\<close>

definition progress :: "redis_view \<Rightarrow> redis_view \<Rightarrow> string \<Rightarrow> bool" where
  "progress v v' k \<longleftrightarrow>
     (\<exists>j j'. job_at v k = Some j \<and> job_at v' k = Some j' \<and>
        (job_Status j' = job_Status j \<or> status_step (job_Status j) (job_Status j')) \<and>
        (rv_ttl v' (jobKey k) \<noteq> None \<longrightarrow> Terminal (job_Status j')))"

definition step_effect :: "redis_view \<Rightarrow> pc \<Rightarrow> redis_view \<Rightarrow> pc \<Rightarrow> bool" where
  "step_effect v p v' p' \<longleftrightarrow>
     pc_ok v' p' \<and> (\<forall>k. k \<notin> set (held p) \<longrightarrow> same_at v v' k) \<and>
     (\<forall>k \<in> set (held p). progress v v' k) \<and>
     mset (held p' @ pending v') \<subseteq># mset (held p @ pending v) \<and>
     set (pending v') \<subseteq> set (pending v)"

lemma progress_same: "status_at v k st \<Longrightarrow> progress v v k"
  by (auto simp: progress_def status_at_def)

lemma step_effect_still:
  "pc_ok v p \<Longrightarrow> pc_ok v p' \<Longrightarrow> held p' = held p \<or> held p' = [] \<Longrightarrow> step_effect v p v p'"
  by (cases p) (auto simp: step_effect_def intro: progress_same)

lemma status_at_hset:
  assumes "status_at v k StatusQueued" and "job_at v k = Some j"
  defines "v' \<equiv> redis_exec (HSet (jobKey k) [(''status'', StatusRunning)]) v"
  shows "status_at v' k StatusRunning" "job_at v' k = Some (started_job j)" "progress v v' k"
    "pending v' = pending v"
proof -
  have j: "job_at v' k = Some (started_job j)"
    unfolding v'_def started_job_def using job_at_running_upd [OF assms(2)] by simp
  have t: "rv_ttl v' = rv_ttl v" by (simp add: v'_def)
  show "job_at v' k = Some (started_job j)" by (fact j)
  show "status_at v' k StatusRunning" using assms(1) j t by (simp add: status_at_def)
  show "progress v v' k"
    using assms(1,2) j t status_step.start by (auto simp: progress_def status_at_def)
  show "pending v' = pending v" unfolding v'_def by (rule pending_running)
qed

lemma progress_finish:
  assumes "status_at v k StatusRunning" and "Terminal st"
  shows "progress v (fold redis_exec (finish_cmds ttl k st ce es rs) v) k"
proof -
  obtain j where j: "job_at v k = Some j" "job_Status j = StatusRunning"
    using assms(1) by (auto simp: status_at_def)
  then show ?thesis
    using assms(2) status_step.finish [OF assms(2)]
    by (auto simp: progress_def job_at_finish_upd [OF j(1)] finish_job_def)
qed

context redis_laws
begin

lemma SetRunning_view:
  "SetRunning rc k r = (x, r') \<Longrightarrow>
    view r' = redis_exec (HSet (jobKey k) [(''status'', StatusRunning)]) (view r) \<or>
    x \<noteq> None \<and> view r' = view r"
  unfolding SetRunning_def by (cases x) (auto dest: cmd_ok cmd_err)

lemma finish_view:
  "w_rdb w = rc \<Longrightarrow> \<exists>ce es rs. view (snd (finish w k vd r)) =
      fold redis_exec (finish_cmds (w_resultTTL w) k (v_status vd) ce es rs) (view r) \<or>
    view (snd (finish w k vd r)) = view r"
  unfolding finish_def Finish_cmds
  by (metis prod.collapse option.exhaust tx_ok tx_err)

lemma wstep_effect:
  assumes w: "w_rdb w = rc"
    and ok: "pc_ok (view r) p" "\<forall>k \<in> set (pending (view r)). status_at (view r) k StatusQueued"
    and st: "wstep w done p (r, e) = (p', r', e')"
  shows "step_effect (view r) p (view r') p'"
proof (cases p)
  case Idle
  show ?thesis
  proof (cases "done")
    case True
    then show ?thesis using st Idle by (auto intro!: step_effect_still)
  next
    case False
    obtain x r1 where D: "Dequeue rc r = (x, r1)" by fastforce
    have r': "r' = r1" and p': "p' = (case x of Inr k \<Rightarrow> if k = [] then Idle else Got k | Inl _ \<Rightarrow> Idle)"
      using st Idle False D w by (auto split: sum.splits)
    have v: "view r1 = view r \<or> view r1 = rpop_view queueKey (view r)"
      using Dequeue_view(1) [OF D] .
    then have same: "\<forall>k. same_at (view r) (view r1) k" by auto
    show ?thesis
    proof (cases "\<exists>k. x = Inr k \<and> k \<noteq> []")
      case True
      then obtain k where k: "x = Inr k" "k \<noteq> []" by auto
      then have pend: "pending (view r) = k # pending (view r1)"
        using work.deq_id D by blast
      then have "status_at (view r) k StatusQueued" using ok(2) by simp
      then have "pc_ok (view r1) (Got k)" using same same_at_status by (metis pc_ok.simps(2))
      then show ?thesis
        using pend k same Idle r' p' by (auto simp: step_effect_def)
    next
      case False
      then have "p' = Idle" using p' by (auto split: sum.splits)
      moreover have "mset (pending (view r1)) \<subseteq># mset (pending (view r))"
        "set (pending (view r1)) \<subseteq> set (pending (view r))"
        using work.deq_other [OF D] by (cases "pending (view r)"; auto)+
      ultimately show ?thesis using same Idle r' by (simp add: step_effect_def)
    qed
  qed
next
  case (Got k)
  obtain x r1 where L: "Load rc k r = (x, r1)" by fastforce
  have "view r' = view r" and "p' = (case x of Inr job \<Rightarrow> Loaded k job | Inl _ \<Rightarrow> Idle)"
    using st Got L w Load_view(1) [OF L] by (auto split: sum.splits)
  then show ?thesis
    using ok Got Load_view(2) [OF L] by (cases x) (auto intro!: step_effect_still)
next
  case (Loaded k job)
  obtain x r1 where R: "SetRunning rc k r = (x, r1)" by fastforce
  have r': "r' = r1" and p': "p' = (case x of None \<Rightarrow> Running k job | Some _ \<Rightarrow> Idle)"
    using st Loaded R w by (auto split: option.splits)
  show ?thesis
  proof (cases "view r1 = view r \<and> x \<noteq> None")
    case True
    then show ?thesis using ok Loaded r' p' by (auto intro!: step_effect_still)
  next
    case False
    then have v: "view r1 = redis_exec (HSet (jobKey k) [(''status'', StatusRunning)]) (view r)"
      using SetRunning_view [OF R] by auto
    from ok Loaded have "status_at (view r) k StatusQueued" "job_at (view r) k = Some job" by simp_all
    note h = status_at_hset [OF this, folded v]
    show ?thesis
      using h r' p' Loaded v
      by (auto simp: step_effect_def same_at_hset simp del: redis_exec.simps split: option.splits)
  qed
next
  case (Running k job)
  then show ?thesis
    using st ok by (auto intro!: step_effect_still simp: status_at_def split: option.splits)
next
  case (Attempt k lid req n err0)
  show ?thesis
  proof (cases n)
    case 0
    then show ?thesis using Attempt st ok by (auto intro!: step_effect_still)
  next
    case (Suc m)
    then show ?thesis
      using Attempt st ok by (auto intro!: step_effect_still split: prod.splits sum.splits)
  qed
next
  case (Finishing k vd)
  then have p': "p' = Idle" and r': "r' = snd (finish w k vd r)" using st by auto
  have run: "status_at (view r) k StatusRunning" "Terminal (v_status vd)" using ok Finishing by auto
  from finish_view [OF w, of k vd r]
  obtain ce es rs where "view r' = view r \<or> view r' =
      fold redis_exec (finish_cmds (w_resultTTL w) k (v_status vd) ce es rs) (view r)"
    using r' by blast
  then show ?thesis
  proof
    assume "view r' = view r"
    then show ?thesis using ok Finishing p' by (auto intro!: step_effect_still)
  next
    assume v: "view r' = fold redis_exec (finish_cmds (w_resultTTL w) k (v_status vd) ce es rs) (view r)"
    then show ?thesis
      using p' Finishing progress_finish [OF run]
      by (simp add: step_effect_def same_at_finish pending_finish)
  qed
next
  case Stopped
  then show ?thesis using st by (auto intro!: step_effect_still)
qed

end

section \<open>Preservation\<close>

lemma distinct_sub:
  assumes "mset xs \<subseteq># mset ys" and "distinct ys"
  shows "distinct xs" "set xs \<subseteq> set ys"
proof -
  have "count (mset xs) a \<le> 1" for a
    using mset_subset_eq_count [OF assms(1), of a] assms(2) [unfolded distinct_count_atmost_1]
    by (metis le_trans linorder_linear zero_le_one)
  then show "distinct xs"
    by (metis One_nat_def count_greater_eq_one_iff distinct_count_atmost_1 le_antisym not_in_iff set_mset_mset)
  show "set xs \<subseteq> set ys" using assms(1) by (metis set_mset_mono set_mset_mset)
qed

lemma ids_split:
  assumes "i < length pcs"
  obtains A where "\<And>v. mset (ids pcs v) = mset (held (pcs ! i) @ pending v) + A"
    and "\<And>v p. mset (ids (pcs[i := p]) v) = mset (held p @ pending v) + A"
    and "\<And>j. j < length pcs \<Longrightarrow> j \<noteq> i \<Longrightarrow> set (held (pcs ! j)) \<subseteq> set_mset A"
proof -
  let ?A = "mset (concat (map held (take i pcs @ drop (Suc i) pcs)))"
  have "mset (ids pcs v) = mset (held (pcs ! i) @ pending v) + ?A" for v
    by (subst id_take_nth_drop [OF assms]) (simp add: ids_def del: append_take_drop_id)
  moreover have "mset (ids (pcs[i := p]) v) = mset (held p @ pending v) + ?A" for v p
    using assms by (simp add: ids_def upd_conv_take_nth_drop)
  moreover have "set (held (pcs ! j)) \<subseteq> set_mset ?A" if j: "j < length pcs" "j \<noteq> i" for j
  proof -
    have "pcs ! j \<in> set (take i pcs @ drop (Suc i) pcs)"
    proof (cases "j < i")
      case True
      then have "take i pcs ! j = pcs ! j" "j < length (take i pcs)" using assms by simp_all
      then show ?thesis by (metis UnI1 nth_mem set_append)
    next
      case False
      then have "drop (Suc i) pcs ! (j - Suc i) = pcs ! j" "j - Suc i < length (drop (Suc i) pcs)"
        using j by auto
      then show ?thesis by (metis UnI2 nth_mem set_append)
    qed
    then show ?thesis by auto
  qed
  ultimately show thesis by (rule that)
qed

lemma ids_disjoint:
  assumes "distinct (ids pcs v)" and "i < length pcs" and "k \<in> set (held (pcs ! i))"
  shows "k \<notin> set (pending v)" "j < length pcs \<Longrightarrow> j \<noteq> i \<Longrightarrow> k \<notin> set (held (pcs ! j))"
proof -
  obtain A where A: "mset (ids pcs v) = mset (held (pcs ! i) @ pending v) + A"
    "\<And>j. j < length pcs \<Longrightarrow> j \<noteq> i \<Longrightarrow> set (held (pcs ! j)) \<subseteq> set_mset A"
    using ids_split [OF assms(2)] by metis
  have "count (mset (ids pcs v)) k \<le> 1"
    using assms(1) unfolding distinct_count_atmost_1 by simp
  then have "count (mset (held (pcs ! i))) k + count (mset (pending v)) k + count A k \<le> 1"
    by (simp add: A(1))
  moreover have "1 \<le> count (mset (held (pcs ! i))) k"
    using assms(3) by (simp add: count_greater_eq_one_iff)
  ultimately have "count (mset (pending v)) k = 0" "count A k = 0"
    by linarith+
  then show "k \<notin> set (pending v)" "j < length pcs \<Longrightarrow> j \<noteq> i \<Longrightarrow> k \<notin> set (held (pcs ! j))"
    using A(2) by (auto simp: count_eq_zero_iff)
qed

text \<open>With distinct ids, a step of one worker is invisible to the others.\<close>

lemma ids_step:
  assumes "i < length pcs" and "distinct (ids pcs v)" and "step_effect v (pcs ! i) v' p'"
  shows "distinct (ids (pcs[i := p']) v')" "set (ids (pcs[i := p']) v') \<subseteq> set (ids pcs v)"
    "\<forall>j < length pcs. j \<noteq> i \<longrightarrow> (\<forall>k \<in> set (held (pcs ! j)). same_at v v' k)"
    "\<forall>k \<in> set (pending v'). same_at v v' k \<and> k \<in> set (pending v)"
proof -
  obtain A where A: "mset (ids pcs v) = mset (held (pcs ! i) @ pending v) + A"
    "mset (ids (pcs[i := p']) v') = mset (held p' @ pending v') + A"
    using ids_split [OF assms(1)] by metis
  have "mset (ids (pcs[i := p']) v') \<subseteq># mset (ids pcs v)"
    using assms(3) unfolding A(1,2) step_effect_def by (intro subset_mset.add_right_mono) blast
  from distinct_sub [OF this assms(2)]
  show "distinct (ids (pcs[i := p']) v')" "set (ids (pcs[i := p']) v') \<subseteq> set (ids pcs v)" .
  note out = ids_disjoint [OF assms(2,1)]
  show "\<forall>j < length pcs. j \<noteq> i \<longrightarrow> (\<forall>k \<in> set (held (pcs ! j)). same_at v v' k)"
    using out(2) assms(3) unfolding step_effect_def by blast
  show "\<forall>k \<in> set (pending v'). same_at v v' k \<and> k \<in> set (pending v)"
    using out(1) assms(3) unfolding step_effect_def by blast
qed

lemma pcs_ok_update:
  assumes "\<forall>p \<in> set pcs. pc_ok v p" and "pc_ok v' p'"
    and "\<forall>j < length pcs. j \<noteq> i \<longrightarrow> (\<forall>k \<in> set (held (pcs ! j)). same_at v v' k)"
  shows "\<forall>p \<in> set (pcs[i := p']). pc_ok v' p"
proof -
  have "pc_ok v' (pcs[i := p'] ! j)" if "j < length pcs" for j
    using that assms pc_ok_frame [of "pcs ! j" v v'] by (cases "j = i") auto
  then show ?thesis by (auto simp: in_set_conv_nth)
qed

text \<open>Enqueuing a fresh id, as seen in the invariant.\<close>

lemma enqueue_fresh:
  assumes "rv_hash v (jobKey (job_ID j)) = []" and "rv_ttl v (jobKey (job_ID j)) = None"
  defines "v' \<equiv> fold redis_exec (enqueue_cmds j) v"
  shows "status_at v' (job_ID j) StatusQueued" "pending v' = pending v @ [job_ID j]" "rv_ttl v' = rv_ttl v"
proof -
  have "job_at v' (job_ID j) = Some (queued_job j)"
    using job_at_enqueue [OF assms(1)] by (simp add: v'_def)
  moreover show t: "rv_ttl v' = rv_ttl v" by (simp add: v'_def)
  ultimately show "status_at v' (job_ID j) StatusQueued"
    using assms(2) by (simp add: status_at_def queued_job_def)
  show "pending v' = pending v @ [job_ID j]" unfolding v'_def by (rule pending_enqueue)
qed

lemma sys_inv_submit:
  assumes inv: "sys_inv view s" and fresh: "job_ID j \<notin> set (sy_seen s)"
    and v: "view r' = view (sy_r s) \<or> view r' = fold redis_exec (enqueue_cmds j) (view (sy_r s))"
  shows "sys_inv view (s\<lparr>sy_r := r', sy_seen := job_ID j # sy_seen s\<rparr>)"
proof (cases "view r' = view (sy_r s)")
  case True
  then show ?thesis using inv by (auto simp: sys_inv_def Let_def)
next
  case False
  let ?v = "view (sy_r s)" and ?k = "job_ID j"
  have v': "view r' = fold redis_exec (enqueue_cmds j) ?v" using v False by blast
  have clean: "rv_hash ?v (jobKey ?k) = []" "rv_ttl ?v (jobKey ?k) = None"
    using inv fresh by (simp_all add: sys_inv_def Let_def)
  note q = enqueue_fresh [OF clean, folded v']
  have same: "k \<noteq> ?k \<Longrightarrow> same_at ?v (view r') k" for k
    using same_at_enqueue [of j k ?v] v' by simp
  have sub: "set (ids (sy_pcs s) ?v) \<subseteq> set (sy_seen s)" and d: "distinct (ids (sy_pcs s) ?v)"
    using inv by (simp_all add: sys_inv_def Let_def)
  then have k: "?k \<notin> set (ids (sy_pcs s) ?v)" using fresh by blast
  have ids: "ids (sy_pcs s) (view r') = ids (sy_pcs s) ?v @ [?k]" by (simp add: ids_def q(2))
  have other: "k \<in> set (ids (sy_pcs s) ?v) \<Longrightarrow> same_at ?v (view r') k" for k
    using same k by metis
  have "pc_ok (view r') p" if p: "p \<in> set (sy_pcs s)" for p
  proof -
    have "\<forall>k \<in> set (held p). same_at ?v (view r') k"
      using other held_in_ids [OF p] by blast
    from pc_ok_frame [OF this] sys_invD(3) [OF inv p] show ?thesis by simp
  qed
  moreover have "status_at (view r') k StatusQueued" if "k \<in> set (pending (view r'))" for k
  proof (cases "k = ?k")
    case True
    then show ?thesis using q(1) by simp
  next
    case False
    then have "k \<in> set (pending ?v)" using that q(2) by simp
    from sys_invD(4) [OF inv this] show ?thesis using same_at_status [OF same [OF False]] by simp
  qed
  moreover have "rv_hash (view r') (jobKey k) = [] \<and> rv_ttl (view r') (jobKey k) = None"
    if "k \<notin> set (?k # sy_seen s)" for k
  proof -
    have "k \<noteq> ?k" "k \<notin> set (sy_seen s)" using that by simp_all
    then show ?thesis using sys_invD(5,6) [OF inv] same [of k] by (simp add: same_at_def)
  qed
  moreover have "Terminal (job_Status i)"
    if "rv_ttl (view r') (jobKey k) \<noteq> None" "job_at (view r') k = Some i" for k i
  proof (cases "k = ?k")
    case True
    then show ?thesis using that(1) clean(2) q(3) by simp
  next
    case False
    with that sys_invD(7) [OF inv, of k i] same_at_job [OF same [OF False]] q(3) show ?thesis by simp
  qed
  ultimately show ?thesis
    using d k sub by (auto simp: sys_inv_def Let_def ids)
qed

lemma sys_inv_work:
  assumes inv: "sys_inv view s" and i: "i < length (sy_pcs s)"
    and eff: "step_effect (view (sy_r s)) (sy_pcs s ! i) (view r') p'"
  shows "sys_inv view (s\<lparr>sy_r := r', sy_e := e', sy_pcs := (sy_pcs s)[i := p']\<rparr>)"
proof -
  let ?v = "view (sy_r s)" and ?pcs = "sy_pcs s"
  note st = ids_step [OF i sys_invD(1) [OF inv] eff]
  have out: "same_at ?v (view r') k" if "k \<notin> set (held (?pcs ! i))" for k
    using eff that unfolding step_effect_def by blast
  have seen: "k \<in> set (sy_seen s)" if "k \<in> set (held (?pcs ! i))" for k
    using held_in_ids [OF nth_mem [OF i] that] sys_invD(2) [OF inv] by blast
  have "\<forall>p \<in> set (?pcs[i := p']). pc_ok (view r') p"
    using pcs_ok_update [OF _ _ st(3)] sys_invD(3) [OF inv] eff unfolding step_effect_def by blast
  moreover have "status_at (view r') k StatusQueued" if "k \<in> set (pending (view r'))" for k
    using st(4) that same_at_status sys_invD(4) [OF inv] by metis
  moreover have "rv_hash (view r') (jobKey k) = [] \<and> rv_ttl (view r') (jobKey k) = None"
    if "k \<notin> set (sy_seen s)" for k
  proof -
    have "same_at ?v (view r') k" using that seen out by blast
    then show ?thesis using sys_invD(5,6) [OF inv that] by (simp add: same_at_def)
  qed
  moreover have "Terminal (job_Status j)"
    if t: "rv_ttl (view r') (jobKey k) \<noteq> None" and j: "job_at (view r') k = Some j" for k j
  proof (cases "k \<in> set (held (?pcs ! i))")
    case True
    then have "progress ?v (view r') k" using eff unfolding step_effect_def by blast
    then show ?thesis using t j by (auto simp: progress_def)
  next
    case False
    then show ?thesis
      using sys_invD(7) [OF inv, of k j] t j out [OF False] same_at_job [OF out [OF False]]
      by (simp add: same_at_def)
  qed
  moreover have "set (ids (?pcs[i := p']) (view r')) \<subseteq> set (sy_seen s)"
    using st(2) sys_invD(2) [OF inv] by blast
  ultimately show ?thesis
    using st(1) by (simp add: sys_inv_def Let_def)
qed

lemma sys_inv_expire:
  assumes inv: "sys_inv view s" and v: "view r' = expire_key (jobKey k) (view (sy_r s))"
  shows "sys_inv view (s\<lparr>sy_r := r'\<rparr>)"
proof (cases "rv_ttl (view (sy_r s)) (jobKey k) = None")
  case True
  then have "view r' = view (sy_r s)" using v by (simp add: expire_key_def)
  then show ?thesis using inv by (simp add: sys_inv_def)
next
  case False
  let ?v = "view (sy_r s)"
  have pend: "pending (view r') = pending ?v" by (simp add: v expire_key_def pending_def)
  have same: "same_at ?v (view r') k'" if "rv_ttl ?v (jobKey k') = None \<or> k' \<noteq> k" for k'
    unfolding v using that by (rule same_at_expire)
  have ttl: "rv_ttl ?v (jobKey k') = None" if "k' \<in> set (held p)" "pc_ok ?v p" for k' p
    using that by (cases p) (auto simp: status_at_def)
  have "pc_ok (view r') p" if p: "p \<in> set (sy_pcs s)" for p
  proof -
    have "\<forall>k' \<in> set (held p). same_at ?v (view r') k'"
      using same ttl sys_invD(3) [OF inv p] by blast
    from pc_ok_frame [OF this] sys_invD(3) [OF inv p] show ?thesis by simp
  qed
  moreover have "status_at (view r') k' StatusQueued" if "k' \<in> set (pending (view r'))" for k'
  proof -
    have q: "status_at ?v k' StatusQueued" using sys_invD(4) [OF inv] that pend by simp
    then have "same_at ?v (view r') k'" using same by (simp add: status_at_def)
    from same_at_status [OF this] q show ?thesis by simp
  qed
  moreover have "rv_hash (view r') (jobKey k') = [] \<and> rv_ttl (view r') (jobKey k') = None"
    if "k' \<notin> set (sy_seen s)" for k'
    using same [of k'] sys_invD(5,6) [OF inv that] by (simp add: same_at_def)
  moreover have "Terminal (job_Status j)"
    if t: "rv_ttl (view r') (jobKey k') \<noteq> None" and j: "job_at (view r') k' = Some j" for k' j
  proof (cases "k' = k")
    case True
    then show ?thesis using t False by (simp add: v expire_key_def)
  next
    case k: False
    then have "same_at ?v (view r') k'" using same by blast
    then show ?thesis
      using sys_invD(7) [OF inv, of k' j] t j same_at_job [OF \<open>same_at ?v (view r') k'\<close>]
      by (simp add: same_at_def)
  qed
  ultimately show ?thesis
    using sys_invD(1,2) [OF inv] by (simp add: sys_inv_def Let_def ids_def pend)
qed

lemma sys_inv_step:
  assumes "redis_laws (w_rdb w) view" and "sys_step w view s s'" and inv: "sys_inv view s"
  shows "sys_inv view s'"
  using assms(2)
proof cases
  case (submit j err r')
  have "view r' = view (sy_r s) \<or> view r' = fold redis_exec (enqueue_cmds j) (view (sy_r s))"
    using submit(3) redis_laws.tx_ok [OF assms(1)] redis_laws.tx_err [OF assms(1)]
    by (cases err) (auto simp only: Enqueue_cmds)
  from sys_inv_submit [OF inv submit(2) this] show ?thesis using submit(1) by simp
next
  case (work i d p' r' e')
  have "step_effect (view (sy_r s)) (sy_pcs s ! i) (view r') p'"
    using redis_laws.wstep_effect [OF assms(1) refl _ _ work(3)] sys_invD(3,4) [OF inv] work(2)
    by (metis nth_mem)
  from sys_inv_work [OF inv work(2) this] show ?thesis using work(1) by simp
next
  case (expire r' k)
  from sys_inv_expire [OF inv expire(2)] show ?thesis using expire(1) by simp
qed

section \<open>Reachable states\<close>

text \<open>What is asked of the store in which the workers start; an empty one satisfies it.\<close>

definition sound_store :: "redis_view \<Rightarrow> string list \<Rightarrow> bool" where
  "sound_store v seen \<longleftrightarrow>
     distinct (pending v) \<and> set (pending v) \<subseteq> set seen \<and>
     (\<forall>k \<in> set (pending v). status_at v k StatusQueued) \<and>
     (\<forall>k. k \<notin> set seen \<longrightarrow> rv_hash v (jobKey k) = [] \<and> rv_ttl v (jobKey k) = None) \<and>
     (\<forall>k j. rv_ttl v (jobKey k) \<noteq> None \<longrightarrow> job_at v k = Some j \<longrightarrow> Terminal (job_Status j))"

lemma sound_store_empty: "sound_store empty_view []"
  by (simp add: sound_store_def empty_view_def pending_def)

lemma concat_held_Idle [simp]: "concat (map held (replicate n Idle)) = []"
  by (induction n) auto

lemma sys_inv_init: "sound_store (view r) seen \<Longrightarrow> sys_inv view (sys_init cfg r e seen)"
  by (simp add: sys_inv_def sys_init_def sound_store_def ids_def Let_def)

inductive sys_reachable ::
    "('r, 'e) Worker \<Rightarrow> ('r \<Rightarrow> redis_view) \<Rightarrow> ('r, 'e) system \<Rightarrow> bool"
  for w view where
  init: "sound_store (view r) seen \<Longrightarrow> sys_reachable w view (sys_init (w_cfg w) r e seen)"
| step: "sys_reachable w view s \<Longrightarrow> sys_step w view s s' \<Longrightarrow> sys_reachable w view s'"

lemma reachable_inv:
  assumes "redis_laws (w_rdb w) view" and "sys_reachable w view s"
  shows "sys_inv view s"
  using assms(2)
  by induction (auto intro: sys_inv_init sys_inv_step [OF assms(1)])

section \<open>Properties\<close>

text \<open>
  C2. No job is with two workers: in every state that submissions, worker steps and expiries
  can reach, in any interleaving and with any failures, the id a worker is at is with no other
  worker and no longer on the work list, and the number of workers is the configured one.
\<close>

theorem one_worker_per_job:
  assumes "redis_laws (w_rdb w) view" and "sys_reachable w view s"
    and "i < length (sy_pcs s)" and "k \<in> set (held (sy_pcs s ! i))"
  shows "k \<notin> set (pending (view (sy_r s))) \<and>
    (\<forall>j < length (sy_pcs s). j \<noteq> i \<longrightarrow> k \<notin> set (held (sy_pcs s ! j))) \<and>
    length (sy_pcs s) = nat (sint (cfg_WorkerConcurrency (w_cfg w)))"
proof -
  have "length (sy_pcs s) = nat (sint (cfg_WorkerConcurrency (w_cfg w)))"
    using assms(2) by induction (auto simp: sys_init_def elim!: sys_stepE)
  then show ?thesis
    using ids_disjoint [OF sys_invD(1) [OF reachable_inv [OF assms(1,2)]] assms(3,4)] by blast
qed

text \<open>
  C4. The status of a job never moves backwards: in one step from a reachable state, a job
  that is stored either keeps its status, or moves one step along queued, running, done or
  failed, or is gone, and then its status was terminal.
\<close>

theorem job_status_forward:
  assumes "redis_laws (w_rdb w) view" and "sys_reachable w view s" and "sys_step w view s s'"
    and "job_at (view (sy_r s)) k = Some j"
  shows "(\<exists>j'. job_at (view (sy_r s')) k = Some j' \<and>
      (job_Status j' = job_Status j \<or> status_step (job_Status j) (job_Status j'))) \<or>
    (job_at (view (sy_r s')) k = None \<and> Terminal (job_Status j))"
proof -
  note inv = reachable_inv [OF assms(1,2)]
  let ?v = "view (sy_r s)"
  have keep: ?thesis if "same_at ?v (view (sy_r s')) k"
    using same_at_job [OF that] assms(4) by simp
  from assms(3) show ?thesis
  proof cases
    case (submit j0 err r')
    have "rv_hash ?v (jobKey (job_ID j0)) = []" using sys_invD(5) [OF inv submit(2)] .
    then have "k \<noteq> job_ID j0" using assms(4) by (auto simp: job_at_def load_hash_def)
    moreover have "view r' = ?v \<or> view r' = fold redis_exec (enqueue_cmds j0) ?v"
      using submit(3) redis_laws.tx_ok [OF assms(1)] redis_laws.tx_err [OF assms(1)]
      by (cases err) (auto simp only: Enqueue_cmds)
    ultimately have "same_at ?v (view r') k" using same_at_enqueue [of j0 k ?v] by auto
    then show ?thesis using keep submit(1) by simp
  next
    case (work i d p' r' e')
    have eff: "step_effect ?v (sy_pcs s ! i) (view r') p'"
      using redis_laws.wstep_effect [OF assms(1) refl _ _ work(3)] sys_invD(3,4) [OF inv] work(2)
      by (metis nth_mem)
    show ?thesis
    proof (cases "k \<in> set (held (sy_pcs s ! i))")
      case True
      then have "progress ?v (view r') k" using eff unfolding step_effect_def by blast
      then show ?thesis using work(1) assms(4) by (auto simp: progress_def)
    next
      case False
      then have "same_at ?v (view r') k" using eff unfolding step_effect_def by blast
      then show ?thesis using keep work(1) by simp
    qed
  next
    case (expire r' k')
    show ?thesis
    proof (cases "rv_ttl ?v (jobKey k) = None \<or> k \<noteq> k'")
      case True
      then show ?thesis using keep expire same_at_expire [OF True] by simp
    next
      case False
      then have "job_at (view r') k = None"
        using expire(2) False by (auto simp: expire_key_def job_at_def load_hash_def)
      then show ?thesis using sys_invD(7) [OF inv _ assms(4)] False expire(1) by auto
    qed
  qed
qed

text \<open>
  A dequeued job is always there: in every reachable state, \<^verbatim>\<open>Load\<close> by the worker that
  holds an id gives the job, still queued, or the transport's error; never not found, never a
  field that does not decode.
\<close>

theorem dequeued_job_loads:
  assumes "redis_laws (w_rdb w) view" and "sys_reachable w view s"
    and "i < length (sy_pcs s)" and "sy_pcs s ! i = Got k"
    and "Load (w_rdb w) k (sy_r s) = (x, r')"
  shows "(\<exists>j. x = Inr j \<and> job_Status j = StatusQueued) \<or> (\<exists>e. x = Inl (QRedis e))"
proof -
  have "pc_ok (view (sy_r s)) (sy_pcs s ! i)"
    using sys_invD(3) [OF reachable_inv [OF assms(1,2)] nth_mem [OF assms(3)]] .
  then obtain j where j: "job_at (view (sy_r s)) k = Some j" "job_Status j = StatusQueued"
    using assms(4) status_at_job by fastforce
  then have "load_hash k (rv_hash (view (sy_r s)) (jobKey k)) = Inr j"
    by (simp add: job_at_def split: sum.splits)
  then show ?thesis
    using assms(5) j(2) redis_laws.hgetall_value [OF assms(1), of "jobKey k" "sy_r s"]
    by (auto simp: Load_def split: prod.splits sum.splits)
qed

text \<open>A reachable state for the witnesses: one job submitted, and dequeued by the first worker.\<close>

abbreviation demo_worker :: "(redis_view, nat) Worker" where
  "demo_worker \<equiv> sample_worker flaky"

definition demo_start :: "(redis_view, nat) system" where
  "demo_start = sys_init (w_cfg demo_worker) empty_view 0 []"

definition demo_submitted :: "(redis_view, nat) system" where
  "demo_submitted = demo_start\<lparr>sy_r := sample_state, sy_seen := [''j1'']\<rparr>"

definition demo_got :: "(redis_view, nat) system" where
  "demo_got = demo_submitted\<lparr>sy_r := drained_state, sy_e := 0, sy_pcs := (sy_pcs demo_submitted)[0 := Got ''j1'']\<rparr>"

lemma demo_workers: "nat (sint (cfg_WorkerConcurrency (w_cfg demo_worker))) = 4"
  by (simp add: sample_worker_def sample_config_def floor_config_def read_config_def envInt_def at_least_one_def)

lemma demo_pcs: "sy_pcs demo_submitted = replicate 4 Idle"
  by (simp add: demo_submitted_def demo_start_def sys_init_def demo_workers)

lemma demo_reachable:
  "sys_reachable demo_worker (\<lambda>v. v) demo_got"
  "sys_step demo_worker (\<lambda>v. v) demo_submitted demo_got"
  "sys_reachable demo_worker (\<lambda>v. v) demo_submitted"
proof -
  have "sys_reachable demo_worker (\<lambda>v. v) demo_start"
    unfolding demo_start_def by (intro sys_reachable.init sound_store_empty)
  moreover have "sys_step demo_worker (\<lambda>v. v) demo_start demo_submitted"
    using sys_step.submit [where s = demo_start and j = sample_job and w = demo_worker and view = "\<lambda>v. v"]
      sample_steps(1)
    by (simp add: demo_submitted_def demo_start_def sys_init_def sample_job_def)
  ultimately show sub: "sys_reachable demo_worker (\<lambda>v. v) demo_submitted" by (rule sys_reachable.step)
  have "wstep demo_worker False (sy_pcs demo_submitted ! 0) (sy_r demo_submitted, sy_e demo_submitted)
    = (Got ''j1'', drained_state, 0)"
    using sample_steps(2) by (simp add: demo_pcs) (simp add: demo_submitted_def demo_start_def sys_init_def)
  from sys_step.work [OF _ this, of "\<lambda>v. v"]
  show st: "sys_step demo_worker (\<lambda>v. v) demo_submitted demo_got"
    unfolding demo_got_def by (simp add: demo_pcs)
  from sub st show "sys_reachable demo_worker (\<lambda>v. v) demo_got" by (rule sys_reachable.step)
qed

lemma demo_got_simps:
  "sy_pcs demo_got = [Got ''j1'', Idle, Idle, Idle]" "sy_r demo_got = drained_state"
  "sy_r demo_submitted = sample_state"
proof -
  have "replicate 4 Idle = [Idle, Idle, Idle, Idle]" by (simp add: eval_nat_numeral)
  then show "sy_pcs demo_got = [Got ''j1'', Idle, Idle, Idle]" "sy_r demo_got = drained_state"
    "sy_r demo_submitted = sample_state"
    by (simp_all add: demo_got_def demo_pcs) (simp add: demo_submitted_def)
qed

lemma one_worker_per_job_witness:
  "''j1'' \<notin> set (pending drained_state) \<and> ''j1'' \<notin> set (held (sy_pcs demo_got ! 2))"
proof -
  have "redis_laws (w_rdb demo_worker) (\<lambda>v. v)" by (simp add: mem_laws)
  from one_worker_per_job [OF this demo_reachable(1), of 0 "''j1''"]
  show ?thesis by (simp add: demo_got_simps)
qed

lemma job_status_forward_witness:
  "\<exists>j'. job_at drained_state ''j1'' = Some j' \<or> Terminal (job_Status (queued_job sample_job))"
proof -
  have "redis_laws (w_rdb demo_worker) (\<lambda>v. v)" by (simp add: mem_laws)
  from job_status_forward [OF this demo_reachable(3,2), of "''j1''" "queued_job sample_job"]
  show ?thesis by (auto simp: demo_got_simps sample_state_job)
qed

lemma dequeued_job_loads_witness:
  "\<exists>j. fst (Load mem_redis ''j1'' drained_state) = Inr j \<and> job_Status j = StatusQueued"
proof -
  have "redis_laws (w_rdb demo_worker) (\<lambda>v. v)" by (simp add: mem_laws)
  moreover have "Load (w_rdb demo_worker) ''j1'' (sy_r demo_got) =
    (load_hash ''j1'' (rv_hash drained_state (jobKey ''j1'')), drained_state)"
    by (simp add: Load_mem demo_got_simps)
  ultimately have "(\<exists>j. load_hash ''j1'' (rv_hash drained_state (jobKey ''j1'')) = Inr j \<and>
      job_Status j = StatusQueued) \<or>
    (\<exists>e. load_hash ''j1'' (rv_hash drained_state (jobKey ''j1'')) = Inl (QRedis e))"
    using dequeued_job_loads [OF _ demo_reachable(1), where i = 0] by (fastforce simp: demo_got_simps)
  then show ?thesis
    using drained_state_job by (auto simp: Load_mem job_at_def split: sum.splits)
qed

end
