(* ===== verification/Job_Types.thy ===== *)
theory Job_Types
  imports Worker_System
begin

text \<open>
  Which fields a stored job may carry together with which status, and that every interleaving
  of submissions, worker steps and expiries keeps every stored job of that form.
\<close>

definition job_ok :: "Job \<Rightarrow> bool" where
  "job_ok j \<longleftrightarrow>
     (job_Status j \<in> {StatusQueued, StatusRunning} \<and> job_Error j = [] \<and> job_CompileError j = [] \<and>
        job_Results j = None) \<or>
     (job_Status j = StatusDone \<and> job_Error j = []) \<or>
     (job_Status j = StatusFailed \<and> job_CompileError j = [] \<and> job_Results j = None)"

definition typed_store :: "redis_view \<Rightarrow> bool" where
  "typed_store v \<longleftrightarrow> (\<forall>k j. job_at v k = Some j \<longrightarrow> job_ok j)"

fun pc_typed :: "pc \<Rightarrow> bool" where
  "pc_typed (Finishing k v) \<longleftrightarrow> (\<forall>j. job_ok (verdict_job v j))"
| "pc_typed _ \<longleftrightarrow> True"

section \<open>Jobs the program makes\<close>

lemma job_ok_queued [simp]: "job_ok (queued_job j)"
  by (simp add: job_ok_def queued_job_def)

lemma job_ok_started: "job_ok j \<Longrightarrow> job_Status j = StatusQueued \<Longrightarrow> job_ok (started_job j)"
  by (auto simp: job_ok_def started_job_def status_defs)

lemma job_ok_verdict [simp]:
  "job_ok (verdict_job (failed m) j)" "job_ok (verdict_job (unknown_language p l) j)"
  "job_ok (verdict_job (verdict_of out) j)"
  by (auto simp: job_ok_def verdict_job_def finish_job_def verdict_of_def unknown_language_def failed_def
      wire_results_def split: sum.split)

section \<open>Steps\<close>

lemma typed_same: "job_at v' = job_at v \<Longrightarrow> typed_store v' = typed_store v"
  by (simp add: typed_store_def)

lemma typed_upd: "job_at v' = (job_at v)(k \<mapsto> j) \<Longrightarrow> typed_store v \<Longrightarrow> job_ok j \<Longrightarrow> typed_store v'"
  unfolding typed_store_def by (metis fun_upd_apply option.inject)

lemma job_at_rpop: "job_at (rpop_view q v) = job_at v"
  by (simp add: job_at_def rpop_view_def fun_eq_iff)

lemma wstep_typed:
  assumes laws: "redis_laws (w_rdb w) view" and ok: "pc_ok (view r) p" "typed_store (view r)" "pc_typed p"
    and st: "wstep w done p (r, e) = (p', r', e')"
  shows "typed_store (view r') \<and> pc_typed p'"
proof (cases p)
  case Idle
  obtain x r1 where D: "Dequeue (w_rdb w) r = (x, r1)" by fastforce
  have "job_at (view r1) = job_at (view r)"
    using redis_laws.Dequeue_view(1) [OF laws D] job_at_rpop by metis
  then have "typed_store (view r1)" using ok(2) typed_same by blast
  then show ?thesis
    using st Idle D ok(2) by (cases x) (auto split: if_splits)
next
  case (Got k)
  obtain x r1 where L: "Load (w_rdb w) k r = (x, r1)" by fastforce
  then show ?thesis
    using st Got ok redis_laws.Load_view(1) [OF laws L] by (auto split: sum.splits)
next
  case (Loaded k job)
  obtain x r1 where R: "SetRunning (w_rdb w) k r = (x, r1)" by fastforce
  have job: "job_at (view r) k = Some job" "job_Status job = StatusQueued"
    using ok(1) Loaded by (auto simp: status_at_def)
  then have "job_ok (started_job job)" using ok(2) job_ok_started by (auto simp: typed_store_def)
  moreover have "job_at (view r1) = (job_at (view r))(k \<mapsto> started_job job) \<or> job_at (view r1) = job_at (view r)"
    using redis_laws.SetRunning_started [OF laws job(1) R] by blast
  ultimately have "typed_store (view r1)" using ok(2) typed_upd typed_same by metis
  then show ?thesis using st Loaded R by (auto split: option.splits)
next
  case (Finishing k v)
  obtain j where j: "job_at (view r) k = Some j" using ok(1) Finishing status_at_job by fastforce
  obtain x r1 where F: "finish w k v r = (x, r1)" by fastforce
  have "job_at (view r1) = (job_at (view r))(k \<mapsto> verdict_job v j) \<or> job_at (view r1) = job_at (view r)"
    using redis_laws.finish_verdict [OF laws refl j F] by blast
  moreover have "job_ok (verdict_job v j)" using ok(3) Finishing by simp
  ultimately have "typed_store (view r1)" using ok(2) typed_upd typed_same by metis
  then show ?thesis using st Finishing F by simp
next
  case (Attempt k lid req n err)
  then show ?thesis using st ok by (cases n) (auto split: prod.splits sum.splits)
qed (use st ok in \<open>auto split: option.splits\<close>)

lemma typed_step:
  assumes "redis_laws (w_rdb w) view" and inv: "sys_inv view s" and "sys_step w view s s'"
    and "typed_store (view (sy_r s))" and "\<forall>p \<in> set (sy_pcs s). pc_typed p"
  shows "typed_store (view (sy_r s')) \<and> (\<forall>p \<in> set (sy_pcs s'). pc_typed p)"
  using assms(3)
proof cases
  case (submit j err r')
  have "rv_hash (view (sy_r s)) (jobKey (job_ID j)) = []" using sys_invD(5) [OF inv submit(2)] .
  then have "job_at (fold redis_exec (enqueue_cmds j) (view (sy_r s))) =
      (job_at (view (sy_r s)))(job_ID j \<mapsto> queued_job j)"
    using job_at_enqueue by (intro fun_eqI) (simp del: fold.simps)
  moreover have "view r' = view (sy_r s) \<or> view r' = fold redis_exec (enqueue_cmds j) (view (sy_r s))"
    using submit(3) redis_laws.tx_ok [OF assms(1)] redis_laws.tx_err [OF assms(1)]
    by (cases err) (auto simp only: Enqueue_cmds)
  ultimately have "typed_store (view r')" using assms(4) typed_upd [OF _ assms(4) job_ok_queued] by metis
  then show ?thesis using submit(1) assms(5) by simp
next
  case (work i d p' r' e')
  have p: "sy_pcs s ! i \<in> set (sy_pcs s)" using work(2) by simp
  have "typed_store (view r') \<and> pc_typed p'"
    using wstep_typed [OF assms(1) sys_invD(3) [OF inv p] assms(4) _ work(3)] assms(5) p by blast
  then show ?thesis using work(1) assms(5) set_update_subset_insert [of "sy_pcs s" i p'] by auto
next
  case (expire r' k)
  have "job_at (view r') k' = Some j \<Longrightarrow> job_at (view (sy_r s)) k' = Some j" for k' j
    using expire(2)
    by (auto simp: expire_key_def job_at_def load_hash_def split: if_splits)
  then show ?thesis using expire(1) assms(4,5) by (auto simp: typed_store_def)
qed

section \<open>Properties\<close>

text \<open>
  C23. Stored jobs are well formed: from a store whose jobs are, every state that submissions,
  worker steps and expiries reach, in any interleaving and with any failures, holds only
  jobs with one of the four statuses and the fields that belong to it: no outcome before the
  end, no error message on a job that is done, no results on one that failed.
\<close>

theorem stored_jobs_typed:
  assumes "redis_laws (w_rdb w) view" and "sound_store (view r) seen" and "typed_store (view r)"
    and "(sys_step w view)\<^sup>*\<^sup>* (sys_init (w_cfg w) r e seen) s" and "job_at (view (sy_r s)) k = Some j"
  shows "job_ok j"
proof -
  from assms(4) have "sys_reachable w view s \<and> typed_store (view (sy_r s)) \<and> (\<forall>p \<in> set (sy_pcs s). pc_typed p)"
  proof induction
    case base
    have "sys_reachable w view (sys_init (w_cfg w) r e seen)" by (rule sys_reachable.init [of view r seen, OF assms(2)])
    then show ?case using assms(3) by (simp add: sys_init_def)
  next
    case (step s1 s2)
    then show ?case
      using typed_step [OF assms(1) reachable_inv [OF assms(1)]] sys_reachable.step by blast
  qed
  with assms(5) show ?thesis by (simp add: typed_store_def)
qed

lemma stored_jobs_typed_witness: "job_ok (queued_job sample_job)"
proof -
  have "redis_laws (w_rdb demo_worker) (\<lambda>v. v)" by (simp add: mem_laws)
  moreover have "typed_store empty_view" by (simp add: typed_store_def job_at_def empty_view_def load_hash_def)
  moreover have "(sys_step demo_worker (\<lambda>v. v))\<^sup>*\<^sup>* (sys_init (w_cfg demo_worker) empty_view 0 []) demo_submitted"
    using sys_step.submit [where s = demo_start and j = sample_job and w = demo_worker and view = "\<lambda>v. v"]
      sample_steps(1)
    by (intro r_into_rtranclp) (simp add: demo_submitted_def demo_start_def sys_init_def sample_job_def)
  moreover have "job_at (sy_r demo_submitted) ''j1'' = Some (queued_job sample_job)"
    by (simp add: demo_got_simps sample_state_job)
  ultimately show ?thesis
    using stored_jobs_typed [of demo_worker "\<lambda>v. v" empty_view "[]"] sound_store_empty by blast
qed

end
