(* ===== verification/Api.thy ===== *)
theory Api
  imports Worker
begin

text \<open>
  \<^verbatim>\<open>api/\<close>: the HTTP handlers. A handler maps the request and the Redis state to a response
  and the new state. The text of a JSON error, the ULID of a submission and the text of a
  queue error come from libraries: they are parameters. The router is a table of routes; the
  matching is the chi library's.
\<close>

section \<open>Responses\<close>

record http_response =
  hr_code :: nat
  hr_json :: bool
  hr_body :: string

definition newline :: string where
  "newline = [CHR 0x0A]"

text \<open>\<^verbatim>\<open>json.NewEncoder(w).Encode(v)\<close> ends the value with a newline.\<close>

definition json_response :: "nat \<Rightarrow> json \<Rightarrow> http_response" where
  "json_response code v = \<lparr>hr_code = code, hr_json = True, hr_body = jprint v @ newline\<rparr>"

definition writeErr :: "nat \<Rightarrow> string \<Rightarrow> http_response" where
  "writeErr code msg = json_response code (JObj [(''error'', JStr msg)])"

section \<open>POST /exec\<close>

record execRequest =
  er_Language :: string
  er_Source :: string
  er_Stdins :: "string slice"
  er_TimeLimitMs :: gint
  er_MemoryLimitMb :: gint

definition zero_execRequest :: execRequest where
  "zero_execRequest = \<lparr>er_Language = [], er_Source = [], er_Stdins = None, er_TimeLimitMs = 0,
     er_MemoryLimitMb = 0\<rparr>"

definition execRequest_fields :: "(string \<times> execRequest field) list" where
  "execRequest_fields =
     [(''language'', \<lambda>v r. map_option (\<lambda>x. r\<lparr>er_Language := x\<rparr>) (dec_string v (er_Language r))),
      (''source'', \<lambda>v r. map_option (\<lambda>x. r\<lparr>er_Source := x\<rparr>) (dec_string v (er_Source r))),
      (''stdins'', \<lambda>v r. map_option (\<lambda>x. r\<lparr>er_Stdins := x\<rparr>) (dec_slice (\<lambda>u. dec_string u []) v)),
      (''time_limit_ms'', \<lambda>v r. map_option (\<lambda>x. r\<lparr>er_TimeLimitMs := x\<rparr>) (dec_int v (er_TimeLimitMs r))),
      (''memory_limit_mb'', \<lambda>v r. map_option (\<lambda>x. r\<lparr>er_MemoryLimitMb := x\<rparr>) (dec_int v (er_MemoryLimitMb r)))]"

definition enc_execRequest :: "execRequest \<Rightarrow> json" where
  "enc_execRequest r = JObj
     [(''language'', JStr (er_Language r)), (''source'', JStr (er_Source r)),
      (''stdins'', enc_slice JStr (er_Stdins r)), (''time_limit_ms'', JNum (itoa (er_TimeLimitMs r))),
      (''memory_limit_mb'', JNum (itoa (er_MemoryLimitMb r)))]"

definition validate :: "execRequest \<Rightarrow> string option" where
  "validate r =
     (if er_Language r = [] then Some ''language is required''
      else if er_Source r = [] then Some ''source is required''
      else if length (elems (er_Stdins r)) = 0 then Some ''stdins must contain at least one entry''
      else None)"

text \<open>
  Decoding the body. With a positive limit the decoder sees that many bytes at most; a value
  that is not complete in them fails with \<^verbatim>\<open>MaxBytesError\<close> when there are more. The end of an
  object or an array shows in its last byte, that of any other value only in the byte after it.
\<close>

datatype body_error = TooLarge | InvalidJson

definition open_ended :: "json \<Rightarrow> string \<Rightarrow> bool" where
  "open_ended v rest \<longleftrightarrow> rest = [] \<and> (case v of JObj _ \<Rightarrow> False | JArr _ \<Rightarrow> False | _ \<Rightarrow> True)"

definition decode_body :: "gint \<Rightarrow> string \<Rightarrow> body_error + execRequest" where
  "decode_body limit body =
     (let capped = 0 < sint limit;
          seen = (if capped then take (nat (sint limit)) body else body);
          cut = (capped \<and> sint limit < int (length body))
      in case jrun [] EValue seen of
           Bad \<Rightarrow> Inl InvalidJson
         | More \<Rightarrow> Inl (if cut then TooLarge else InvalidJson)
         | Done v rest \<Rightarrow>
             if cut \<and> open_ended v rest then Inl TooLarge
             else (case dec_struct True execRequest_fields v zero_execRequest of
                     None \<Rightarrow> Inl InvalidJson
                   | Some req \<Rightarrow> Inr req))"

record 'r Server =
  sv_cfg :: Config
  sv_reg :: Registry
  sv_rdb :: "'r redis_client"

definition new_job :: "string \<Rightarrow> execRequest \<Rightarrow> Job" where
  "new_job jid req =
     \<lparr>job_ID = jid, job_Language = er_Language req, job_Source = er_Source req,
      job_Stdins = er_Stdins req, job_TimeLimitMs = er_TimeLimitMs req,
      job_MemoryLimitMb = er_MemoryLimitMb req, job_Status = StatusQueued,
      job_Error = [], job_CompileError = [], job_Results = None\<rparr>"

definition exec ::
    "'r Server \<Rightarrow> (string \<Rightarrow> string) \<Rightarrow> string + string \<Rightarrow> string \<Rightarrow> 'r \<Rightarrow> http_response \<times> 'r" where
  "exec s json_err ulid body r =
     (case decode_body (cfg_MaxRequestBytes (sv_cfg s)) body of
        Inl TooLarge \<Rightarrow>
          (writeErr 413 (''request body exceeds '' @ itoa (cfg_MaxRequestBytes (sv_cfg s)) @ '' bytes''), r)
      | Inl InvalidJson \<Rightarrow> (writeErr 400 (''invalid json: '' @ json_err body), r)
      | Inr req \<Rightarrow>
          (case validate req of
             Some e \<Rightarrow> (writeErr 400 e, r)
           | None \<Rightarrow>
               (case Get (sv_reg s) (er_Language req) of
                  None \<Rightarrow> (writeErr 400 (''unknown language: '' @ er_Language req), r)
                | Some l \<Rightarrow>
                    (case ulid of
                       Inl e \<Rightarrow> (writeErr 500 (''id: '' @ e), r)
                     | Inr jid \<Rightarrow>
                         (case Enqueue (sv_rdb s) (new_job jid req) r of
                            (Some e, r') \<Rightarrow> (writeErr 500 (''enqueue: '' @ e), r')
                          | (None, r') \<Rightarrow> (json_response 202 (JObj [(''id'', JStr jid)]), r'))))))"

section \<open>GET /status/{id}\<close>

record statusResponse =
  sr_ID :: string
  sr_Language :: string
  sr_Status :: string
  sr_CompileError :: string
  sr_Error :: string
  sr_Results :: "CaseResult slice"

definition enc_statusResponse :: "statusResponse \<Rightarrow> json" where
  "enc_statusResponse p = JObj
     ([(''id'', JStr (sr_ID p)), (''language'', JStr (sr_Language p)), (''status'', JStr (sr_Status p))] @
      omitempty (sr_CompileError p = []) (''compile_error'', JStr (sr_CompileError p)) @
      omitempty (sr_Error p = []) (''error'', JStr (sr_Error p)) @
      [(''results'', enc_slice enc_CaseResult (sr_Results p))])"

definition status_of :: "Job \<Rightarrow> statusResponse" where
  "status_of job =
     \<lparr>sr_ID = job_ID job, sr_Language = job_Language job, sr_Status = job_Status job,
      sr_CompileError = job_CompileError job, sr_Error = job_Error job,
      sr_Results = (if job_Results job = None then Some [] else job_Results job)\<rparr>"

definition status :: "'r Server \<Rightarrow> (queue_error \<Rightarrow> string) \<Rightarrow> string \<Rightarrow> 'r \<Rightarrow> http_response \<times> 'r" where
  "status s err_text jid r =
     (if jid = [] then (writeErr 400 ''missing id'', r)
      else case Load (sv_rdb s) jid r of
             (Inl e, r') \<Rightarrow>
               (if e = NotFound then writeErr 404 ''job not found'' else writeErr 500 (err_text e), r')
           | (Inr job, r') \<Rightarrow> (json_response 200 (enc_statusResponse (status_of job)), r'))"

section \<open>The other routes\<close>

definition health :: http_response where
  "health = \<lparr>hr_code = 200, hr_json = False,
     hr_body = [CHR 0x7B, CHR 0x22] @ ''status'' @ [CHR 0x22, CHR '':'', CHR 0x22] @ ''ok'' @ [CHR 0x22, CHR 0x7D]\<rparr>"

definition languages :: "'r Server \<Rightarrow> http_response" where
  "languages s = json_response 200 (enc_slice enc_PublicView (Some (PublicAll (sv_reg s))))"

datatype route = RHealth | RLanguages | RExec | RStatus

definition Router :: "(string \<times> string \<times> route) list" where
  "Router =
     [(''GET'', ''/healthz'', RHealth), (''GET'', ''/languages'', RLanguages),
      (''POST'', ''/exec'', RExec), (''GET'', ''/status/{id}'', RStatus)]"

section \<open>Properties\<close>

lemma exec_cases:
  assumes "exec s je ulid body r = (resp, r')"
  obtains (rejected) "hr_code resp \<noteq> 202" "r' = r"
    | (failed) jid req e where "hr_code resp = 500" "ulid = Inr jid"
        "Enqueue (sv_rdb s) (new_job jid req) r = (Some e, r')"
    | (accepted) jid req l where "resp = json_response 202 (JObj [(''id'', JStr jid)])" "ulid = Inr jid"
        "decode_body (cfg_MaxRequestBytes (sv_cfg s)) body = Inr req" "validate req = None"
        "Get (sv_reg s) (er_Language req) = Some l"
        "Enqueue (sv_rdb s) (new_job jid req) r = (None, r')"
proof (cases "decode_body (cfg_MaxRequestBytes (sv_cfg s)) body")
  case (Inl e)
  then show thesis using assms rejected
    by (cases e) (auto simp: exec_def writeErr_def json_response_def)
next
  case (Inr req)
  show thesis
  proof (cases "validate req = None \<and> Get (sv_reg s) (er_Language req) \<noteq> None \<and> \<not> isl ulid")
    case False
    then show thesis using assms rejected Inr
      by (auto simp: exec_def writeErr_def json_response_def isl_def split: option.splits sum.splits)
  next
    case True
    then obtain l jid where l: "validate req = None" "Get (sv_reg s) (er_Language req) = Some l" "ulid = Inr jid"
      by (cases ulid) auto
    obtain e q where E: "Enqueue (sv_rdb s) (new_job jid req) r = (e, q)" by fastforce
    show thesis
    proof (cases e)
      case None
      with E have "Enqueue (sv_rdb s) (new_job jid req) r = (None, r')"
        and "resp = json_response 202 (JObj [(''id'', JStr jid)])"
        using assms Inr l by (simp_all add: exec_def)
      from accepted [OF this(2) l(3) Inr l(1,2) this(1)] show thesis .
    next
      case (Some m)
      with E have "Enqueue (sv_rdb s) (new_job jid req) r = (Some m, r')" and "hr_code resp = 500"
        using assms Inr l by (auto simp: exec_def writeErr_def json_response_def)
      from failed [OF this(2) l(3) this(1)] show thesis .
    qed
  qed
qed

text \<open>
  C29. A submission is accepted all or nothing: the answer is 202 exactly when the body decodes
  within the limit, is valid, names a known language and could be stored; then the queued
  job is stored under the id of the answer and that id joins the work list. With any other
  answer the store is as it was, or, after a failed write, as if the job had been accepted.
\<close>

theorem exec_stores:
  assumes "redis_laws (sv_rdb s) view" and "rv_hash (view r) (jobKey jid) = []"
    and "exec s je (Inr jid) body r = (resp, r')"
  shows "if hr_code resp = 202
    then (\<exists>req l. decode_body (cfg_MaxRequestBytes (sv_cfg s)) body = Inr req \<and> validate req = None \<and>
        Get (sv_reg s) (er_Language req) = Some l \<and>
        job_at (view r') = (job_at (view r))(jid \<mapsto> queued_job (new_job jid req)) \<and>
        pending (view r') = pending (view r) @ [jid] \<and>
        hr_body resp = jprint (JObj [(''id'', JStr jid)]) @ newline)
    else view r' = view r \<or>
      hr_code resp = 500 \<and> (\<exists>req. view r' = fold redis_exec (enqueue_cmds (new_job jid req)) (view r))"
  using assms(3)
proof (cases rule: exec_cases)
  case rejected
  then show ?thesis by simp
next
  case (failed jid' req e)
  then have "view r' = view r \<or> view r' = fold redis_exec (enqueue_cmds (new_job jid req)) (view r)"
    using redis_laws.tx_err [OF assms(1), of "enqueue_cmds (new_job jid req)" r e r'] by (simp only: Enqueue_cmds sum.inject)
  with failed(1) show ?thesis by auto
next
  case (accepted jid' req l)
  have jid: "job_ID (new_job jid' req) = jid" using accepted(2) by (simp add: new_job_def)
  note v = redis_laws.Enqueue_view [OF assms(1) accepted(6)]
  have "job_at (view r') = (job_at (view r))(jid \<mapsto> queued_job (new_job jid' req))"
    by (rule fun_eqI) (use job_at_enqueue [of "view r" "new_job jid' req"] assms(2) jid v in simp)
  moreover have "pending (view r') = pending (view r) @ [jid]"
    using pending_enqueue [of "new_job jid' req"] jid v by simp
  ultimately show ?thesis using accepted by (auto simp: json_response_def)
qed

text \<open>A request as the server decodes it: its strings valid UTF-8.\<close>

definition wire_execRequest :: "execRequest \<Rightarrow> execRequest" where
  "wire_execRequest r = r\<lparr>er_Language := utf8_fix (er_Language r), er_Source := utf8_fix (er_Source r),
     er_Stdins := map_option (map utf8_fix) (er_Stdins r)\<rparr>"

lemma dec_execRequest_enc:
  "dec_struct True execRequest_fields (jfix (enc_execRequest r)) zero_execRequest = Some (wire_execRequest r)"
  by (simp add: enc_execRequest_def dec_struct_def execRequest_fields_def find_field_def
      zero_execRequest_def wire_execRequest_def)

lemma execRequest_json: "json_ok (enc_execRequest r)" "jdepth (enc_execRequest r) \<le> max_depth"
proof -
  show "json_ok (enc_execRequest r)" by (simp add: enc_execRequest_def json_ok_enc_slice)
  have "jdepth (enc_slice JStr xs) \<le> 1" for xs
    using jdepth_enc_slice [of JStr 0] by simp
  from this [of "er_Stdins r"] show "jdepth (enc_execRequest r) \<le> max_depth"
    by (simp add: enc_execRequest_def max_depth_def)
qed

text \<open>
  A client that sends the request as JSON is understood: with the limit off, or a body that
  fits in it, decoding the encoded request gives it back with its strings made valid UTF-8.
\<close>

theorem decode_body_roundtrip:
  assumes "sint limit \<le> 0 \<or> int (length (jprint (enc_execRequest req))) \<le> sint limit"
  shows "decode_body limit (jprint (enc_execRequest req)) = Inr (wire_execRequest req)"
proof -
  have "(if 0 < sint limit then take (nat (sint limit)) (jprint (enc_execRequest req))
      else jprint (enc_execRequest req)) = jprint (enc_execRequest req)"
    using assms by auto
  moreover have "jrun [] EValue (jprint (enc_execRequest req)) = Done (jfix (enc_execRequest req)) []"
    using jrun_jprint [OF execRequest_json, of "[]"] by simp
  ultimately show ?thesis
    using assms by (simp add: decode_body_def Let_def dec_execRequest_enc) auto
qed

lemma decode_body_roundtrip_witness:
  "decode_body 0 (jprint (enc_execRequest zero_execRequest)) = Inr (wire_execRequest zero_execRequest)"
  by (rule decode_body_roundtrip) simp

section \<open>Status\<close>

lemma statusResponse_json: "json_ok (enc_statusResponse p)" "jdepth (enc_statusResponse p) \<le> max_depth"
proof -
  show "json_ok (enc_statusResponse p)"
    by (simp add: enc_statusResponse_def omitempty_def json_ok_enc_slice)
  have "jdepth (enc_slice enc_CaseResult xs) \<le> 2" for xs
    using jdepth_enc_slice [of enc_CaseResult 1] jdepth_enc(2) by (simp add: numeral_2_eq_2)
  then have "jdepth (enc_slice enc_CaseResult xs) \<le> 9999" for xs
    by (rule order_trans) simp
  then show "jdepth (enc_statusResponse p) \<le> max_depth"
    by (simp add: enc_statusResponse_def omitempty_def max_depth_def)
qed


section \<open>Witnesses\<close>

definition sample_server :: "redis_view Server" where
  "sample_server = \<lparr>sv_cfg = sample_config\<lparr>cfg_MaxRequestBytes := 0\<rparr>, sv_reg = python_registry, sv_rdb = mem_redis\<rparr>"

lemma sample_server_simps [simp]:
  "sv_rdb sample_server = mem_redis" "sv_reg sample_server = python_registry"
  "cfg_MaxRequestBytes (sv_cfg sample_server) = 0"
  by (simp_all add: sample_server_def)

definition sample_request :: execRequest where
  "sample_request = \<lparr>er_Language = ''py'', er_Source = ''print(1)'', er_Stdins = Some [''a''],
     er_TimeLimitMs = 0, er_MemoryLimitMb = 0\<rparr>"

lemma sample_exec:
  "exec sample_server je (Inr ''j1'') (jprint (enc_execRequest sample_request)) empty_view =
    (json_response 202 (JObj [(''id'', JStr ''j1'')]),
     snd (Enqueue mem_redis (new_job ''j1'' sample_request) empty_view))"
proof -
  have "wire_execRequest sample_request = sample_request"
    by (simp add: wire_execRequest_def sample_request_def valid_utf8_fix valid_utf8_ascii)
  then have "decode_body 0 (jprint (enc_execRequest sample_request)) = Inr sample_request"
    using decode_body_roundtrip [of 0 sample_request] by simp
  moreover have "validate sample_request = None" "Get python_registry (er_Language sample_request) = Some python_lang"
    by (simp_all add: validate_def sample_request_def Get_def python_registry_def)
  ultimately show ?thesis by (simp add: exec_def Enqueue_mem del: fold.simps)
qed

lemma exec_stores_witness:
  "pending (snd (exec sample_server (\<lambda>_. []) (Inr ''j1'') (jprint (enc_execRequest sample_request)) empty_view)) = [''j1'']"
proof -
  have "redis_laws (sv_rdb sample_server) (\<lambda>v. v)" by (simp add: mem_laws)
  moreover have "rv_hash empty_view (jobKey ''j1'') = []" by (simp add: empty_view_def)
  ultimately show ?thesis
    using exec_stores [where view = "\<lambda>v. v", OF _ _ sample_exec]
    by (simp add: json_response_def sample_exec sample_steps(3)) blast
qed


end
