(* ===== verification/Firecracker.thy ===== *)
theory Firecracker
  imports Go_Path Go_Json_RT Config "HOL-Library.Sublist"
begin

text \<open>
  \<^verbatim>\<open>firecracker/driver.go\<close>: booting and killing a MicroVM. The host (file system, processes,
  the Firecracker API behind its socket, the clock) is a parameter: a record of the calls
  \<^verbatim>\<open>Boot\<close> makes. \<open>host_laws\<close> states what they do to the running processes and to the
  directories; from it follows what a boot leaves behind.
\<close>

record VM =
  vm_ID :: string
  vm_LanguageID :: string
  vm_WorkDir :: string
  vm_APISocket :: string
  vm_VsockUDS :: string
  vm_pid :: nat

record BootOptions =
  bo_FirecrackerBin :: string
  bo_KernelPath :: string
  bo_RootfsPath :: string
  bo_WorkDir :: string
  bo_Vcpus :: gint
  bo_MemMB :: gint
  bo_LanguageID :: string

text \<open>
  The host's calls. \<open>h_stat\<close> says whether the file is there and how long the call took,
  \<open>h_sleep\<close> waits on the context or 25 ms and says whether the context was done first,
  \<open>h_do\<close> is one HTTP request: an error, or the status code and text of the response.
\<close>

record 'h host =
  h_pid :: nat
  h_mkdir_all :: "string \<Rightarrow> 'h \<Rightarrow> string option \<times> 'h"
  h_remove :: "string \<Rightarrow> 'h \<Rightarrow> 'h"
  h_start :: "string \<Rightarrow> string list \<Rightarrow> 'h \<Rightarrow> (string + nat) \<times> 'h"
  h_stat :: "string \<Rightarrow> 'h \<Rightarrow> (bool \<times> nat) \<times> 'h"
  h_sleep :: "'h \<Rightarrow> string option \<times> 'h"
  h_do :: "string \<Rightarrow> string \<Rightarrow> string \<Rightarrow> 'h \<Rightarrow> (string + nat \<times> string) \<times> 'h"
  h_cp :: "string \<Rightarrow> string \<Rightarrow> 'h \<Rightarrow> bool \<times> 'h"
  h_open :: "string \<Rightarrow> 'h \<Rightarrow> string option \<times> 'h"
  h_create :: "string \<Rightarrow> 'h \<Rightarrow> string option \<times> 'h"
  h_copy :: "string \<Rightarrow> string \<Rightarrow> 'h \<Rightarrow> string option \<times> 'h"
  h_sync :: "string \<Rightarrow> 'h \<Rightarrow> string option \<times> 'h"
  h_kill :: "nat \<Rightarrow> 'h \<Rightarrow> 'h"
  h_remove_all :: "string \<Rightarrow> 'h \<Rightarrow> 'h"

section \<open>Helpers\<close>

text \<open>The loop of \<^verbatim>\<open>waitForSocket\<close>: the file appears, the time is up, or the context is done.\<close>

abbreviation poll_pause :: int where
  "poll_pause \<equiv> 25000000"

function wait_loop :: "'h host \<Rightarrow> string \<Rightarrow> int \<Rightarrow> int \<Rightarrow> 'h \<Rightarrow> string option \<times> 'h" where
  "wait_loop h path deadline now st =
     (case h_stat h path st of
        ((there, dt), st1) \<Rightarrow>
          if there then (None, st1)
          else if deadline < now + int dt then (Some ''timed out waiting for firecracker api socket'', st1)
          else (case h_sleep h st1 of
                  (Some e, st2) \<Rightarrow> (Some e, st2)
                | (None, st2) \<Rightarrow> wait_loop h path deadline (now + int dt + poll_pause) st2))"
  by pat_completeness auto
termination
  by (relation "measure (\<lambda>(h, path, deadline, now, st). nat (deadline + 1 - now))") auto

declare wait_loop.simps [simp del]

definition waitForSocket :: "'h host \<Rightarrow> string \<Rightarrow> gint \<Rightarrow> int \<Rightarrow> 'h \<Rightarrow> string option \<times> 'h" where
  "waitForSocket h path timeout now st = wait_loop h path (now + sint timeout) now st"

text \<open>One PUT: a status of 300 or more is an error.\<close>

definition put :: "'h host \<Rightarrow> string \<Rightarrow> string \<Rightarrow> json \<Rightarrow> 'h \<Rightarrow> string option \<times> 'h" where
  "put h sock path body st =
     (case h_do h sock path (jprint body) st of
        (Inl e, st') \<Rightarrow> (Some e, st')
      | (Inr (code, status), st') \<Rightarrow>
          if 300 \<le> code then (Some (''firecracker API '' @ path @ '' -> '' @ status), st')
          else (None, st'))"

definition cloneFile :: "'h host \<Rightarrow> string \<Rightarrow> string \<Rightarrow> 'h \<Rightarrow> string option \<times> 'h" where
  "cloneFile h src dst st =
     (case h_cp h src dst st of
        (True, st1) \<Rightarrow> (None, st1)
      | (False, st1) \<Rightarrow>
          (case h_open h src st1 of
             (Some e, st2) \<Rightarrow> (Some e, st2)
           | (None, st2) \<Rightarrow>
               (case h_create h dst st2 of
                  (Some e, st3) \<Rightarrow> (Some e, st3)
                | (None, st3) \<Rightarrow>
                    (case h_copy h src dst st3 of
                       (Some e, st4) \<Rightarrow> (Some e, st4)
                     | (None, st4) \<Rightarrow> h_sync h dst st4))))"

text \<open>What every call of \<^verbatim>\<open>cloneFile\<close> keeps, it keeps.\<close>

lemma cloneFile_inv:
  assumes "\<And>s. I s \<Longrightarrow> I (snd (h_cp h src dst s))" "\<And>s. I s \<Longrightarrow> I (snd (h_open h src s))"
    "\<And>s. I s \<Longrightarrow> I (snd (h_create h dst s))" "\<And>s. I s \<Longrightarrow> I (snd (h_copy h src dst s))"
    "\<And>s. I s \<Longrightarrow> I (snd (h_sync h dst s))" "I st"
  shows "I (snd (cloneFile h src dst st))"
proof -
  obtain b st1 where 1: "h_cp h src dst st = (b, st1)" by fastforce
  obtain e2 st2 where 2: "h_open h src st1 = (e2, st2)" by fastforce
  obtain e3 st3 where 3: "h_create h dst st2 = (e3, st3)" by fastforce
  obtain e4 st4 where 4: "h_copy h src dst st3 = (e4, st4)" by fastforce
  have "I st1" "I st2" "I st3" "I st4" "I (snd (h_sync h dst st4))"
    using assms(1) [OF assms(6)] 1 assms(2) [of st1] 2 assms(3) [of st2] 3 assms(4) [of st3] 4 assms(5) [of st4]
    by simp_all
  then show ?thesis
    by (cases b; cases e2; cases e3; cases e4) (simp_all add: cloneFile_def 1 2 3 4)
qed

text \<open>\<^verbatim>\<open>Kill\<close> on \<^verbatim>\<open>nil\<close> does nothing.\<close>

definition Kill :: "'h host \<Rightarrow> VM option \<Rightarrow> 'h \<Rightarrow> 'h" where
  "Kill h v st =
     (case v of
        None \<Rightarrow> st
      | Some vm \<Rightarrow>
          (let st1 = h_kill h (vm_pid vm) st
           in if vm_WorkDir vm \<noteq> [] then h_remove_all h (vm_WorkDir vm) st1 else st1))"

section \<open>Boot\<close>

text \<open>The driver: its binary, and the counter behind the ids.\<close>

record Driver =
  drv_bin :: string
  drv_seq :: "64 word"

definition NewDriver :: "string \<Rightarrow> Driver" where
  "NewDriver firecrackerBin = \<lparr>drv_bin = firecrackerBin, drv_seq = 0\<rparr>"

definition nextID :: "'h host \<Rightarrow> 64 word \<Rightarrow> string \<times> 64 word" where
  "nextID h s = (''vm-'' @ nat_dec (h_pid h) @ ''-'' @ nat_dec (unat (s + 1)), s + 1)"

text \<open>The request bodies; \<^verbatim>\<open>json.Marshal\<close> writes the keys of a map in order.\<close>

definition machine_config :: "BootOptions \<Rightarrow> json" where
  "machine_config opt = JObj
     [(''mem_size_mib'', JNum (itoa (bo_MemMB opt))), (''vcpu_count'', JNum (itoa (bo_Vcpus opt)))]"

definition boot_source :: "BootOptions \<Rightarrow> json" where
  "boot_source opt = JObj
     [(''boot_args'', JStr ''console=ttyS0 reboot=k panic=1 pci=off init=/sbin/dreddagent-init''),
      (''kernel_image_path'', JStr (bo_KernelPath opt))]"

definition root_drive :: "string \<Rightarrow> json" where
  "root_drive path = JObj
     [(''drive_id'', JStr ''rootfs''), (''is_read_only'', JBool False), (''is_root_device'', JBool True),
      (''path_on_host'', JStr path)]"

definition vsock_device :: "string \<Rightarrow> json" where
  "vsock_device uds = JObj [(''guest_cid'', JNum ''3''), (''uds_path'', JStr uds)]"

definition instance_start :: json where
  "instance_start = JObj [(''action_type'', JStr ''InstanceStart'')]"

text \<open>A step that fails kills the VM and ends the boot with its error under a label.\<close>

definition or_kill ::
    "'h host \<Rightarrow> VM \<Rightarrow> string \<Rightarrow> string option \<times> 'h \<Rightarrow> ('h \<Rightarrow> (string + VM) \<times> 'h) \<Rightarrow> (string + VM) \<times> 'h" where
  "or_kill h vm label r k =
     (case r of
        (Some e, st) \<Rightarrow> (Inl (label @ e), Kill h (Some vm) st)
      | (None, st) \<Rightarrow> k st)"

text \<open>The configuration of a started VM, up to \<^verbatim>\<open>InstanceStart\<close>.\<close>

definition configure :: "'h host \<Rightarrow> BootOptions \<Rightarrow> VM \<Rightarrow> int \<Rightarrow> 'h \<Rightarrow> (string + VM) \<times> 'h" where
  "configure h opt vm now st =
     (let sock = vm_APISocket vm; perVMRootfs = Join (bo_WorkDir opt) ''rootfs.ext4'' in
      or_kill h vm [] (waitForSocket h sock (5 * Second) now st) (\<lambda>st.
      or_kill h vm ''machine-config: '' (put h sock ''/machine-config'' (machine_config opt) st) (\<lambda>st.
      or_kill h vm ''boot-source: '' (put h sock ''/boot-source'' (boot_source opt) st) (\<lambda>st.
      or_kill h vm ''clone rootfs: '' (cloneFile h (bo_RootfsPath opt) perVMRootfs st) (\<lambda>st.
      or_kill h vm ''drives: '' (put h sock ''/drives/rootfs'' (root_drive perVMRootfs) st) (\<lambda>st.
      or_kill h vm ''vsock: '' (put h sock ''/vsock'' (vsock_device (vm_VsockUDS vm)) st) (\<lambda>st.
      or_kill h vm ''InstanceStart: '' (put h sock ''/actions'' instance_start st) (\<lambda>st.
      (Inr vm, st)))))))))"

definition Boot :: "'h host \<Rightarrow> string \<Rightarrow> BootOptions \<Rightarrow> int \<Rightarrow> 64 word \<Rightarrow> 'h \<Rightarrow> (string + VM) \<times> 64 word \<times> 'h" where
  "Boot h bin opt now s st =
     (let prog = (if bo_FirecrackerBin opt = [] then bin else bo_FirecrackerBin opt);
          (e1, st1) = h_mkdir_all h (bo_WorkDir opt) st
      in case e1 of
           Some e \<Rightarrow> (Inl e, s, st1)
         | None \<Rightarrow>
             (let (vid, s') = nextID h s;
                  apiSocket = Join (bo_WorkDir opt) ''fc.sock'';
                  vsockUDS = Join (bo_WorkDir opt) ''vsock.sock'';
                  st2 = h_remove h vsockUDS (h_remove h apiSocket st1);
                  (started, st3) = h_start h prog [''--api-sock'', apiSocket, ''--id'', vid] st2
              in case started of
                   Inl e \<Rightarrow> (Inl (''start firecracker: '' @ e), s', st3)
                 | Inr pid \<Rightarrow>
                     (let vm = \<lparr>vm_ID = vid, vm_LanguageID = bo_LanguageID opt, vm_WorkDir = bo_WorkDir opt,
                                vm_APISocket = apiSocket, vm_VsockUDS = vsockUDS, vm_pid = pid\<rparr>;
                          (res, st4) = configure h opt vm now st3
                      in (res, s', st4))))"

section \<open>What the host promises\<close>

text \<open>
  The documented effect of the calls on the running processes and on the directories: only
  a start adds a process, only a kill removes one, only a removal removes a directory.
\<close>

locale host_laws =
  fixes h :: "'h host"
    and procs :: "'h \<Rightarrow> nat set"
    and dirs :: "'h \<Rightarrow> string set"
  assumes start_ok: "h_start h prog args st = (Inr pid, st') \<Longrightarrow>
      pid \<notin> procs st \<and> procs st' = insert pid (procs st) \<and> dirs st' = dirs st"
    and start_err: "h_start h prog args st = (Inl e, st') \<Longrightarrow> procs st' = procs st \<and> dirs st' = dirs st"
    and kill: "procs (h_kill h pid st) = procs st - {pid} \<and> dirs (h_kill h pid st) = dirs st"
    and remove_all: "procs (h_remove_all h d st) = procs st \<and> dirs (h_remove_all h d st) = dirs st - {d}"
    and mkdir_all: "procs (snd (h_mkdir_all h d st)) = procs st \<and>
      dirs (snd (h_mkdir_all h d st)) \<supseteq> dirs st \<and>
      (fst (h_mkdir_all h d st) = None \<longrightarrow> d \<in> dirs (snd (h_mkdir_all h d st)))"
    and remove: "procs (h_remove h f st) = procs st \<and> dirs (h_remove h f st) = dirs st"
    and stat: "procs (snd (h_stat h f st)) = procs st \<and> dirs (snd (h_stat h f st)) = dirs st"
    and sleep: "procs (snd (h_sleep h st)) = procs st \<and> dirs (snd (h_sleep h st)) = dirs st"
    and req: "procs (snd (h_do h s p b st)) = procs st \<and> dirs (snd (h_do h s p b st)) = dirs st"
    and cp: "procs (snd (h_cp h f g st)) = procs st \<and> dirs (snd (h_cp h f g st)) = dirs st"
    and open_src: "procs (snd (h_open h f st)) = procs st \<and> dirs (snd (h_open h f st)) = dirs st"
    and create_dst: "procs (snd (h_create h f st)) = procs st \<and> dirs (snd (h_create h f st)) = dirs st"
    and copy: "procs (snd (h_copy h f g st)) = procs st \<and> dirs (snd (h_copy h f g st)) = dirs st"
    and sync: "procs (snd (h_sync h f st)) = procs st \<and> dirs (snd (h_sync h f st)) = dirs st"
begin

definition same :: "'h \<Rightarrow> 'h \<Rightarrow> bool" where
  "same st st' \<longleftrightarrow> procs st' = procs st \<and> dirs st' = dirs st"

lemma same_refl [simp]: "same st st" and same_trans: "same a b \<Longrightarrow> same b c \<Longrightarrow> same a c"
  by (simp_all add: same_def)

lemma wait_loop_same: "same st (snd (wait_loop h path deadline now st))"
proof (induction "nat (deadline + 1 - now)" arbitrary: now st rule: less_induct)
  case less
  obtain there dt st1 where 1: "h_stat h path st = ((there, dt), st1)" by (metis prod.collapse)
  then have s1: "same st st1" using stat [of path st] by (simp add: same_def)
  obtain e st2 where 2: "h_sleep h st1 = (e, st2)" by fastforce
  then have s2: "same st st2" using sleep [of st1] s1 by (simp add: same_def)
  show ?case
  proof (cases "there \<or> deadline < now + int dt \<or> e \<noteq> None")
    case True
    then show ?thesis using 1 2 s1 s2 by (subst wait_loop.simps) (auto split: option.split)
  next
    case False
    then have "same st2 (snd (wait_loop h path deadline (now + int dt + poll_pause) st2))"
      by (intro less) auto
    then show ?thesis
      using False 1 2 s2 by (subst wait_loop.simps) (auto intro: same_trans)
  qed
qed

lemma helpers_same:
  "same st (snd (waitForSocket h path t now st))" "same st (snd (put h sock path body st))"
  "same st (snd (cloneFile h src dst st))"
proof -
  show "same st (snd (waitForSocket h path t now st))"
    unfolding waitForSocket_def by (rule wait_loop_same)
  show "same st (snd (put h sock path body st))"
    using req [of sock path "jprint body" st] by (auto simp: put_def same_def split: prod.splits sum.splits)
  show "same st (snd (cloneFile h src dst st))"
    by (rule cloneFile_inv) (simp_all add: same_def cp open_src create_dst copy sync)
qed

text \<open>What a boot has done to the host: nothing that stays, or one process and its VM.\<close>

definition outcome :: "VM \<Rightarrow> 'h \<Rightarrow> (string + VM) \<times> 'h \<Rightarrow> bool" where
  "outcome vm st r \<longleftrightarrow>
     (case r of
        (Inr v, st') \<Rightarrow> v = vm \<and> same st st'
      | (Inl _, st') \<Rightarrow> procs st' = procs st - {vm_pid vm} \<and>
          dirs st' = (if vm_WorkDir vm = [] then dirs st else dirs st - {vm_WorkDir vm}))"

lemma Kill_effect:
  "procs (Kill h (Some vm) st) = procs st - {vm_pid vm}"
  "dirs (Kill h (Some vm) st) = (if vm_WorkDir vm = [] then dirs st else dirs st - {vm_WorkDir vm})"
  using kill remove_all by (simp_all add: Kill_def Let_def)

lemma outcome_or_kill:
  assumes "same st (snd r)" and "\<And>st'. outcome vm st' (k st')"
  shows "outcome vm st (or_kill h vm label r k)"
proof (cases r)
  case (Pair e st')
  show ?thesis
  proof (cases e)
    case None
    then show ?thesis
      using assms(2) [of st'] assms(1) Pair
      by (auto simp: or_kill_def outcome_def same_def split: prod.splits sum.splits)
  next
    case (Some m)
    then show ?thesis
      using assms(1) Pair by (simp add: or_kill_def outcome_def Kill_effect same_def)
  qed
qed

lemma configure_outcome: "outcome vm st (configure h opt vm now st)"
  unfolding configure_def Let_def
  by (intro outcome_or_kill helpers_same) (simp add: outcome_def)

end

text \<open>
  A host that keeps a record of the requests it was sent: only \<open>h_do\<close> adds to it.
\<close>

locale api_log =
  fixes h :: "'h host"
    and calls :: "'h \<Rightarrow> string list"
  assumes log_do: "calls (snd (h_do h s p b st)) = calls st @ [p]"
    and log_mkdir: "calls (snd (h_mkdir_all h d st)) = calls st"
    and log_remove: "calls (h_remove h f st) = calls st"
    and log_start: "calls (snd (h_start h prog args st)) = calls st"
    and log_stat: "calls (snd (h_stat h f st)) = calls st"
    and log_sleep: "calls (snd (h_sleep h st)) = calls st"
    and log_cp: "calls (snd (h_cp h f g st)) = calls st"
    and log_open: "calls (snd (h_open h f st)) = calls st"
    and log_create: "calls (snd (h_create h f st)) = calls st"
    and log_copy: "calls (snd (h_copy h f g st)) = calls st"
    and log_sync: "calls (snd (h_sync h f st)) = calls st"
    and log_kill: "calls (h_kill h pid st) = calls st"
    and log_remove_all: "calls (h_remove_all h d st) = calls st"
begin

lemma log_wait_loop: "calls (snd (wait_loop h path deadline now st)) = calls st"
proof (induction "nat (deadline + 1 - now)" arbitrary: now st rule: less_induct)
  case less
  obtain there dt st1 where 1: "h_stat h path st = ((there, dt), st1)" by (metis prod.collapse)
  obtain e st2 where 2: "h_sleep h st1 = (e, st2)" by fastforce
  have c: "calls st1 = calls st" "calls st2 = calls st"
    using 1 2 log_stat [of path st] log_sleep [of st1] by simp_all
  show ?case
  proof (cases "there \<or> deadline < now + int dt \<or> e \<noteq> None")
    case True
    then show ?thesis using 1 2 c by (subst wait_loop.simps) (auto split: option.split)
  next
    case False
    then have "calls (snd (wait_loop h path deadline (now + int dt + poll_pause) st2)) = calls st2"
      by (intro less) auto
    then show ?thesis using False 1 2 c by (subst wait_loop.simps) auto
  qed
qed

lemma log_helpers:
  "calls (snd (waitForSocket h path t now st)) = calls st"
  "calls (snd (put h sock path body st)) = calls st @ [path]"
  "calls (snd (cloneFile h src dst st)) = calls st"
  "calls (Kill h v st) = calls st"
proof -
  show "calls (snd (waitForSocket h path t now st)) = calls st"
    unfolding waitForSocket_def by (rule log_wait_loop)
  show "calls (snd (put h sock path body st)) = calls st @ [path]"
    using log_do [of sock path "jprint body" st] by (auto simp: put_def split: prod.splits sum.splits)
  show "calls (snd (cloneFile h src dst st)) = calls st"
    by (rule cloneFile_inv) (simp_all add: log_cp log_open log_create log_copy log_sync)
  show "calls (Kill h v st) = calls st"
    by (simp add: Kill_def log_kill log_remove_all Let_def split: option.split)
qed

text \<open>The requests a step sent: an initial part of the given ones, all of them on success.\<close>

definition sent :: "string list \<Rightarrow> 'h \<Rightarrow> (string + VM) \<times> 'h \<Rightarrow> bool" where
  "sent ps st r \<longleftrightarrow>
     (\<exists>q. calls (snd r) = calls st @ q \<and> prefix q ps \<and> (\<not> isl (fst r) \<longrightarrow> q = ps))"

lemma sent_put:
  assumes "\<And>st'. sent ps st' (k st')"
  shows "sent (p # ps) st (or_kill h vm label (put h sock p body st) k)"
proof (cases "put h sock p body st")
  case (Pair e st')
  then have c: "calls st' = calls st @ [p]" using log_helpers(2) [of sock p body st] by simp
  show ?thesis
    using assms [of st'] Pair c
    by (cases e) (auto simp: sent_def or_kill_def log_helpers(4))
qed

lemma sent_other:
  assumes "calls (snd r) = calls st" and "\<And>st'. sent ps st' (k st')"
  shows "sent ps st (or_kill h vm label r k)"
proof (cases r)
  case (Pair e st')
  then show ?thesis
    using assms(1) assms(2) [of st'] by (cases e) (auto simp: sent_def or_kill_def log_helpers(4))
qed

lemma sent_configure:
  "sent [''/machine-config'', ''/boot-source'', ''/drives/rootfs'', ''/vsock'', ''/actions''] st
     (configure h opt vm now st)"
  unfolding configure_def Let_def
  by (intro sent_other [OF log_helpers(1)] sent_other [OF log_helpers(3)] sent_put) (simp add: sent_def)

end

section \<open>A simulated host\<close>

text \<open>
  Processes, directories and requests as plain data; \<open>bad\<close> names the request that fails, and
  \<open>dead\<close> says that no process starts.
\<close>

record sim =
  sim_procs :: "nat set"
  sim_dirs :: "string set"
  sim_calls :: "string list"
  sim_next :: nat

definition sim_host :: "string \<Rightarrow> bool \<Rightarrow> sim host" where
  "sim_host bad dead =
     \<lparr>h_pid = 7,
      h_mkdir_all = (\<lambda>d s. (None, s\<lparr>sim_dirs := insert d (sim_dirs s)\<rparr>)),
      h_remove = (\<lambda>_ s. s),
      h_start = (\<lambda>_ _ s. if dead \<or> sim_next s \<in> sim_procs s then (Inl ''no such file'', s)
        else (Inr (sim_next s), s\<lparr>sim_procs := insert (sim_next s) (sim_procs s), sim_next := Suc (sim_next s)\<rparr>)),
      h_stat = (\<lambda>_ s. ((True, 0), s)),
      h_sleep = (\<lambda>s. (None, s)),
      h_do = (\<lambda>_ p _ s. (Inr (if p = bad then (400, ''400 Bad Request'') else (204, ''204 No Content'')),
        s\<lparr>sim_calls := sim_calls s @ [p]\<rparr>)),
      h_cp = (\<lambda>_ _ s. (True, s)),
      h_open = (\<lambda>_ s. (None, s)),
      h_create = (\<lambda>_ s. (None, s)),
      h_copy = (\<lambda>_ _ s. (None, s)),
      h_sync = (\<lambda>_ s. (None, s)),
      h_kill = (\<lambda>pid s. s\<lparr>sim_procs := sim_procs s - {pid}\<rparr>),
      h_remove_all = (\<lambda>d s. s\<lparr>sim_dirs := sim_dirs s - {d}\<rparr>)\<rparr>"

interpretation sim: host_laws "sim_host bad dead" sim_procs sim_dirs
  by unfold_locales (auto simp: sim_host_def split: if_splits)

interpretation sim_log: api_log "sim_host bad dead" sim_calls
  by unfold_locales (simp_all add: sim_host_def)

definition sim_start :: sim where
  "sim_start = \<lparr>sim_procs = {}, sim_dirs = {}, sim_calls = [], sim_next = 100\<rparr>"

section \<open>Booting\<close>

text \<open>The handle \<^verbatim>\<open>Boot\<close> makes for a process.\<close>

definition boot_vm :: "'h host \<Rightarrow> BootOptions \<Rightarrow> 64 word \<Rightarrow> nat \<Rightarrow> VM" where
  "boot_vm h opt s pid =
     \<lparr>vm_ID = fst (nextID h s), vm_LanguageID = bo_LanguageID opt, vm_WorkDir = bo_WorkDir opt,
      vm_APISocket = Join (bo_WorkDir opt) ''fc.sock'', vm_VsockUDS = Join (bo_WorkDir opt) ''vsock.sock'',
      vm_pid = pid\<rparr>"

lemma boot_vm_simps [simp]:
  "vm_pid (boot_vm h opt s pid) = pid" "vm_WorkDir (boot_vm h opt s pid) = bo_WorkDir opt"
  by (simp_all add: boot_vm_def)

text \<open>The attempt to start the process, in the state in which \<^verbatim>\<open>Boot\<close> makes it.\<close>

definition boot_start :: "'h host \<Rightarrow> string \<Rightarrow> BootOptions \<Rightarrow> 64 word \<Rightarrow> 'h \<Rightarrow> (string + nat) \<times> 'h" where
  "boot_start h bin opt s st =
     (let apiSocket = Join (bo_WorkDir opt) ''fc.sock''; vsockUDS = Join (bo_WorkDir opt) ''vsock.sock'' in
      h_start h (if bo_FirecrackerBin opt = [] then bin else bo_FirecrackerBin opt)
        [''--api-sock'', apiSocket, ''--id'', fst (nextID h s)]
        (h_remove h vsockUDS (h_remove h apiSocket (snd (h_mkdir_all h (bo_WorkDir opt) st)))))"

lemma Boot_unfold:
  "Boot h bin opt now s st =
     (case h_mkdir_all h (bo_WorkDir opt) st of
        (Some e, st1) \<Rightarrow> (Inl e, s, st1)
      | (None, st1) \<Rightarrow>
          (case boot_start h bin opt s st of
             (Inl e, st2) \<Rightarrow> (Inl (''start firecracker: '' @ e), s + 1, st2)
           | (Inr pid, st2) \<Rightarrow>
               (fst (configure h opt (boot_vm h opt s pid) now st2), s + 1,
                snd (configure h opt (boot_vm h opt s pid) now st2))))"
proof -
  obtain e1 st1 where 1: "h_mkdir_all h (bo_WorkDir opt) st = (e1, st1)" by fastforce
  obtain x st2 where 2: "boot_start h bin opt s st = (x, st2)" by fastforce
  from 2 have 3: "h_start h (if bo_FirecrackerBin opt = [] then bin else bo_FirecrackerBin opt)
      [''--api-sock'', Join (bo_WorkDir opt) ''fc.sock'', ''--id'', fst (nextID h s)]
      (h_remove h (Join (bo_WorkDir opt) ''vsock.sock'') (h_remove h (Join (bo_WorkDir opt) ''fc.sock'') st1))
    = (x, st2)" by (simp only: boot_start_def Let_def 1 snd_conv)
  have n: "nextID h s = (fst (nextID h s), s + 1)" by (simp add: nextID_def)
  show ?thesis
    by (cases e1; cases x; subst Boot_def; subst n; simp only: 1 2 3 Let_def prod.case sum.case option.case)
      (simp_all only: boot_vm_def split_beta)
qed

lemma Boot_cases:
  assumes "Boot h bin opt now s st = (res, s', st')"
  obtains (nodir) e where "h_mkdir_all h (bo_WorkDir opt) st = (Some e, st')" "res = Inl e"
    | (nostart) e where "fst (h_mkdir_all h (bo_WorkDir opt) st) = None"
        "boot_start h bin opt s st = (Inl e, st')" "res = Inl (''start firecracker: '' @ e)"
    | (started) pid st2 where "fst (h_mkdir_all h (bo_WorkDir opt) st) = None"
        "boot_start h bin opt s st = (Inr pid, st2)"
        "configure h opt (boot_vm h opt s pid) now st2 = (res, st')"
proof -
  obtain e1 st1 where 1: "h_mkdir_all h (bo_WorkDir opt) st = (e1, st1)" by fastforce
  obtain x st2 where 2: "boot_start h bin opt s st = (x, st2)" by fastforce
  show thesis
  proof (cases e1)
    case (Some e)
    then show thesis using assms nodir 1 by (simp add: Boot_unfold)
  next
    case None
    then show thesis
      using assms 1 2 by (cases x) (auto simp: Boot_unfold prod_eq_iff intro: nostart started)
  qed
qed

context host_laws
begin

lemma boot_start_effect:
  assumes "boot_start h bin opt s st = (x, st2)" and "fst (h_mkdir_all h (bo_WorkDir opt) st) = None"
  shows "bo_WorkDir opt \<in> dirs st2"
    "case x of Inr pid \<Rightarrow> pid \<notin> procs st \<and> procs st2 = insert pid (procs st) | Inl e \<Rightarrow> procs st2 = procs st"
proof -
  let ?q = "h_remove h (Join (bo_WorkDir opt) ''vsock.sock'') (h_remove h (Join (bo_WorkDir opt) ''fc.sock'')
    (snd (h_mkdir_all h (bo_WorkDir opt) st)))"
  have q: "procs ?q = procs st" "bo_WorkDir opt \<in> dirs ?q"
    using mkdir_all [of "bo_WorkDir opt" st] assms(2) by (simp_all add: remove)
  obtain prog args where h: "h_start h prog args ?q = (x, st2)"
    using assms(1) by (auto simp: boot_start_def Let_def)
  show "bo_WorkDir opt \<in> dirs st2"
    using start_ok [of prog args ?q _ st2] start_err [of prog args ?q _ st2] h q by (cases x) auto
  show "case x of Inr pid \<Rightarrow> pid \<notin> procs st \<and> procs st2 = insert pid (procs st) | Inl e \<Rightarrow> procs st2 = procs st"
    using start_ok [of prog args ?q _ st2] start_err [of prog args ?q _ st2] h q by (cases x) auto
qed

lemma Boot_effect:
  assumes "Boot h bin opt now s st = (res, s', st')"
  shows "case res of
      Inr vm \<Rightarrow> vm_pid vm \<notin> procs st \<and> procs st' = insert (vm_pid vm) (procs st) \<and>
        vm_WorkDir vm = bo_WorkDir opt \<and> bo_WorkDir opt \<in> dirs st'
    | Inl e \<Rightarrow> procs st' = procs st"
  using assms
proof (cases rule: Boot_cases)
  case (nodir e)
  then show ?thesis using mkdir_all [of "bo_WorkDir opt" st] by simp
next
  case (nostart e)
  then show ?thesis using boot_start_effect [OF nostart(2,1)] by simp
next
  case (started pid st2)
  have "outcome (boot_vm h opt s pid) st2 (res, st')"
    using configure_outcome started(3) by metis
  then show ?thesis
    using boot_start_effect [OF started(2,1)] by (cases res) (auto simp: outcome_def same_def)
qed

end

context api_log
begin

lemma log_boot_start: "boot_start h bin opt s st = (x, st2) \<Longrightarrow> calls st2 = calls st"
proof -
  assume "boot_start h bin opt s st = (x, st2)"
  then obtain prog args where "h_start h prog args (h_remove h (Join (bo_WorkDir opt) ''vsock.sock'')
      (h_remove h (Join (bo_WorkDir opt) ''fc.sock'') (snd (h_mkdir_all h (bo_WorkDir opt) st)))) = (x, st2)"
    by (auto simp: boot_start_def Let_def)
  then show ?thesis by (metis log_mkdir log_remove log_start snd_conv)
qed

lemma Boot_sent:
  assumes "Boot h bin opt now s st = (res, s', st')"
  shows "sent [''/machine-config'', ''/boot-source'', ''/drives/rootfs'', ''/vsock'', ''/actions''] st (res, st')"
  using assms
proof (cases rule: Boot_cases)
  case (nodir e)
  then show ?thesis using log_mkdir [of "bo_WorkDir opt" st] by (simp add: sent_def)
next
  case (nostart e)
  then show ?thesis using log_boot_start [OF nostart(2)] by (simp add: sent_def)
next
  case (started pid st2)
  then show ?thesis
    using sent_configure [of st2 opt "boot_vm h opt s pid" now] log_boot_start [OF started(2)]
    by (simp add: sent_def)
qed

end

section \<open>Properties\<close>

text \<open>
  C21. A boot leaves exactly what it returns: on success one new process runs, that of the VM
  returned, whose directory exists, and killing the VM takes the process and the directory
  away again; when the boot fails at any step no process is left running.
\<close>

theorem Boot_no_stray_process:
  assumes "host_laws h procs dirs" and "Boot h bin opt now s st = (res, s', st')"
  shows "case res of
      Inr vm \<Rightarrow> procs st' = insert (vm_pid vm) (procs st) \<and> bo_WorkDir opt \<in> dirs st' \<and>
        procs (Kill h (Some vm) st') = procs st \<and>
        (bo_WorkDir opt = [] \<or> bo_WorkDir opt \<notin> dirs (Kill h (Some vm) st'))
    | Inl e \<Rightarrow> procs st' = procs st"
  using host_laws.Boot_effect [OF assms] host_laws.Kill_effect [OF assms(1)]
  by (cases res) auto

definition sample_boot :: BootOptions where
  "sample_boot = \<lparr>bo_FirecrackerBin = [], bo_KernelPath = ''/k'', bo_RootfsPath = ''/r/py.ext4'',
     bo_WorkDir = ''/tmp/dredd-py-1'', bo_Vcpus = 1, bo_MemMB = 256, bo_LanguageID = ''py''\<rparr>"

lemma Boot_no_stray_process_witness:
  "sim_procs (snd (snd (Boot (sim_host ''/vsock'' False) ''firecracker'' sample_boot 0 0 sim_start))) = {} \<or>
   (\<exists>p. sim_procs (snd (snd (Boot (sim_host ''/vsock'' False) ''firecracker'' sample_boot 0 0 sim_start))) = {p})"
proof -
  obtain res s' st' where b: "Boot (sim_host ''/vsock'' False) ''firecracker'' sample_boot 0 0 sim_start = (res, s', st')"
    by (metis prod.collapse)
  from Boot_no_stray_process [OF sim.host_laws_axioms b] show ?thesis
    unfolding b by (cases res) (simp_all add: sim_start_def)
qed

text \<open>
  The API is spoken in order: whatever fails, the requests of a boot are an initial part of
  machine configuration, boot source, root drive, vsock device, start; they are all sent when
  the boot succeeds, so a VM that is handed out was started, and none is started before it is
  configured.
\<close>

theorem Boot_request_order:
  assumes "api_log h calls" and "Boot h bin opt now s st = (res, s', st')"
  shows "\<exists>q. calls st' = calls st @ q \<and>
    prefix q [''/machine-config'', ''/boot-source'', ''/drives/rootfs'', ''/vsock'', ''/actions''] \<and>
    (isl res \<or> q = [''/machine-config'', ''/boot-source'', ''/drives/rootfs'', ''/vsock'', ''/actions''])"
  using api_log.Boot_sent [OF assms] by (auto simp: api_log.sent_def [OF assms(1)])

lemma Boot_request_order_witness:
  "prefix (sim_calls (snd (snd (Boot (sim_host [] False) ''firecracker'' sample_boot 0 0 sim_start))))
     [''/machine-config'', ''/boot-source'', ''/drives/rootfs'', ''/vsock'', ''/actions'']"
proof -
  obtain res s' st' where b: "Boot (sim_host [] False) ''firecracker'' sample_boot 0 0 sim_start = (res, s', st')"
    by (metis prod.collapse)
  from Boot_request_order [OF sim_log.api_log_axioms b] show ?thesis
    unfolding b by (auto simp: sim_start_def)
qed

text \<open>
  A failed boot leaks its directory exactly when the process did not start: then \<^verbatim>\<open>Boot\<close>
  returns no VM that could be killed, and nothing removes the directory; every later failure
  removes it.
\<close>

theorem Boot_failure_leaks:
  assumes "host_laws h procs dirs" and "Boot h bin opt now s st = (Inl e, s', st')"
    and "fst (h_mkdir_all h (bo_WorkDir opt) st) = None" and "bo_WorkDir opt \<noteq> []"
  shows "bo_WorkDir opt \<in> dirs st' \<longleftrightarrow> isl (fst (boot_start h bin opt s st))"
  using assms(2)
proof (cases rule: Boot_cases)
  case (nodir e')
  then show ?thesis using assms(3) by simp
next
  case (nostart e')
  then show ?thesis using host_laws.boot_start_effect(1) [OF assms(1) nostart(2,1)] by simp
next
  case (started pid st2)
  have "host_laws.outcome procs dirs (boot_vm h opt s pid) st2 (Inl e, st')"
    using host_laws.configure_outcome [OF assms(1)] started(3) by metis
  then show ?thesis
    using assms(4) started(2) by (auto simp: host_laws.outcome_def [OF assms(1)])
qed

lemma Boot_failure_leaks_witness:
  "''/tmp/dredd-py-1'' \<in> sim_dirs (snd (snd (Boot (sim_host [] True) ''firecracker'' sample_boot 0 0 sim_start)))"
proof -
  obtain res s' st' where b: "Boot (sim_host [] True) ''firecracker'' sample_boot 0 0 sim_start = (res, s', st')"
    by (metis prod.collapse)
  have "isl res" using b by (auto simp: Boot_def sim_host_def Let_def nextID_def sample_boot_def)
  then obtain e where e: "res = Inl e" by (auto simp: isl_def)
  have "isl (fst (boot_start (sim_host [] True) ''firecracker'' sample_boot 0 sim_start))"
    by (simp add: boot_start_def sim_host_def Let_def)
  then show ?thesis
    using Boot_failure_leaks [OF sim.host_laws_axioms b [unfolded e]] b
    by (simp add: sample_boot_def sim_host_def)
qed

section \<open>The wait for the API socket\<close>

lemma wait_loop_polls:
  assumes "\<And>f st. polls (snd (h_stat h f st)) = Suc (polls st)" and "\<And>st. polls (snd (h_sleep h st)) = polls st"
  shows "int (polls (snd (wait_loop h path deadline now st))) \<le>
    int (polls st) + 1 + max 0 ((deadline - now) div poll_pause + 1)"
  using assms
proof (induction h path deadline now st rule: wait_loop.induct)
  case (1 h path deadline now st)
  obtain there dt st1 where a: "h_stat h path st = ((there, dt), st1)" by (metis prod.collapse)
  have p1: "polls st1 = Suc (polls st)" using "1.prems"(1) [of path st] a by simp
  obtain e st2 where b: "h_sleep h st1 = (e, st2)" by fastforce
  have p2: "polls st2 = Suc (polls st)" using "1.prems"(2) [of st1] b p1 by simp
  note unfold = wait_loop.simps [of h path deadline now st]
  show ?case
  proof (cases "there \<or> deadline < now + int dt \<or> e \<noteq> None")
    case True
    then have "polls (snd (wait_loop h path deadline now st)) = Suc (polls st)"
      using p1 p2 by (cases e) (auto simp: unfold a b)
    then show ?thesis by simp
  next
    case False
    let ?now = "now + int dt + poll_pause"
    have "int (polls (snd (wait_loop h path deadline now st))) = int (polls (snd (wait_loop h path deadline ?now st2)))"
      using False by (simp add: unfold a b)
    moreover have "int (polls (snd (wait_loop h path deadline ?now st2))) \<le>
        int (polls st2) + 1 + max 0 ((deadline - ?now) div poll_pause + 1)"
      using "1.IH" [OF a [symmetric] refl _ _ b [symmetric]] False "1.prems" by simp
    moreover have "max 0 ((deadline - ?now) div poll_pause + 1) \<le> max 0 ((deadline - now) div poll_pause + 1) - 1"
      by (rule pauses_left) (use False in simp_all)
    moreover have "int (polls st2) = int (polls st) + 1" using p2 by simp
    ultimately show ?thesis by linarith
  qed
qed

text \<open>
  The wait for the API socket ends: however the file system behaves and however long its
  calls take, \<^verbatim>\<open>waitForSocket\<close> looks for the file at most two times more than the timeout
  holds pauses of 25 ms; for the 5 seconds of a boot that is 202 times.
\<close>

theorem waitForSocket_polls:
  assumes "\<And>f st. polls (snd (h_stat h f st)) = Suc (polls st)" and "\<And>st. polls (snd (h_sleep h st)) = polls st"
  shows "int (polls (snd (waitForSocket h path timeout now st))) \<le>
      int (polls st) + 2 + max 0 (sint timeout div poll_pause) \<and>
    polls (snd (waitForSocket h path (5 * Second) now st)) \<le> polls st + 202"
proof -
  have w: "int (polls (snd (waitForSocket h path t now st))) \<le> int (polls st) + 2 + max 0 (sint t div poll_pause)" for t
    using wait_loop_polls [of polls h path "now + sint t" now st] assms by (simp add: waitForSocket_def)
  have "sint (5 * Second) = 5000000000" by (simp add: Second_def)
  with w [of timeout] w [of "5 * Second"] show ?thesis by simp
qed

text \<open>A host on which the file never appears, and that counts the looks.\<close>

definition blind_host :: "nat host" where
  "blind_host =
     \<lparr>h_pid = 7, h_mkdir_all = (\<lambda>_ s. (None, s)), h_remove = (\<lambda>_ s. s), h_start = (\<lambda>_ _ s. (Inr 1, s)),
      h_stat = (\<lambda>_ s. ((False, 0), Suc s)), h_sleep = (\<lambda>s. (None, s)), h_do = (\<lambda>_ _ _ s. (Inr (204, []), s)),
      h_cp = (\<lambda>_ _ s. (True, s)), h_open = (\<lambda>_ s. (None, s)), h_create = (\<lambda>_ s. (None, s)),
      h_copy = (\<lambda>_ _ s. (None, s)), h_sync = (\<lambda>_ s. (None, s)), h_kill = (\<lambda>_ s. s), h_remove_all = (\<lambda>_ s. s)\<rparr>"

lemma waitForSocket_polls_witness: "snd (waitForSocket blind_host ''/fc.sock'' (5 * Second) 0 0) \<le> 202"
  using waitForSocket_polls [of "\<lambda>n. n" blind_host "''/fc.sock''" 0 0 0] by (simp add: blind_host_def)

end
