(* ===== verification/Pool.thy ===== *)
theory Pool
  imports Firecracker Langs Go_Quote "HOL-Library.Multiset"
begin

text \<open>
  \<^verbatim>\<open>pool/\<close>: the three VM pools. They are the same machine of goroutines: refills that boot a
  VM and send it on a channel, callers of \<^verbatim>\<open>Acquire\<close> that receive one and start a refill in
  its place, and \<^verbatim>\<open>Close\<close>. What differs is a \<open>strategy\<close>: the channels, their capacity, the
  number of first refills, and what \<^verbatim>\<open>Acquire\<close> does first. Every step of the relations is one
  operation other goroutines can see. A VM is the id of its process; \<open>pl_alive\<close> are the ones
  that run, \<open>pl_key\<close> says for which channel each was booted. A boot gives any id that is
  not in use.
\<close>

section \<open>Goroutines\<close>

text \<open>A refill waits for the semaphore, boots, and sends what it booted.\<close>

datatype refill =
    RWait string
  | RBooting string
  | RSend string nat

text \<open>
  A call of \<^verbatim>\<open>Acquire\<close>, up to the release of what it returned. \<open>CTry\<close>, \<open>CWait\<close> and \<open>CBoot\<close>
  are the spare strategy's own steps; \<open>CHold None\<close> is a call that returned a nil VM.
\<close>

datatype caller =
    CSelect string
  | CTry string
  | CTaken string nat
  | CSpawn string nat
  | CWait string
  | CBoot string
  | CHold "nat option"

datatype phase =
    Opened
  | ClosedSet
  | CtxCancelled
  | Draining "string set"
  | DrainKey string "string set"

record pool =
  pl_chan :: "string \<Rightarrow> nat list"
  pl_chan_closed :: "string \<Rightarrow> bool"
  pl_sem :: nat
  pl_wg :: nat
  pl_closed :: bool
  pl_cancelled :: bool
  pl_phase :: phase
  pl_refills :: "refill multiset"
  pl_callers :: "caller multiset"
  pl_alive :: "nat set"
  pl_key :: "nat \<Rightarrow> string"
  pl_lost :: "string \<Rightarrow> nat"

section \<open>Strategies\<close>

text \<open>What a call of \<^verbatim>\<open>Acquire\<close> does once it has seen the pool open.\<close>

datatype acquire_start =
    Refuse string
  | FromPool string
  | TrySpare string

record strategy =
  sg_keys :: "string list"
  sg_cap :: nat
  sg_initial :: nat
  sg_sem :: nat
  sg_start :: "string \<Rightarrow> acquire_start"

definition newBootSemaphore :: "gint \<Rightarrow> nat" where
  "newBootSemaphore n = (if sint n < 1 then 1 else nat (sint n))"

text \<open>
  The semaphore as the code has it: a channel of slots. \<open>sem_acquire\<close> relates the outcomes of
  the select, which is free to choose when the context is done and a slot is left; a release
  of a semaphore nobody holds would block.
\<close>

record bootSemaphore =
  bs_cap :: nat
  bs_used :: nat

inductive sem_acquire :: "bootSemaphore \<Rightarrow> bool \<Rightarrow> bool \<Rightarrow> bootSemaphore \<Rightarrow> bool" where
  slot: "bs_used b < bs_cap b \<Longrightarrow> sem_acquire b d True (b\<lparr>bs_used := Suc (bs_used b)\<rparr>)"
| ctx_done: "d \<Longrightarrow> sem_acquire b d False b"

inductive_simps sem_acquire_simps: "sem_acquire b d ok b'"

definition sem_release :: "bootSemaphore \<Rightarrow> bootSemaphore option" where
  "sem_release b = (if bs_used b = 0 then None else Some (b\<lparr>bs_used := bs_used b - 1\<rparr>))"

definition prewarmedPerLang :: "(nat \<Rightarrow> bool) \<Rightarrow> Config \<Rightarrow> Registry \<Rightarrow> strategy" where
  "prewarmedPerLang is_print cfg reg =
     \<lparr>sg_keys = map lang_ID (All reg), sg_cap = nat (sint (cfg_PoolSize cfg)),
      sg_initial = nat (sint (cfg_PoolSize cfg)), sg_sem = newBootSemaphore (cfg_BootConcurrency cfg),
      sg_start = (\<lambda>langID. if langID \<in> set (map lang_ID (All reg)) then FromPool langID
                          else Refuse (''no pool for language '' @ quote is_print langID))\<rparr>"

definition onDemandSpare :: "(nat \<Rightarrow> bool) \<Rightarrow> Config \<Rightarrow> Registry \<Rightarrow> strategy" where
  "onDemandSpare is_print cfg reg =
     \<lparr>sg_keys = map lang_ID (All reg), sg_cap = 1, sg_initial = 1,
      sg_sem = newBootSemaphore (cfg_BootConcurrency cfg),
      sg_start = (\<lambda>langID. case Get reg langID of
                     None \<Rightarrow> Refuse (''unknown language '' @ quote is_print langID)
                   | Some l \<Rightarrow> TrySpare langID)\<rparr>"

text \<open>The generic pool has one channel, whatever the language asked for.\<close>

definition generic_key :: string where
  "generic_key = ''generic''"

definition prewarmedGeneric :: "Config \<Rightarrow> strategy" where
  "prewarmedGeneric cfg =
     \<lparr>sg_keys = [generic_key], sg_cap = nat (sint (cfg_PoolSize cfg)),
      sg_initial = nat (sint (cfg_PoolSize cfg)), sg_sem = newBootSemaphore (cfg_BootConcurrency cfg),
      sg_start = (\<lambda>_. FromPool generic_key)\<rparr>"

definition New :: "(nat \<Rightarrow> bool) \<Rightarrow> Config \<Rightarrow> Registry \<Rightarrow> string + strategy" where
  "New is_print cfg reg =
     (if cfg_PoolStrategy cfg = PoolPrewarmedPerLang then Inr (prewarmedPerLang is_print cfg reg)
      else if cfg_PoolStrategy cfg = PoolOnDemandSpare then Inr (onDemandSpare is_print cfg reg)
      else if cfg_PoolStrategy cfg = PoolPrewarmedGeneric then Inr (prewarmedGeneric cfg)
      else Inl (''unknown pool strategy '' @ quote is_print (cfg_PoolStrategy cfg)))"

text \<open>The options of one boot, for a directory \<^verbatim>\<open>vmWorkDir\<close> made.\<close>

definition lang_boot_options :: "Config \<Rightarrow> Language \<Rightarrow> string \<Rightarrow> BootOptions" where
  "lang_boot_options cfg l dir =
     \<lparr>bo_FirecrackerBin = cfg_FirecrackerBin cfg, bo_KernelPath = cfg_KernelPath cfg,
      bo_RootfsPath = lang_Rootfs l, bo_WorkDir = dir, bo_Vcpus = cfg_VMVcpus cfg,
      bo_MemMB = cfg_VMMemMB cfg, bo_LanguageID = lang_ID l\<rparr>"

definition spare_boot_options :: "Config \<Rightarrow> Language \<Rightarrow> string \<Rightarrow> BootOptions" where
  "spare_boot_options cfg l dir =
     \<lparr>bo_FirecrackerBin = cfg_FirecrackerBin cfg, bo_KernelPath = cfg_KernelPath cfg,
      bo_RootfsPath = lang_Rootfs l, bo_WorkDir = dir, bo_Vcpus = cfg_VMVcpus cfg,
      bo_MemMB = cfg_VMMemMB cfg, bo_LanguageID = lang_ID l\<rparr>"

definition generic_boot_options :: "Config \<Rightarrow> string \<Rightarrow> BootOptions" where
  "generic_boot_options cfg dir =
     \<lparr>bo_FirecrackerBin = cfg_FirecrackerBin cfg, bo_KernelPath = cfg_KernelPath cfg,
      bo_RootfsPath = cfg_GenericRootfs cfg, bo_WorkDir = dir, bo_Vcpus = cfg_VMVcpus cfg,
      bo_MemMB = cfg_VMMemMB cfg, bo_LanguageID = []\<rparr>"

text \<open>A new pool: empty channels and the first refills.\<close>

definition new_pool :: "strategy \<Rightarrow> pool" where
  "new_pool sg =
     \<lparr>pl_chan = (\<lambda>_. []), pl_chan_closed = (\<lambda>_. False), pl_sem = 0,
      pl_wg = length (sg_keys sg) * sg_initial sg, pl_closed = False, pl_cancelled = False,
      pl_phase = Opened,
      pl_refills = (\<Sum>k \<in># mset (sg_keys sg). replicate_mset (sg_initial sg) (RWait k)),
      pl_callers = {#}, pl_alive = {}, pl_key = (\<lambda>_. []), pl_lost = (\<lambda>_. 0)\<rparr>"

definition lose :: "string \<Rightarrow> pool \<Rightarrow> pool" where
  "lose k s = s\<lparr>pl_lost := (pl_lost s)(k := Suc (pl_lost s k))\<rparr>"

section \<open>Steps\<close>

text \<open>
  \<^verbatim>\<open>refill\<close>. A boot on a cancelled context does not succeed (its requests carry the
  context); the boot counts as done when its last request is answered.
\<close>

inductive refill_step :: "strategy \<Rightarrow> pool \<Rightarrow> pool \<Rightarrow> bool" for sg where
  slot: "pl_refills s = add_mset (RWait k) R \<Longrightarrow> pl_sem s < sg_sem sg
    \<Longrightarrow> refill_step sg s (s\<lparr>pl_refills := add_mset (RBooting k) R, pl_sem := Suc (pl_sem s)\<rparr>)"
| no_slot: "pl_refills s = add_mset (RWait k) R \<Longrightarrow> pl_cancelled s
    \<Longrightarrow> refill_step sg s (lose k (s\<lparr>pl_refills := R, pl_wg := pl_wg s - 1\<rparr>))"
| booted: "pl_refills s = add_mset (RBooting k) R \<Longrightarrow> \<not> pl_cancelled s \<Longrightarrow> v \<notin> pl_alive s
    \<Longrightarrow> refill_step sg s (s\<lparr>pl_refills := add_mset (RSend k v) R, pl_sem := pl_sem s - 1,
          pl_alive := insert v (pl_alive s), pl_key := (pl_key s)(v := k)\<rparr>)"
| boot_failed: "pl_refills s = add_mset (RBooting k) R
    \<Longrightarrow> refill_step sg s (lose k (s\<lparr>pl_refills := R, pl_sem := pl_sem s - 1, pl_wg := pl_wg s - 1\<rparr>))"
| send: "pl_refills s = add_mset (RSend k v) R \<Longrightarrow> length (pl_chan s k) < sg_cap sg
    \<Longrightarrow> \<not> pl_chan_closed s k
    \<Longrightarrow> refill_step sg s (s\<lparr>pl_refills := R, pl_chan := (pl_chan s)(k := pl_chan s k @ [v]),
          pl_wg := pl_wg s - 1\<rparr>)"
| unsent: "pl_refills s = add_mset (RSend k v) R \<Longrightarrow> pl_cancelled s
    \<Longrightarrow> refill_step sg s (lose k (s\<lparr>pl_refills := R, pl_alive := pl_alive s - {v}, pl_wg := pl_wg s - 1\<rparr>))"

text \<open>
  \<^verbatim>\<open>Acquire\<close>: the check of the flag, the receive, the second check, the refill it starts. A
  receive from a closed, empty channel gives nil at once.
\<close>

inductive acquire_step :: "strategy \<Rightarrow> pool \<Rightarrow> pool \<Rightarrow> bool" for sg where
  enter: "\<not> pl_closed s \<Longrightarrow> sg_start sg langID = FromPool k
    \<Longrightarrow> acquire_step sg s (s\<lparr>pl_callers := add_mset (CSelect k) (pl_callers s)\<rparr>)"
| receive: "pl_callers s = add_mset (CSelect k) C \<Longrightarrow> pl_chan s k = v # vs
    \<Longrightarrow> acquire_step sg s (s\<lparr>pl_callers := add_mset (CTaken k v) C, pl_chan := (pl_chan s)(k := vs)\<rparr>)"
| receive_nil: "pl_callers s = add_mset (CSelect k) C \<Longrightarrow> pl_chan s k = [] \<Longrightarrow> pl_chan_closed s k
    \<Longrightarrow> acquire_step sg s (s\<lparr>pl_callers := add_mset (CHold None) C\<rparr>)"
| give_up: "pl_callers s = add_mset (CSelect k) C \<Longrightarrow> acquire_step sg s (s\<lparr>pl_callers := C\<rparr>)"
| last: "pl_callers s = add_mset (CTaken k v) C \<Longrightarrow> pl_closed s
    \<Longrightarrow> acquire_step sg s (lose k (s\<lparr>pl_callers := add_mset (CHold (Some v)) C\<rparr>))"
| replace: "pl_callers s = add_mset (CTaken k v) C \<Longrightarrow> \<not> pl_closed s
    \<Longrightarrow> acquire_step sg s (s\<lparr>pl_callers := add_mset (CSpawn k v) C\<rparr>)"
| spawn: "pl_callers s = add_mset (CSpawn k v) C
    \<Longrightarrow> acquire_step sg s (s\<lparr>pl_callers := add_mset (CHold (Some v)) C, pl_wg := Suc (pl_wg s),
          pl_refills := add_mset (RWait k) (pl_refills s)\<rparr>)"

text \<open>
  The spare strategy's \<^verbatim>\<open>Acquire\<close>: the spare if there is one, else a boot of its own, on the
  caller's context, which the pool's shutdown does not cancel.
\<close>

inductive spare_step :: "strategy \<Rightarrow> pool \<Rightarrow> pool \<Rightarrow> bool" for sg where
  enter: "\<not> pl_closed s \<Longrightarrow> sg_start sg langID = TrySpare k
    \<Longrightarrow> spare_step sg s (s\<lparr>pl_callers := add_mset (CTry k) (pl_callers s)\<rparr>)"
| spare: "pl_callers s = add_mset (CTry k) C \<Longrightarrow> pl_chan s k = v # vs
    \<Longrightarrow> spare_step sg s (s\<lparr>pl_callers := add_mset (CTaken k v) C, pl_chan := (pl_chan s)(k := vs)\<rparr>)"
| spare_nil: "pl_callers s = add_mset (CTry k) C \<Longrightarrow> pl_chan s k = [] \<Longrightarrow> pl_chan_closed s k
    \<Longrightarrow> spare_step sg s (s\<lparr>pl_callers := add_mset (CHold None) C\<rparr>)"
| no_spare: "pl_callers s = add_mset (CTry k) C \<Longrightarrow> pl_chan s k = [] \<Longrightarrow> \<not> pl_chan_closed s k
    \<Longrightarrow> spare_step sg s (s\<lparr>pl_callers := add_mset (CWait k) C\<rparr>)"
| slot: "pl_callers s = add_mset (CWait k) C \<Longrightarrow> pl_sem s < sg_sem sg
    \<Longrightarrow> spare_step sg s (s\<lparr>pl_callers := add_mset (CBoot k) C, pl_sem := Suc (pl_sem s)\<rparr>)"
| no_slot: "pl_callers s = add_mset (CWait k) C \<Longrightarrow> spare_step sg s (s\<lparr>pl_callers := C\<rparr>)"
| booted: "pl_callers s = add_mset (CBoot k) C \<Longrightarrow> v \<notin> pl_alive s
    \<Longrightarrow> spare_step sg s (s\<lparr>pl_callers := add_mset (CHold (Some v)) C, pl_sem := pl_sem s - 1,
          pl_alive := insert v (pl_alive s), pl_key := (pl_key s)(v := k)\<rparr>)"
| boot_failed: "pl_callers s = add_mset (CBoot k) C
    \<Longrightarrow> spare_step sg s (s\<lparr>pl_callers := C, pl_sem := pl_sem s - 1\<rparr>)"

text \<open>\<^verbatim>\<open>Release\<close> and \<^verbatim>\<open>Discard\<close> kill the VM.\<close>

inductive release_step :: "pool \<Rightarrow> pool \<Rightarrow> bool" where
  release: "pl_callers s = add_mset (CHold (Some v)) C
    \<Longrightarrow> release_step s (s\<lparr>pl_callers := C, pl_alive := pl_alive s - {v}\<rparr>)"

text \<open>\<^verbatim>\<open>Close\<close>: set the flag, cancel, wait for the refills, close and drain each channel.\<close>

inductive close_step :: "strategy \<Rightarrow> pool \<Rightarrow> pool \<Rightarrow> bool" for sg where
  flag: "pl_phase s = Opened \<Longrightarrow> close_step sg s (s\<lparr>pl_phase := ClosedSet, pl_closed := True\<rparr>)"
| cancel: "pl_phase s = ClosedSet \<Longrightarrow> close_step sg s (s\<lparr>pl_phase := CtxCancelled, pl_cancelled := True\<rparr>)"
| waited: "pl_phase s = CtxCancelled \<Longrightarrow> pl_wg s = 0
    \<Longrightarrow> close_step sg s (s\<lparr>pl_phase := Draining (set (sg_keys sg))\<rparr>)"
| close_chan: "pl_phase s = Draining K \<Longrightarrow> k \<in> K
    \<Longrightarrow> close_step sg s (s\<lparr>pl_phase := DrainKey k (K - {k}), pl_chan_closed := (pl_chan_closed s)(k := True)\<rparr>)"
| drain: "pl_phase s = DrainKey k K \<Longrightarrow> pl_chan s k = v # vs
    \<Longrightarrow> close_step sg s (lose k (s\<lparr>pl_chan := (pl_chan s)(k := vs), pl_alive := pl_alive s - {v}\<rparr>))"
| drained: "pl_phase s = DrainKey k K \<Longrightarrow> pl_chan s k = []
    \<Longrightarrow> close_step sg s (s\<lparr>pl_phase := Draining K\<rparr>)"

definition pool_step :: "strategy \<Rightarrow> pool \<Rightarrow> pool \<Rightarrow> bool" where
  "pool_step sg s s' \<longleftrightarrow>
     refill_step sg s s' \<or> acquire_step sg s s' \<or> spare_step sg s s' \<or> release_step s s' \<or> close_step sg s s'"

inductive pool_reachable :: "strategy \<Rightarrow> pool \<Rightarrow> bool" for sg where
  new: "pool_reachable sg (new_pool sg)"
| step: "pool_reachable sg s \<Longrightarrow> pool_step sg s s' \<Longrightarrow> pool_reachable sg s'"

inductive_cases refill_stepE: "refill_step sg s s'"
inductive_cases acquire_stepE: "acquire_step sg s s'"
inductive_cases spare_stepE: "spare_step sg s s'"
inductive_cases release_stepE: "release_step s s'"
inductive_cases close_stepE: "close_step sg s s'"

lemmas pool_cases = refill_stepE acquire_stepE spare_stepE release_stepE close_stepE

end
