(* ===== verification/Pool_Inv.thy ===== *)
theory Pool_Inv
  imports Pool
begin

text \<open>
  What holds of a pool in every reachable state: the counters count what they should, no
  channel holds more than its capacity, every running VM is in exactly one place, nothing is
  sent on a closed channel, and each language's stock of VMs only shrinks.
\<close>

definition strategy_ok :: "strategy \<Rightarrow> bool" where
  "strategy_ok sg \<longleftrightarrow> distinct (sg_keys sg) \<and> 1 \<le> sg_sem sg \<and> 1 \<le> sg_cap sg \<and> sg_initial sg \<le> sg_cap sg \<and>
     (\<forall>l k. sg_start sg l = FromPool k \<or> sg_start sg l = TrySpare k \<longrightarrow> k \<in> set (sg_keys sg))"

lemma New_strategy_ok:
  assumes "config_ok cfg" and "registry_ok reg" and "New is_print cfg reg = Inr sg"
  shows "strategy_ok sg"
proof -
  have ids: "map lang_ID (All reg) = reg_order reg"
    by (rule All_ids [OF assms(2)])
  have s: "1 \<le> sint (cfg_PoolSize cfg)" using assms(1) by (simp add: config_ok_def)
  then have n: "1 \<le> nat (sint (cfg_PoolSize cfg))" by linarith
  have sem: "1 \<le> newBootSemaphore n" for n
    using nat_mono [of 1 "sint n"] by (auto simp: newBootSemaphore_def)
  have d: "distinct (reg_order reg)" using assms(2) by (simp add: registry_ok_def)
  have g: "k \<in> set (reg_order reg)" if "Get reg k = Some l" for k l
    using assms(2) that by (auto simp: registry_ok_def Get_def)
  show ?thesis
    using assms(3) s n sem d g
    by (auto simp: New_def strategy_ok_def prewarmedPerLang_def onDemandSpare_def prewarmedGeneric_def ids
        split: if_splits option.splits)
qed

section \<open>Counters\<close>

fun booting :: "refill \<Rightarrow> bool" where
  "booting (RBooting _) = True" | "booting _ = False"

fun caller_booting :: "caller \<Rightarrow> bool" where
  "caller_booting (CBoot _) = True" | "caller_booting _ = False"

definition boots :: "pool \<Rightarrow> nat" where
  "boots s = size (filter_mset booting (pl_refills s)) + size (filter_mset caller_booting (pl_callers s))"

definition counters_ok :: "strategy \<Rightarrow> pool \<Rightarrow> bool" where
  "counters_ok sg s \<longleftrightarrow>
     pl_wg s = size (pl_refills s) \<and> pl_sem s = boots s \<and> pl_sem s \<le> sg_sem sg \<and>
     (\<forall>k. length (pl_chan s k) \<le> sg_cap sg)"

lemma lose_simps [simp]:
  "pl_chan (lose k s) = pl_chan s" "pl_chan_closed (lose k s) = pl_chan_closed s"
  "pl_sem (lose k s) = pl_sem s" "pl_wg (lose k s) = pl_wg s" "pl_closed (lose k s) = pl_closed s"
  "pl_cancelled (lose k s) = pl_cancelled s" "pl_phase (lose k s) = pl_phase s"
  "pl_refills (lose k s) = pl_refills s" "pl_callers (lose k s) = pl_callers s"
  "pl_key (lose k s) = pl_key s" "pl_alive (lose k s) = pl_alive s"
  "pl_lost (lose k s) = (pl_lost s)(k := Suc (pl_lost s k))"
  by (simp_all add: lose_def)

lemma size_initial:
  "(\<Sum>x \<in># {#replicate_mset n (RWait k). k \<in># mset ks#}. size x) = length ks * n"
  by (induction ks) auto

lemma filter_initial: "(\<And>k. \<not> P (RWait k)) \<Longrightarrow> filter_mset P (\<Sum>k \<in># M. replicate_mset n (RWait k)) = {#}"
  by (induction M) (auto simp: filter_mset_eq_conv)

lemma counters_new: "counters_ok sg (new_pool sg)"
  by (simp add: counters_ok_def new_pool_def boots_def size_initial filter_initial)

lemma Cons_length: "xs = v # vs \<Longrightarrow> length xs \<le> n \<Longrightarrow> length vs \<le> n"
  by simp

lemma counters_step:
  assumes "counters_ok sg s" and "pool_step sg s s'"
  shows "counters_ok sg s'"
  using assms
  by (auto simp: pool_step_def counters_ok_def boots_def elim!: pool_cases)
     (metis Cons_length)+

lemma counters_reachable: "pool_reachable sg s \<Longrightarrow> counters_ok sg s"
  by (induction rule: pool_reachable.induct) (auto intro: counters_new counters_step)

lemma fresh_vm: "pool_reachable sg s \<Longrightarrow> \<exists>v. v \<notin> pl_alive s"
proof -
  assume "pool_reachable sg s"
  then have "finite (pl_alive s)"
    by induction (auto simp: new_pool_def pool_step_def elim!: pool_cases)
  then show ?thesis by (rule ex_new_if_finite [OF infinite_UNIV_nat])
qed

section \<open>Shutting down\<close>

definition no_send :: "pool \<Rightarrow> bool" where
  "no_send s \<longleftrightarrow> (\<forall>k v. RSend k v \<notin># pl_refills s)"

text \<open>The channels of \<open>K\<close> are closed and empty.\<close>

definition drained_keys :: "pool \<Rightarrow> string set \<Rightarrow> bool" where
  "drained_keys s K \<longleftrightarrow> (\<forall>k \<in> K. pl_chan_closed s k \<and> pl_chan s k = [])"

definition phase_ok :: "strategy \<Rightarrow> pool \<Rightarrow> bool" where
  "phase_ok sg s \<longleftrightarrow>
     (pl_closed s \<longleftrightarrow> pl_phase s \<noteq> Opened) \<and>
     (pl_cancelled s \<longleftrightarrow> pl_phase s \<noteq> Opened \<and> pl_phase s \<noteq> ClosedSet) \<and>
     (CHold None \<in># pl_callers s \<longrightarrow> pl_closed s) \<and>
     (case pl_phase s of
        Draining K \<Rightarrow> no_send s \<and> drained_keys s (set (sg_keys sg) - K)
      | DrainKey k K \<Rightarrow> no_send s \<and> pl_chan_closed s k \<and> drained_keys s (set (sg_keys sg) - K - {k})
      | _ \<Rightarrow> (\<forall>k. \<not> pl_chan_closed s k))"

lemma no_send_add [simp]:
  "pl_refills s = add_mset r R \<Longrightarrow> no_send s \<longleftrightarrow> (\<forall>k v. r \<noteq> RSend k v) \<and> (\<forall>k v. RSend k v \<notin># R)"
  by (auto simp: no_send_def)

lemma phase_new: "phase_ok sg (new_pool sg)"
  by (simp add: phase_ok_def new_pool_def)

lemma phase_refill:
  assumes "phase_ok sg s" and "refill_step sg s s'"
  shows "phase_ok sg s'"
  using assms(2,1)
  by cases (auto simp: phase_ok_def no_send_def drained_keys_def split: phase.splits)

lemma phase_acquire:
  assumes "phase_ok sg s" and "acquire_step sg s s'"
  shows "phase_ok sg s'"
  using assms(2,1)
  by cases (auto simp: phase_ok_def no_send_def drained_keys_def split: phase.splits)

lemma phase_spare:
  assumes "phase_ok sg s" and "spare_step sg s s'"
  shows "phase_ok sg s'"
  using assms(2,1)
  by cases (auto simp: phase_ok_def no_send_def drained_keys_def split: phase.splits)

lemma phase_release:
  assumes "phase_ok sg s" and "release_step s s'"
  shows "phase_ok sg s'"
  using assms(2,1)
  by cases (auto simp: phase_ok_def no_send_def drained_keys_def split: phase.splits)

lemma phase_close:
  assumes "phase_ok sg s" and "counters_ok sg s" and "close_step sg s s'"
  shows "phase_ok sg s'"
  using assms(3,1,2)
  by cases (auto simp: phase_ok_def no_send_def drained_keys_def counters_ok_def split: phase.splits)

lemma phase_reachable: "pool_reachable sg s \<Longrightarrow> phase_ok sg s"
proof (induction rule: pool_reachable.induct)
  case new
  show ?case by (rule phase_new)
next
  case (step s s')
  then show ?case
    using phase_refill phase_acquire phase_spare phase_release phase_close counters_reachable
    unfolding pool_step_def by blast
qed

section \<open>Where the VMs are\<close>

fun refill_vm :: "refill \<Rightarrow> nat multiset" where
  "refill_vm (RSend _ v) = {#v#}" | "refill_vm _ = {#}"

fun caller_vm :: "caller \<Rightarrow> nat multiset" where
  "caller_vm (CTaken _ v) = {#v#}"
| "caller_vm (CSpawn _ v) = {#v#}"
| "caller_vm (CHold (Some v)) = {#v#}"
| "caller_vm _ = {#}"

definition idle_vms :: "strategy \<Rightarrow> pool \<Rightarrow> nat multiset" where
  "idle_vms sg s = (\<Sum>k \<in> set (sg_keys sg). mset (pl_chan s k))"

definition sending_vms :: "pool \<Rightarrow> nat multiset" where
  "sending_vms s = (\<Sum>r \<in># pl_refills s. refill_vm r)"

definition busy_vms :: "pool \<Rightarrow> nat multiset" where
  "busy_vms s = (\<Sum>c \<in># pl_callers s. caller_vm c)"

definition vms_ok :: "strategy \<Rightarrow> pool \<Rightarrow> bool" where
  "vms_ok sg s \<longleftrightarrow>
     finite (pl_alive s) \<and> idle_vms sg s + sending_vms s + busy_vms s = mset_set (pl_alive s)"

fun refill_key :: "refill \<Rightarrow> string" where
  "refill_key (RWait k) = k" | "refill_key (RBooting k) = k" | "refill_key (RSend k _) = k"

fun caller_keys :: "caller \<Rightarrow> string set" where
  "caller_keys (CSelect k) = {k}" | "caller_keys (CTry k) = {k}" | "caller_keys (CTaken k _) = {k}"
| "caller_keys (CSpawn k _) = {k}" | "caller_keys (CWait k) = {k}" | "caller_keys (CBoot k) = {k}"
| "caller_keys (CHold _) = {}"

definition phase_keys :: "phase \<Rightarrow> string set" where
  "phase_keys p = (case p of Draining K \<Rightarrow> K | DrainKey k K \<Rightarrow> insert k K | _ \<Rightarrow> {})"

definition keys_ok :: "strategy \<Rightarrow> pool \<Rightarrow> bool" where
  "keys_ok sg s \<longleftrightarrow>
     (\<forall>r \<in># pl_refills s. refill_key r \<in> set (sg_keys sg)) \<and>
     (\<forall>c \<in># pl_callers s. caller_keys c \<subseteq> set (sg_keys sg)) \<and>
     phase_keys (pl_phase s) \<subseteq> set (sg_keys sg)"

lemma keys_new: "keys_ok sg (new_pool sg)"
proof -
  have "refill_key r \<in> set ks" if "r \<in># (\<Sum>k \<in># mset ks. replicate_mset n (RWait k))" for r ks n
    using that by (induction ks) (auto split: if_splits)
  then show ?thesis by (auto simp: keys_ok_def new_pool_def phase_keys_def)
qed

lemma keys_refill: "keys_ok sg s \<Longrightarrow> refill_step sg s s' \<Longrightarrow> keys_ok sg s'"
  by (erule refill_stepE) (simp_all add: keys_ok_def)

lemma keys_acquire: "strategy_ok sg \<Longrightarrow> keys_ok sg s \<Longrightarrow> acquire_step sg s s' \<Longrightarrow> keys_ok sg s'"
  by (erule acquire_stepE) (auto simp: keys_ok_def strategy_ok_def)

lemma keys_spare: "strategy_ok sg \<Longrightarrow> keys_ok sg s \<Longrightarrow> spare_step sg s s' \<Longrightarrow> keys_ok sg s'"
  by (erule spare_stepE) (auto simp: keys_ok_def strategy_ok_def)

lemma keys_release: "keys_ok sg s \<Longrightarrow> release_step s s' \<Longrightarrow> keys_ok sg s'"
  by (erule release_stepE) (simp add: keys_ok_def)

lemma keys_close: "keys_ok sg s \<Longrightarrow> close_step sg s s' \<Longrightarrow> keys_ok sg s'"
  by (erule close_stepE) (auto simp: keys_ok_def phase_keys_def)

lemma keys_step: "strategy_ok sg \<Longrightarrow> keys_ok sg s \<Longrightarrow> pool_step sg s s' \<Longrightarrow> keys_ok sg s'"
  using keys_refill keys_acquire keys_spare keys_release keys_close unfolding pool_step_def by blast

lemma keys_reachable: "strategy_ok sg \<Longrightarrow> pool_reachable sg s \<Longrightarrow> keys_ok sg s"
  by (erule pool_reachable.induct) (auto intro: keys_new keys_step)

lemma sum_mset_update:
  assumes "k \<in> set ks"
  shows "(\<Sum>x \<in> set ks. mset ((f(k := xs)) x)) + mset (f k) = (\<Sum>x \<in> set ks. mset (f x)) + mset xs"
proof -
  have "(\<Sum>x \<in> set ks - {k}. mset ((f(k := xs)) x)) = (\<Sum>x \<in> set ks - {k}. mset (f x))"
    by (rule sum.cong) auto
  then show ?thesis
    using sum.remove [OF finite_set assms, of "\<lambda>x. mset ((f(k := xs)) x)"]
      sum.remove [OF finite_set assms, of "\<lambda>x. mset (f x)"]
    by (simp add: ac_simps)
qed

lemma idle_send:
  "k \<in> set (sg_keys sg) \<Longrightarrow> pl_chan s' = (pl_chan s)(k := pl_chan s k @ [v]) \<Longrightarrow>
    idle_vms sg s' = add_mset v (idle_vms sg s)"
  using sum_mset_update [of k "sg_keys sg" "pl_chan s" "pl_chan s k @ [v]"]
  by (simp add: idle_vms_def)

lemma idle_receive:
  "k \<in> set (sg_keys sg) \<Longrightarrow> pl_chan s k = v # vs \<Longrightarrow> pl_chan s' = (pl_chan s)(k := vs) \<Longrightarrow>
    idle_vms sg s = add_mset v (idle_vms sg s')"
  using sum_mset_update [of k "sg_keys sg" "pl_chan s" vs]
  by (simp add: idle_vms_def)

text \<open>A VM that is somewhere runs; killing it takes it from the running ones.\<close>

lemma mset_set_kill:
  assumes "add_mset v M = mset_set A" and "finite A"
  shows "M = mset_set (A - {v})" "v \<in> A"
proof -
  show v: "v \<in> A" using assms by (metis elem_mset_set union_single_eq_member)
  then show "M = mset_set (A - {v})"
    using assms mset_set.remove [OF assms(2) v] by simp
qed

definition all_vms :: "strategy \<Rightarrow> pool \<Rightarrow> nat multiset" where
  "all_vms sg s = idle_vms sg s + sending_vms s + busy_vms s"

lemma vms_ok_all: "vms_ok sg s \<longleftrightarrow>
    finite (pl_alive s) \<and> all_vms sg s = mset_set (pl_alive s)"
  by (simp add: vms_ok_def all_vms_def)

lemma vms_moved:
  assumes "vms_ok sg s" and "all_vms sg s' = all_vms sg s" and "pl_alive s' = pl_alive s"
  shows "vms_ok sg s'"
  using assms by (simp add: vms_ok_all)

lemma vms_booted:
  assumes "vms_ok sg s" and "all_vms sg s' = add_mset v (all_vms sg s)"
    and "v \<notin> pl_alive s" and "pl_alive s' = insert v (pl_alive s)"
  shows "vms_ok sg s'"
  using assms by (auto simp: vms_ok_all)

lemma vms_killed:
  assumes "vms_ok sg s" and "all_vms sg s = add_mset v (all_vms sg s')"
    and "pl_alive s' = pl_alive s - {v}"
  shows "vms_ok sg s'"
proof -
  have "add_mset v (all_vms sg s') = mset_set (pl_alive s)" "finite (pl_alive s)"
    using assms(1,2) by (simp_all add: vms_ok_all)
  then show ?thesis
    using mset_set_kill(1) assms by (auto simp: vms_ok_all)
qed

lemma vm_sums:
  "pl_refills s = R \<Longrightarrow> sending_vms s = (\<Sum>r \<in># R. refill_vm r)"
  "pl_callers s = C \<Longrightarrow> busy_vms s = (\<Sum>c \<in># C. caller_vm c)"
  "pl_chan s = pl_chan s0 \<Longrightarrow> idle_vms sg s = idle_vms sg s0"
  by (simp_all add: sending_vms_def busy_vms_def idle_vms_def)

lemma vms_refill:
  assumes "vms_ok sg s" and "keys_ok sg s" and "refill_step sg s s'"
  shows "vms_ok sg s'"
  using assms(3)
proof cases
  case (slot k R)
  then show ?thesis
    by (intro vms_moved [OF assms(1)]) (simp_all add: all_vms_def idle_vms_def sending_vms_def busy_vms_def)
next
  case (no_slot k R)
  then show ?thesis
    by (intro vms_moved [OF assms(1)]) (simp_all add: all_vms_def idle_vms_def sending_vms_def busy_vms_def)
next
  case (booted k R)
  then show ?thesis
    by (intro vms_booted [OF assms(1)]) (simp_all add: all_vms_def idle_vms_def sending_vms_def busy_vms_def)
next
  case (boot_failed k R)
  then show ?thesis
    by (intro vms_moved [OF assms(1)]) (simp_all add: all_vms_def idle_vms_def sending_vms_def busy_vms_def)
next
  case (send k v R)
  then have "k \<in> set (sg_keys sg)" using assms(2) by (simp add: keys_ok_def)
  then have "idle_vms sg s' = add_mset v (idle_vms sg s)"
    by (rule idle_send) (simp add: send(1))
  then show ?thesis
    using send by (intro vms_moved [OF assms(1)]) (simp_all add: all_vms_def sending_vms_def busy_vms_def)
next
  case (unsent k v R)
  then show ?thesis
    by (intro vms_killed [OF assms(1), where v = v]) (simp_all add: all_vms_def idle_vms_def sending_vms_def busy_vms_def)
qed

lemma vms_take:
  assumes "vms_ok sg s" and "k \<in> set (sg_keys sg)" and "pl_chan s k = v # vs"
    and "busy_vms s' = add_mset v (busy_vms s)" and "sending_vms s' = sending_vms s"
    and "pl_chan s' = (pl_chan s)(k := vs)" and "pl_alive s' = pl_alive s"
  shows "vms_ok sg s'"
  using assms idle_receive [OF assms(2,3,6)]
  by (intro vms_moved [OF assms(1)]) (simp_all add: all_vms_def)

lemma vms_acquire:
  assumes "vms_ok sg s" and "keys_ok sg s" and "acquire_step sg s s'"
  shows "vms_ok sg s'"
  using assms(3)
proof cases
  case (receive k C v vs)
  then have "k \<in> set (sg_keys sg)" using assms(2) by (simp add: keys_ok_def)
  then show ?thesis
    by (rule vms_take [OF assms(1) _ receive(3)]) (simp_all add: receive sending_vms_def busy_vms_def)
qed (intro vms_moved [OF assms(1)]; simp add: all_vms_def idle_vms_def sending_vms_def busy_vms_def)+

lemma vms_spare:
  assumes "vms_ok sg s" and "keys_ok sg s" and "spare_step sg s s'"
  shows "vms_ok sg s'"
  using assms(3)
proof cases
  case (spare k C v vs)
  then have "k \<in> set (sg_keys sg)" using assms(2) by (simp add: keys_ok_def)
  then show ?thesis
    by (rule vms_take [OF assms(1) _ spare(3)]) (simp_all add: spare sending_vms_def busy_vms_def)
next
  case (booted k C)
  then show ?thesis
    by (intro vms_booted [OF assms(1)]) (simp_all add: all_vms_def idle_vms_def sending_vms_def busy_vms_def)
qed (intro vms_moved [OF assms(1)]; simp add: all_vms_def idle_vms_def sending_vms_def busy_vms_def)+

lemma vms_release:
  assumes "vms_ok sg s" and "release_step s s'"
  shows "vms_ok sg s'"
  using assms(2)
proof cases
  case (release v C)
  then show ?thesis
    by (intro vms_killed [OF assms(1), where v = v]) (simp_all add: all_vms_def idle_vms_def sending_vms_def busy_vms_def)
qed

lemma vms_close:
  assumes "vms_ok sg s" and "keys_ok sg s" and "close_step sg s s'"
  shows "vms_ok sg s'"
  using assms(3)
proof cases
  case (drain k K v vs)
  then have "k \<in> set (sg_keys sg)" using assms(2) by (simp add: keys_ok_def phase_keys_def)
  then have "idle_vms sg s = add_mset v (idle_vms sg s')"
    by (rule idle_receive) (simp_all add: drain)
  then show ?thesis
    using drain by (intro vms_killed [OF assms(1), where v = v]) (simp_all add: all_vms_def sending_vms_def busy_vms_def)
qed (intro vms_moved [OF assms(1)]; simp add: all_vms_def idle_vms_def sending_vms_def busy_vms_def)+

lemma vms_new: "vms_ok sg (new_pool sg)"
proof -
  have "(\<Sum>r \<in># (\<Sum>k \<in># mset ks. replicate_mset n (RWait k)). refill_vm r) = {#}" for ks n
    by (induction ks) (auto simp: image_mset_union)
  then show ?thesis by (simp add: vms_ok_def new_pool_def idle_vms_def sending_vms_def busy_vms_def)
qed

lemma vms_reachable: "strategy_ok sg \<Longrightarrow> pool_reachable sg s \<Longrightarrow> vms_ok sg s"
proof (erule pool_reachable.induct)
  fix s s'
  assume "strategy_ok sg" "pool_reachable sg s" "vms_ok sg s" "pool_step sg s s'"
  then show "vms_ok sg s'"
    using vms_refill vms_acquire vms_spare vms_release vms_close keys_reachable
    unfolding pool_step_def by blast
qed (rule vms_new)

text \<open>A VM that is somewhere runs.\<close>

lemma vms_alive:
  assumes "vms_ok sg s"
  shows "RSend k v \<in># pl_refills s \<Longrightarrow> v \<in> pl_alive s"
    and "c \<in># pl_callers s \<Longrightarrow> v \<in># caller_vm c \<Longrightarrow> v \<in> pl_alive s"
    and "k \<in> set (sg_keys sg) \<Longrightarrow> v \<in> set (pl_chan s k) \<Longrightarrow> v \<in> pl_alive s"
proof -
  have a: "v \<in> pl_alive s" if "v \<in># idle_vms sg s + sending_vms s + busy_vms s"
    using assms that by (simp add: vms_ok_def)
  show "RSend k v \<in># pl_refills s \<Longrightarrow> v \<in> pl_alive s"
    by (rule a) (force simp: sending_vms_def)
  show "c \<in># pl_callers s \<Longrightarrow> v \<in># caller_vm c \<Longrightarrow> v \<in> pl_alive s"
    by (rule a) (force simp: busy_vms_def)
  show "v \<in> pl_alive s" if "k \<in> set (sg_keys sg)" "v \<in> set (pl_chan s k)"
    by (rule a) (use that in \<open>auto simp: idle_vms_def set_mset_sum\<close>)
qed

text \<open>A VM stays with the channel it was booted for, until a caller holds it.\<close>

definition origin_ok :: "strategy \<Rightarrow> pool \<Rightarrow> bool" where
  "origin_ok sg s \<longleftrightarrow>
     (\<forall>k v. RSend k v \<in># pl_refills s \<longrightarrow> pl_key s v = k) \<and>
     (\<forall>k \<in> set (sg_keys sg). \<forall>v \<in> set (pl_chan s k). pl_key s v = k) \<and>
     (\<forall>k v. CTaken k v \<in># pl_callers s \<or> CSpawn k v \<in># pl_callers s \<longrightarrow> pl_key s v = k)"

lemma origin_refill:
  assumes "vms_ok sg s" and "origin_ok sg s" and "refill_step sg s s'"
  shows "origin_ok sg s'"
proof -
  note alive = vms_alive [OF assms(1)]
  from assms(3,2) show ?thesis
  proof cases
    case (booted k R n)
    have key: "pl_key s' v = pl_key s v" if "v \<in> pl_alive s" for v using that booted by auto
    moreover have "v \<in> pl_alive s" if "CTaken k' v \<in># pl_callers s \<or> CSpawn k' v \<in># pl_callers s" for k' v
      using alive(2) [of "CTaken k' v" v] alive(2) [of "CSpawn k' v" v] that by auto
    ultimately show ?thesis
      using assms(2) alive(1,3) booted by (auto simp: origin_ok_def)
  qed (auto simp: origin_ok_def)
qed

lemma origin_acquire:
  assumes "origin_ok sg s" and "keys_ok sg s" and "acquire_step sg s s'"
  shows "origin_ok sg s'"
  using assms(3,1,2) by cases (auto simp: origin_ok_def keys_ok_def)

lemma origin_spare:
  assumes "vms_ok sg s" and "origin_ok sg s" and "keys_ok sg s" and "spare_step sg s s'"
  shows "origin_ok sg s'"
proof -
  note alive = vms_alive [OF assms(1)]
  from assms(4,2,3) show ?thesis
  proof cases
    case (booted k C n)
    have key: "pl_key s' v = pl_key s v" if "v \<in> pl_alive s" for v using that booted by auto
    moreover have "v \<in> pl_alive s" if "CTaken k' v \<in># pl_callers s \<or> CSpawn k' v \<in># pl_callers s" for k' v
      using alive(2) [of "CTaken k' v" v] alive(2) [of "CSpawn k' v" v] that by auto
    ultimately show ?thesis
      using assms(2) alive(1,3) booted by (auto simp: origin_ok_def)
  qed (auto simp: origin_ok_def keys_ok_def)
qed

lemma origin_release: "origin_ok sg s \<Longrightarrow> release_step s s' \<Longrightarrow> origin_ok sg s'"
  by (erule release_stepE) (auto simp: origin_ok_def)

lemma origin_close: "origin_ok sg s \<Longrightarrow> close_step sg s s' \<Longrightarrow> origin_ok sg s'"
  by (erule close_stepE) (auto simp: origin_ok_def)

lemma origin_reachable: "strategy_ok sg \<Longrightarrow> pool_reachable sg s \<Longrightarrow> origin_ok sg s"
proof (erule pool_reachable.induct)
  have "r \<noteq> RSend k v" if "r \<in># (\<Sum>k \<in># mset ks. replicate_mset n (RWait k))" for r k v ks n
    using that by (induction ks) (auto split: if_splits)
  then show "origin_ok sg (new_pool sg)" by (auto simp: origin_ok_def new_pool_def)
next
  fix s s'
  assume "strategy_ok sg" "pool_reachable sg s" "origin_ok sg s" "pool_step sg s s'"
  then show "origin_ok sg s'"
    using origin_refill origin_acquire origin_spare origin_release origin_close vms_reachable keys_reachable
    unfolding pool_step_def by blast
qed

section \<open>How many VMs run\<close>

lemma size_sum_keys:
  "\<forall>r \<in># R. refill_key r \<in> K \<Longrightarrow> finite K \<Longrightarrow> size R = (\<Sum>k \<in> K. size {#r \<in># R. refill_key r = k#})"
proof (induction R)
  case (add r R)
  have "(\<Sum>k \<in> K. size {#x \<in># add_mset r R. refill_key x = k#}) =
      (\<Sum>k \<in> K. size {#x \<in># R. refill_key x = k#} + (if refill_key r = k then 1 else 0))"
    by (rule sum.cong) auto
  then show ?case using add by (simp add: sum.distrib)
qed simp

lemma size_vms:
  "size (\<Sum>r \<in># R. refill_vm r) \<le> size R" "size (\<Sum>c \<in># C. caller_vm c) \<le> size C"
proof -
  have "size (refill_vm r) \<le> 1" for r by (cases r) auto
  then show "size (\<Sum>r \<in># R. refill_vm r) \<le> size R"
    by (induction R) (auto simp: add.commute intro: le_trans [OF add_mono])
  have "size (caller_vm c) \<le> 1" for c by (cases c rule: caller_vm.cases) auto
  then show "size (\<Sum>c \<in># C. caller_vm c) \<le> size C"
    by (induction C) (auto simp: add.commute intro: le_trans [OF add_mono])
qed

section \<open>The stock of a language\<close>

text \<open>The callers that will, or would, start a refill for a channel.\<close>

fun replacing :: "string \<Rightarrow> caller \<Rightarrow> bool" where
  "replacing k (CTaken k' _) \<longleftrightarrow> k' = k"
| "replacing k (CSpawn k' _) \<longleftrightarrow> k' = k"
| "replacing k _ \<longleftrightarrow> False"

definition stock :: "pool \<Rightarrow> string \<Rightarrow> nat" where
  "stock s k = length (pl_chan s k) + size {#r \<in># pl_refills s. refill_key r = k#} +
     size {#c \<in># pl_callers s. replacing k c#}"

definition stock_ok :: "strategy \<Rightarrow> pool \<Rightarrow> bool" where
  "stock_ok sg s \<longleftrightarrow> (\<forall>k \<in> set (sg_keys sg). stock s k + pl_lost s k = sg_initial sg)"

lemma initial_stock:
  "distinct ks \<Longrightarrow>
    size {#r \<in># (\<Sum>k' \<in># mset ks. replicate_mset n (RWait k')). refill_key r = k#} = (if k \<in> set ks then n else 0)"
proof (induction ks)
  case (Cons a ks)
  have "{#r \<in># replicate_mset n (RWait a). refill_key r = k#} = (if a = k then replicate_mset n (RWait a) else {#})"
    by (induction n) auto
  with Cons show ?case by auto
qed simp

lemma stock_new: "strategy_ok sg \<Longrightarrow> stock_ok sg (new_pool sg)"
  using initial_stock [where ks = "sg_keys sg" and n = "sg_initial sg"]
  by (simp add: stock_ok_def stock_def new_pool_def strategy_ok_def)

lemma stock_refill: "stock_ok sg s \<Longrightarrow> refill_step sg s s' \<Longrightarrow> stock_ok sg s'"
  by (erule refill_stepE) (auto simp: stock_ok_def stock_def)

lemma stock_acquire: "stock_ok sg s \<Longrightarrow> acquire_step sg s s' \<Longrightarrow> stock_ok sg s'"
  by (erule acquire_stepE) (auto simp: stock_ok_def stock_def)

lemma stock_spare: "stock_ok sg s \<Longrightarrow> spare_step sg s s' \<Longrightarrow> stock_ok sg s'"
  by (erule spare_stepE) (auto simp: stock_ok_def stock_def)

lemma stock_release: "stock_ok sg s \<Longrightarrow> release_step s s' \<Longrightarrow> stock_ok sg s'"
  by (erule release_stepE) (auto simp: stock_ok_def stock_def)

lemma stock_close: "stock_ok sg s \<Longrightarrow> close_step sg s s' \<Longrightarrow> stock_ok sg s'"
  by (erule close_stepE) (auto simp: stock_ok_def stock_def)

lemma stock_reachable: "strategy_ok sg \<Longrightarrow> pool_reachable sg s \<Longrightarrow> stock_ok sg s"
proof (erule pool_reachable.induct)
  fix s s'
  assume "strategy_ok sg" "pool_reachable sg s" "stock_ok sg s" "pool_step sg s s'"
  then show "stock_ok sg s'"
    using stock_refill stock_acquire stock_spare stock_release stock_close unfolding pool_step_def by blast
qed (rule stock_new)

text \<open>The VMs that run: those of the stock, and one at most for each caller.\<close>

lemma alive_bound:
  assumes "strategy_ok sg" and "pool_reachable sg s"
  shows "card (pl_alive s) \<le> length (sg_keys sg) * sg_initial sg + size (pl_callers s)"
proof -
  let ?K = "set (sg_keys sg)"
  note ok = vms_reachable [OF assms] keys_reachable [OF assms] stock_reachable [OF assms]
  have "size (idle_vms sg s) = (\<Sum>k \<in> ?K. length (pl_chan s k))"
    by (simp add: idle_vms_def size_multiset_sum)
  moreover have "size (pl_refills s) = (\<Sum>k \<in> ?K. size {#r \<in># pl_refills s. refill_key r = k#})"
    using ok(2) by (intro size_sum_keys) (simp_all add: keys_ok_def)
  moreover have "(\<Sum>k \<in> ?K. length (pl_chan s k) + size {#r \<in># pl_refills s. refill_key r = k#}) \<le> (\<Sum>k \<in> ?K. sg_initial sg)"
  proof (rule sum_mono)
    fix k assume "k \<in> ?K"
    then have "stock s k + pl_lost s k = sg_initial sg" using ok(3) by (simp add: stock_ok_def)
    then show "length (pl_chan s k) + size {#r \<in># pl_refills s. refill_key r = k#} \<le> sg_initial sg"
      unfolding stock_def by linarith
  qed
  moreover have "(\<Sum>k \<in> ?K. sg_initial sg) \<le> length (sg_keys sg) * sg_initial sg"
    by (simp add: card_length)
  ultimately have "size (idle_vms sg s) + size (pl_refills s) \<le> length (sg_keys sg) * sg_initial sg"
    unfolding sum.distrib by linarith
  moreover have "size (sending_vms s) \<le> size (pl_refills s)" "size (busy_vms s) \<le> size (pl_callers s)"
    unfolding sending_vms_def busy_vms_def by (rule size_vms)+
  moreover have "card (pl_alive s) = size (idle_vms sg s) + size (sending_vms s) + size (busy_vms s)"
    using ok(1) by (metis vms_ok_def size_mset_set size_union)
  ultimately show ?thesis by linarith
qed

text \<open>When the channels are drained and no refill is left, only callers hold VMs.\<close>

lemma drained_vms:
  assumes "strategy_ok sg" and "pool_reachable sg s" and "pl_phase s = Draining {}"
  shows "mset_set (pl_alive s) = busy_vms s"
proof -
  note ok = phase_reachable [OF assms(2)] vms_reachable [OF assms(1,2)]
  have "idle_vms sg s = {#}"
    using ok(1) assms(3) by (auto simp: phase_ok_def drained_keys_def idle_vms_def)
  moreover have "refill_vm r = {#}" if "r \<in># pl_refills s" for r
    using ok(1) assms(3) that by (cases r) (auto simp: phase_ok_def no_send_def)
  then have "sending_vms s = {#}" by (simp add: sending_vms_def)
  ultimately show ?thesis using ok(2) by (simp add: vms_ok_def)
qed

lemma drained_alive:
  assumes "config_ok cfg" and "registry_ok reg" and "New is_print cfg reg = Inr sg"
    and "pool_reachable sg s" and "pl_phase s = Draining {}"
  shows "mset_set (pl_alive s) = busy_vms s"
  by (rule drained_vms [OF New_strategy_ok [OF assms(1-3)] assms(4,5)])

section \<open>Properties\<close>

text \<open>
  C5. A VM serves one caller: in every reachable state of each of the three pools, the VMs in
  the channels, with the refills and with the callers are exactly the running ones, each
  once; so no VM is handed out twice, none is both idle and in use, and none runs that
  nobody can reach.
\<close>

theorem vm_single_owner:
  assumes "config_ok cfg" and "registry_ok reg" and "New is_print cfg reg = Inr sg"
    and "pool_reachable sg s"
  shows "finite (pl_alive s) \<and> idle_vms sg s + sending_vms s + busy_vms s = mset_set (pl_alive s) \<and>
    count (busy_vms s) v \<le> 1"
proof -
  have ok: "vms_ok sg s" by (rule vms_reachable [OF New_strategy_ok [OF assms(1-3)] assms(4)])
  have "count (busy_vms s) v \<le> count (mset_set (pl_alive s)) v"
    using ok unfolding vms_ok_def by (metis count_union le_add2)
  also have "\<dots> \<le> 1"
    by (metis count_mset_set(1,3) finite_set_mset_mset_set le_numeral_extra(4) mset_set.infinite
        count_empty zero_le_one count_mset_set(2))
  finally show ?thesis using ok by (simp add: vms_ok_def)
qed

text \<open>
  The semaphore holds: in every reachable state at most \<^verbatim>\<open>BootConcurrency\<close> boots run at
  once, refills and callers together, no channel holds more than its capacity, and the wait
  group counts the refills.
\<close>

theorem pool_bounds:
  assumes "config_ok cfg" and "New is_print cfg reg = Inr sg" and "pool_reachable sg s"
  shows "int (boots s) \<le> sint (cfg_BootConcurrency cfg) \<and>
    length (pl_chan s k) \<le> sg_cap sg \<and> pl_wg s = size (pl_refills s)"
proof -
  have "1 \<le> sint (cfg_BootConcurrency cfg)" using assms(1) by (simp add: config_ok_def)
  then have "int (sg_sem sg) = sint (cfg_BootConcurrency cfg)"
    using assms(2)
    by (auto simp: New_def prewarmedPerLang_def onDemandSpare_def prewarmedGeneric_def newBootSemaphore_def
        split: if_splits)
  moreover have "counters_ok sg s" by (rule counters_reachable [OF assms(3)])
  ultimately show ?thesis by (auto simp: counters_ok_def)
qed

text \<open>
  \<^verbatim>\<open>Close\<close> is safe: in no reachable state does a refill that is about to send face a closed
  channel (a send would panic), whatever the race between \<^verbatim>\<open>Close\<close> and \<^verbatim>\<open>Acquire\<close>.
\<close>

theorem no_send_on_closed:
  assumes "pool_reachable sg s" and "pl_chan_closed s k"
  shows "RSend k v \<notin># pl_refills s"
  using phase_reachable [OF assms(1)] assms(2)
  by (auto simp: phase_ok_def no_send_def split: phase.splits)

text \<open>
  \<^verbatim>\<open>Close\<close> leaves no idle VM: when it has drained the last channel, every VM that still
  runs is in the hands of a caller of \<^verbatim>\<open>Acquire\<close>, to be released by it.
\<close>

theorem close_leaves_none:
  assumes "config_ok cfg" and "registry_ok reg" and "New is_print cfg reg = Inr sg"
    and "pool_reachable sg s" and "pl_phase s = Draining {}"
  shows "mset_set (pl_alive s) = busy_vms s"
  by (rule drained_alive [OF assms])


section \<open>Close comes to its end\<close>

lemma drop_refill:
  assumes "pl_cancelled s" and "pl_refills s = add_mset r R"
  shows "\<exists>s'. pool_step sg s s' \<and> pl_refills s' = R \<and> pl_phase s' = pl_phase s \<and> pl_cancelled s' \<and>
    pl_callers s' = pl_callers s \<and> pl_chan s' = pl_chan s"
proof (cases r)
  case (RWait k)
  then show ?thesis
    using refill_step.no_slot [of s k R sg] assms unfolding pool_step_def by fastforce
next
  case (RBooting k)
  then show ?thesis
    using refill_step.boot_failed [of s k R sg] assms unfolding pool_step_def by fastforce
next
  case (RSend k v)
  then show ?thesis
    using refill_step.unsent [of s k v R sg] assms unfolding pool_step_def by fastforce
qed

lemma refills_end:
  assumes "pl_cancelled s"
  shows "\<exists>s'. (pool_step sg)\<^sup>*\<^sup>* s s' \<and> pl_refills s' = {#} \<and> pl_phase s' = pl_phase s \<and> pl_cancelled s' \<and>
    pl_callers s' = pl_callers s \<and> pl_chan s' = pl_chan s"
  using assms
proof (induction "size (pl_refills s)" arbitrary: s)
  case 0
  then show ?case by auto
next
  case (Suc n)
  then obtain r R where r: "pl_refills s = add_mset r R" by (metis size_eq_Suc_imp_eq_union)
  obtain s1 where s1: "pool_step sg s s1" "pl_refills s1 = R" "pl_phase s1 = pl_phase s" "pl_cancelled s1"
    "pl_callers s1 = pl_callers s" "pl_chan s1 = pl_chan s"
    using drop_refill [OF Suc.prems r] by blast
  have "n = size (pl_refills s1)" using Suc.hyps(2) r s1(2) by simp
  from Suc.hyps(1) [OF this s1(4)] s1 show ?case
    by (metis converse_rtranclp_into_rtranclp)
qed

lemma drain_key:
  "pl_phase s = DrainKey k K \<Longrightarrow>
    \<exists>s'. (pool_step sg)\<^sup>*\<^sup>* s s' \<and> pl_phase s' = Draining K \<and> pl_callers s' = pl_callers s"
proof (induction "pl_chan s k" arbitrary: s)
  case Nil
  then have "pool_step sg s (s\<lparr>pl_phase := Draining K\<rparr>)"
    using close_step.drained [of s k K sg] unfolding pool_step_def by simp
  then show ?case by (intro exI [of _ "s\<lparr>pl_phase := Draining K\<rparr>"]) auto
next
  case (Cons v vs)
  let ?s = "lose k (s\<lparr>pl_chan := (pl_chan s)(k := vs), pl_alive := pl_alive s - {v}\<rparr>)"
  have "pool_step sg s ?s"
    using close_step.drain [OF Cons.prems, of v vs sg] Cons.hyps(2) unfolding pool_step_def by metis
  moreover have "\<exists>s'. (pool_step sg)\<^sup>*\<^sup>* ?s s' \<and> pl_phase s' = Draining K \<and> pl_callers s' = pl_callers ?s"
    using Cons.prems by (intro Cons.hyps(1)) simp_all
  moreover have "pl_callers ?s = pl_callers s" by simp
  ultimately show ?case by (metis converse_rtranclp_into_rtranclp)
qed

lemma drain_all:
  assumes "finite K"
  shows "pl_phase s = Draining K \<Longrightarrow>
    \<exists>s'. (pool_step sg)\<^sup>*\<^sup>* s s' \<and> pl_phase s' = Draining {} \<and> pl_callers s' = pl_callers s"
  using assms
proof (induction K arbitrary: s rule: finite_psubset_induct)
  case (psubset K)
  show ?case
  proof (cases "K = {}")
    case True
    then show ?thesis using psubset.prems by blast
  next
    case False
    then obtain k where k: "k \<in> K" by blast
    let ?s = "s\<lparr>pl_phase := DrainKey k (K - {k}), pl_chan_closed := (pl_chan_closed s)(k := True)\<rparr>"
    have 1: "pool_step sg s ?s"
      using close_step.close_chan [OF psubset.prems k] unfolding pool_step_def by blast
    obtain s1 where 2: "(pool_step sg)\<^sup>*\<^sup>* ?s s1" "pl_phase s1 = Draining (K - {k})"
      "pl_callers s1 = pl_callers s"
      using drain_key [of ?s k "K - {k}" sg] by auto
    have "K - {k} \<subset> K" using k by blast
    from psubset.IH [OF this 2(2)] 1 2(1,3) show ?thesis
      by (metis converse_rtranclp_into_rtranclp rtranclp_trans)
  qed
qed

lemma close_continues:
  assumes "pool_reachable sg s" and "pl_phase s = CtxCancelled"
  shows "\<exists>s'. (pool_step sg)\<^sup>*\<^sup>* s s' \<and> pl_phase s' = Draining {} \<and> pl_callers s' = pl_callers s"
proof -
  have "pl_cancelled s" using phase_reachable [OF assms(1)] assms(2) by (simp add: phase_ok_def)
  then obtain s1 where s1: "(pool_step sg)\<^sup>*\<^sup>* s s1" "pl_refills s1 = {#}" "pl_phase s1 = CtxCancelled"
    "pl_callers s1 = pl_callers s"
    using refills_end [of s sg] assms(2) by auto
  have "pool_reachable sg s1"
    using s1(1) assms(1) by (induction rule: rtranclp_induct) (auto intro: pool_reachable.step)
  then have "pl_wg s1 = 0" using counters_reachable s1(2) by (simp add: counters_ok_def)
  then have "pool_step sg s1 (s1\<lparr>pl_phase := Draining (set (sg_keys sg))\<rparr>)"
    using close_step.waited [of s1 sg] s1(3) unfolding pool_step_def by blast
  moreover obtain s' where "(pool_step sg)\<^sup>*\<^sup>* (s1\<lparr>pl_phase := Draining (set (sg_keys sg))\<rparr>) s'"
    "pl_phase s' = Draining {}" "pl_callers s' = pl_callers s1"
    using drain_all [of "set (sg_keys sg)" "s1\<lparr>pl_phase := Draining (set (sg_keys sg))\<rparr>" sg] by auto
  ultimately show ?thesis
    using s1(1,4) by (metis rtranclp.rtrancl_into_rtrancl rtranclp_trans)
qed


section \<open>The nil VM\<close>

lemma reachable_rtranclp:
  "(pool_step sg)\<^sup>*\<^sup>* s s' \<Longrightarrow> pool_reachable sg s \<Longrightarrow> pool_reachable sg s'"
  by (induction rule: rtranclp_induct) (auto intro: pool_reachable.step)

lemma close_while_selecting:
  assumes "sg_start sg l = FromPool k"
  obtains s where "pool_reachable sg s" "pl_phase s = CtxCancelled" "pl_refills s = {#}"
    "pl_callers s = {#CSelect k#}" "pl_chan s = (\<lambda>_. [])" "pl_closed s"
proof -
  let ?s0 = "new_pool sg" and ?s1 = "(new_pool sg)\<lparr>pl_callers := {#CSelect k#}\<rparr>"
  let ?s2 = "?s1\<lparr>pl_phase := ClosedSet, pl_closed := True\<rparr>"
  let ?s3 = "?s2\<lparr>pl_phase := CtxCancelled, pl_cancelled := True\<rparr>"
  have "pool_step sg ?s0 ?s1"
    using acquire_step.enter [of ?s0 sg l k] assms by (simp add: new_pool_def pool_step_def)
  moreover have "pool_step sg ?s1 ?s2"
    using close_step.flag [of ?s1 sg] by (simp add: new_pool_def pool_step_def)
  moreover have "pool_step sg ?s2 ?s3"
    using close_step.cancel [of ?s2 sg] by (simp add: pool_step_def)
  ultimately have r3: "pool_reachable sg ?s3"
    by (meson pool_reachable.new pool_reachable.step)
  obtain s where s: "(pool_step sg)\<^sup>*\<^sup>* ?s3 s" "pl_refills s = {#}" "pl_phase s = CtxCancelled"
    "pl_callers s = {#CSelect k#}" "pl_chan s = pl_chan ?s3"
    using refills_end [of ?s3 sg] by auto
  have r: "pool_reachable sg s" using reachable_rtranclp [OF s(1) r3] .
  then have "pl_closed s" using phase_reachable s(3) by (simp add: phase_ok_def)
  with s r show thesis by (intro that [of s]) (simp_all add: new_pool_def)
qed

text \<open>
  C40. \<^verbatim>\<open>Acquire\<close> can return a nil VM with no error: a call that passed the check of the flag
  before \<^verbatim>\<open>Close\<close> set it, and still waits when the channel is closed, receives nil. It
  happens only to calls that race with \<^verbatim>\<open>Close\<close>.
\<close>

theorem acquire_nil_vm:
  assumes "config_ok cfg" and "registry_ok reg" and "New is_print cfg reg = Inr sg"
    and "sg_start sg langID = FromPool k"
  shows "(\<exists>s. pool_reachable sg s \<and> CHold None \<in># pl_callers s) \<and>
    (\<forall>s. pool_reachable sg s \<longrightarrow> CHold None \<in># pl_callers s \<longrightarrow> pl_closed s)"
proof -
  have k: "k \<in> set (sg_keys sg)"
    using New_strategy_ok [OF assms(1-3)] assms(4) by (auto simp: strategy_ok_def)
  obtain s where s: "pool_reachable sg s" "pl_phase s = CtxCancelled" "pl_refills s = {#}"
    "pl_callers s = {#CSelect k#}" "pl_chan s = (\<lambda>_. [])" "pl_closed s"
    using close_while_selecting [OF assms(4)] .
  let ?s1 = "s\<lparr>pl_phase := Draining (set (sg_keys sg))\<rparr>"
  let ?s2 = "?s1\<lparr>pl_phase := DrainKey k (set (sg_keys sg) - {k}), pl_chan_closed := (pl_chan_closed s)(k := True)\<rparr>"
  let ?s3 = "?s2\<lparr>pl_callers := {#CHold None#}\<rparr>"
  have "pl_wg s = 0" using counters_reachable [OF s(1)] s(3) by (simp add: counters_ok_def)
  then have "pool_step sg s ?s1"
    using close_step.waited [of s sg] s(2) by (simp add: pool_step_def)
  moreover have "pool_step sg ?s1 ?s2"
    using close_step.close_chan [of ?s1 _ k sg] k by (simp add: pool_step_def)
  moreover have "pool_step sg ?s2 ?s3"
    using acquire_step.receive_nil [of ?s2 k "{#}" sg] s(4,5) by (simp add: pool_step_def)
  ultimately have "pool_reachable sg ?s3" using s(1) by (meson pool_reachable.step)
  moreover have "CHold None \<in># pl_callers ?s3" by simp
  ultimately have "\<exists>s. pool_reachable sg s \<and> CHold None \<in># pl_callers s" by blast
  moreover have "pl_closed s" if "pool_reachable sg s" "CHold None \<in># pl_callers s" for s
    using phase_reachable [OF that(1)] that(2) unfolding phase_ok_def by blast
  ultimately show ?thesis by blast
qed

section \<open>Witnesses\<close>

definition pool_config :: Config where
  "pool_config = floor_config (read_config
     [''DREDD_LANGUAGES_FILE'' \<mapsto> ''/l.json'', ''DREDD_KERNEL_PATH'' \<mapsto> ''/k''])"

lemma pool_config_simps [simp]:
  "cfg_PoolStrategy pool_config = PoolPrewarmedPerLang" "cfg_PoolSize pool_config = 1"
  "cfg_BootConcurrency pool_config = 8" "config_ok pool_config"
  by (simp_all add: pool_config_def floor_config_def read_config_def env_def envInt_def at_least_one_def
      config_ok_def known_strategy_def PoolPrewarmedPerLang_def PoolPrewarmedGeneric_def)

lemma python_registry_ok: "registry_ok python_registry"
  by (auto simp: registry_ok_def python_registry_def incomplete_def python_lang_def)

definition python_pool :: strategy where
  "python_pool = prewarmedPerLang (\<lambda>_. True) pool_config python_registry"

lemma python_pool_New: "New (\<lambda>_. True) pool_config python_registry = Inr python_pool"
  by (simp add: New_def python_pool_def)

lemma python_pool_simps [simp]:
  "sg_keys python_pool = [''py'']" "sg_initial python_pool = 1" "sg_sem python_pool = 8"
  "sg_start python_pool ''py'' = FromPool ''py''"
  by (simp_all add: python_pool_def prewarmedPerLang_def All_def python_registry_def python_lang_def
      newBootSemaphore_def)

lemmas python_pool_ok = pool_config_simps(4) python_registry_ok python_pool_New

text \<open>The pool after its first refill has booted, and after \<^verbatim>\<open>Close\<close> has finished.\<close>

definition warm_pool :: pool where
  "warm_pool = (new_pool python_pool)\<lparr>pl_refills := {#RSend ''py'' 0#}, pl_alive := {0},
    pl_key := (pl_key (new_pool python_pool))(0 := ''py'')\<rparr>"

lemma warm_pool_reachable: "pool_reachable python_pool warm_pool"
proof -
  let ?s0 = "new_pool python_pool" and ?s1 = "(new_pool python_pool)\<lparr>pl_refills := {#RBooting ''py''#}, pl_sem := 1\<rparr>"
  have r: "pl_refills ?s0 = {#RWait ''py''#}" by (simp add: new_pool_def)
  have "pool_step python_pool ?s0 ?s1"
    using refill_step.slot [OF r, of python_pool] by (simp add: pool_step_def new_pool_def)
  moreover have "pool_step python_pool ?s1 warm_pool"
    using refill_step.booted [of ?s1 "''py''" "{#}" 0 python_pool]
    by (simp add: pool_step_def warm_pool_def new_pool_def)
  ultimately show ?thesis by (meson pool_reachable.new pool_reachable.step)
qed

lemma vm_single_owner_witness: "finite (pl_alive warm_pool) \<and> count (busy_vms warm_pool) 0 \<le> 1"
  using vm_single_owner [OF python_pool_ok warm_pool_reachable] by blast

lemma pool_bounds_witness: "boots warm_pool \<le> 8 \<and> pl_wg warm_pool = 1"
  using pool_bounds [OF python_pool_ok(1,3) warm_pool_reachable] by (simp add: warm_pool_def)


lemma closing_pool:
  "\<exists>s. pool_reachable python_pool s \<and> pl_phase s = CtxCancelled"
  by (rule close_while_selecting [of python_pool "''py''" "''py''"]) auto


lemma closed_pool:
  "\<exists>s. pool_reachable python_pool s \<and> pl_phase s = Draining {}"
  using closing_pool reachable_rtranclp close_continues by metis

lemma close_leaves_none_witness:
  "\<exists>s :: pool. pl_phase s = Draining {} \<and> mset_set (pl_alive s) = busy_vms s"
  using closed_pool close_leaves_none [OF python_pool_ok] by blast

lemma no_send_on_closed_witness: "\<exists>s :: pool. pl_chan_closed s ''py'' \<and> RSend ''py'' 0 \<notin># pl_refills s"
proof -
  obtain s where s: "pool_reachable python_pool s" "pl_phase s = Draining {}" using closed_pool by blast
  then have "pl_chan_closed s ''py''"
    using phase_reachable [OF s(1)] by (simp add: phase_ok_def drained_keys_def)
  with no_send_on_closed [OF s(1) this, of 0] show ?thesis by blast
qed

lemma acquire_nil_vm_witness: "\<exists>s. pool_reachable python_pool s \<and> CHold None \<in># pl_callers s"
  using acquire_nil_vm [OF python_pool_ok python_pool_simps(4)] by blast

end
