(* ===== verification/Dredd_App.thy ===== *)
theory Dredd_App
  imports Worker_System Api Pool_Inv
begin

text \<open>
  \<^verbatim>\<open>dredd.go\<close> and \<^verbatim>\<open>cmd/dredd/main.go\<close>: the wiring and the life of the process. \<open>New_App\<close> is
  \<^verbatim>\<open>dredd.New\<close>; \<open>app_step\<close> interleaves the goroutines of a running process: the workers, the
  HTTP server, the pool, \<^verbatim>\<open>Run\<close> and the main goroutine with its shutdown. The pool's own
  steps are those of \<open>Pool\<close>, the workers' those of \<open>Worker_System\<close>.
\<close>

section \<open>Wiring\<close>

record ('r, 'e) Options =
  op_Config :: "Config option"
  op_Registry :: "Registry option"
  op_Redis :: "'r redis_client option"
  op_Executor :: "'e executor option"

text \<open>The queue is the Redis client and the result TTL, which the worker and the server carry.\<close>

record ('r, 'e) App =
  app_pool :: "strategy option"
  app_worker :: "('r, 'e) Worker"
  app_server :: "'r Server"
  app_addr :: string

datatype pool_act = PoolStarted strategy | PoolClosed strategy

text \<open>
  \<open>mk_exe\<close> is \<^verbatim>\<open>pool.NewExecutor\<close> on the pool built, \<open>listen\<close> the outcome of \<^verbatim>\<open>net.Listen\<close>; the
  second component is what was done with pools on the way.
\<close>

definition New_App ::
    "(nat \<Rightarrow> bool) \<Rightarrow> (strategy \<Rightarrow> 'e executor) \<Rightarrow> (string \<Rightarrow> string + string) \<Rightarrow> ('r, 'e) Options
      \<Rightarrow> (string + ('r, 'e) App) \<times> pool_act list" where
  "New_App is_print mk_exe listen opts =
     (case op_Config opts of
        None \<Rightarrow> (Inl ''dredd: Config is required'', [])
      | Some cfg \<Rightarrow>
     (case op_Registry opts of
        None \<Rightarrow> (Inl ''dredd: Registry is required'', [])
      | Some reg \<Rightarrow>
     (case op_Redis opts of
        None \<Rightarrow> (Inl ''dredd: Redis is required'', [])
      | Some rdb \<Rightarrow>
          (let built = (case op_Executor opts of
                          Some exe \<Rightarrow> Inr (exe, None)
                        | None \<Rightarrow>
                            (case New is_print cfg reg of
                               Inl err \<Rightarrow> Inl (''dredd: build pool: '' @ err)
                             | Inr sg \<Rightarrow> Inr (mk_exe sg, Some sg)))
           in case built of
                Inl err \<Rightarrow> (Inl err, [])
              | Inr (exe, vmPool) \<Rightarrow>
                  (let started = (case vmPool of Some sg \<Rightarrow> [PoolStarted sg] | None \<Rightarrow> []);
                       w = \<lparr>w_cfg = cfg, w_rdb = rdb, w_resultTTL = cfg_ResultTTL cfg, w_reg = reg, w_exe = exe,
                            w_is_print = is_print\<rparr>;
                       srv = \<lparr>sv_cfg = cfg, sv_reg = reg, sv_rdb = rdb\<rparr>
                   in case listen (cfg_HTTPAddr cfg) of
                        Inl err \<Rightarrow>
                          (Inl (''dredd: listen '' @ cfg_HTTPAddr cfg @ '': '' @ err),
                           started @ (case vmPool of Some sg \<Rightarrow> [PoolClosed sg] | None \<Rightarrow> []))
                      | Inr addr \<Rightarrow>
                          (Inr \<lparr>app_pool = vmPool, app_worker = w, app_server = srv, app_addr = addr\<rparr>, started))))))"

text \<open>
  The first half of \<^verbatim>\<open>main\<close>; each error is fatal. \<open>read_file\<close> and \<open>parse_url\<close> are
  \<^verbatim>\<open>os.ReadFile\<close> and \<^verbatim>\<open>redis.ParseURL\<close> with \<^verbatim>\<open>redis.NewClient\<close>.
\<close>

datatype setup_error = ConfigError config_error | LanguagesError load_error | RedisError string | AppError string

definition main_setup ::
    "(nat \<Rightarrow> bool) \<Rightarrow> (strategy \<Rightarrow> 'e executor) \<Rightarrow> (string \<Rightarrow> string + string) \<Rightarrow> (string \<Rightarrow> string + string)
      \<Rightarrow> (string \<Rightarrow> string + 'r redis_client) \<Rightarrow> (string \<rightharpoonup> string) \<Rightarrow> setup_error + ('r, 'e) App" where
  "main_setup is_print mk_exe listen read_file parse_url e =
     (case FromEnv e of
        Inl err \<Rightarrow> Inl (ConfigError err)
      | Inr cfg \<Rightarrow>
     (case Load_registry (read_file (cfg_LanguagesFile cfg)) (cfg_RootfsDir cfg) of
        Inl err \<Rightarrow> Inl (LanguagesError err)
      | Inr reg \<Rightarrow>
     (case parse_url (cfg_RedisURL cfg) of
        Inl err \<Rightarrow> Inl (RedisError err)
      | Inr rdb \<Rightarrow>
     (case fst (New_App is_print mk_exe listen
                  \<lparr>op_Config = Some cfg, op_Registry = Some reg, op_Redis = Some rdb, op_Executor = None\<rparr>) of
        Inl err \<Rightarrow> Inl (AppError err)
      | Inr app \<Rightarrow> Inr app))))"

section \<open>The running process\<close>

datatype http_state = Serving | HttpStopped | HttpFailed string

datatype main_pc = Waiting | ClosingPool | Exited | Fatal string

text \<open>\<open>pr_run\<close> says that \<^verbatim>\<open>Run\<close> has not returned yet.\<close>

record ('r, 'e) process =
  pr_sys :: "('r, 'e) system"
  pr_pool :: pool
  pr_ctx :: bool
  pr_http :: http_state
  pr_run :: bool
  pr_main :: main_pc

definition alive :: "('r, 'e) process \<Rightarrow> bool" where
  "alive s \<longleftrightarrow> (case pr_main s of Waiting \<Rightarrow> True | ClosingPool \<Rightarrow> True | Exited \<Rightarrow> False | Fatal _ \<Rightarrow> False)"

definition app_start :: "('r, 'e) App \<Rightarrow> strategy \<Rightarrow> 'r \<Rightarrow> 'e \<Rightarrow> string list \<Rightarrow> ('r, 'e) process" where
  "app_start app sg r e seen =
     \<lparr>pr_sys = sys_init (w_cfg (app_worker app)) r e seen, pr_pool = new_pool sg, pr_ctx = False,
      pr_http = Serving, pr_run = True, pr_main = Waiting\<rparr>"

text \<open>
  The steps: a handler submits a job, a worker makes a call, Redis expires a key, a goroutine
  of the pool or a caller of it moves on, a signal cancels the context, the server fails,
  \<^verbatim>\<open>Run\<close> returns (an error is fatal), and the main goroutine: woken by the signal it shuts
  the server down, closes the pool step by step, and returns. Nothing but Redis moves once
  the process is gone.
\<close>

inductive app_step ::
    "('r, 'e) App \<Rightarrow> ('r \<Rightarrow> redis_view) \<Rightarrow> strategy \<Rightarrow> ('r, 'e) process \<Rightarrow> ('r, 'e) process \<Rightarrow> bool"
  for app view sg where
  submit: "alive s \<Longrightarrow> pr_http s = Serving \<Longrightarrow> job_ID j \<notin> set (sy_seen (pr_sys s))
    \<Longrightarrow> Enqueue (sv_rdb (app_server app)) j (sy_r (pr_sys s)) = (err, r')
    \<Longrightarrow> app_step app view sg s (s\<lparr>pr_sys := (pr_sys s)\<lparr>sy_r := r', sy_seen := job_ID j # sy_seen (pr_sys s)\<rparr>\<rparr>)"
| work: "alive s \<Longrightarrow> i < length (sy_pcs (pr_sys s))
    \<Longrightarrow> wstep (app_worker app) (pr_ctx s) (sy_pcs (pr_sys s) ! i) (sy_r (pr_sys s), sy_e (pr_sys s)) = (p', r', e')
    \<Longrightarrow> app_step app view sg s
          (s\<lparr>pr_sys := (pr_sys s)\<lparr>sy_r := r', sy_e := e', sy_pcs := (sy_pcs (pr_sys s))[i := p']\<rparr>\<rparr>)"
| expire: "view r' = expire_key (jobKey k) (view (sy_r (pr_sys s)))
    \<Longrightarrow> app_step app view sg s (s\<lparr>pr_sys := (pr_sys s)\<lparr>sy_r := r'\<rparr>\<rparr>)"
| pool: "alive s \<Longrightarrow>
      refill_step sg (pr_pool s) p' \<or> acquire_step sg (pr_pool s) p' \<or> spare_step sg (pr_pool s) p' \<or>
      release_step (pr_pool s) p'
    \<Longrightarrow> app_step app view sg s (s\<lparr>pr_pool := p'\<rparr>)"
| signal: "alive s \<Longrightarrow> app_step app view sg s (s\<lparr>pr_ctx := True\<rparr>)"
| serve_fails: "alive s \<Longrightarrow> pr_http s = Serving \<Longrightarrow> app_step app view sg s (s\<lparr>pr_http := HttpFailed err\<rparr>)"
| run_returns: "alive s \<Longrightarrow> pr_run s \<Longrightarrow> pr_ctx s \<or> pr_http s = HttpStopped
    \<Longrightarrow> app_step app view sg s (s\<lparr>pr_run := False\<rparr>)"
| run_fails: "alive s \<Longrightarrow> pr_run s \<Longrightarrow> pr_http s = HttpFailed err
    \<Longrightarrow> app_step app view sg s (s\<lparr>pr_run := False, pr_main := Fatal (''dredd: '' @ err)\<rparr>)"
| http_shutdown: "pr_main s = Waiting \<Longrightarrow> pr_ctx s
    \<Longrightarrow> app_step app view sg s
          (s\<lparr>pr_http := (if pr_http s = Serving then HttpStopped else pr_http s), pr_main := ClosingPool\<rparr>)"
| pool_close: "pr_main s = ClosingPool \<Longrightarrow> close_step sg (pr_pool s) p'
    \<Longrightarrow> app_step app view sg s (s\<lparr>pr_pool := p'\<rparr>)"
| exit: "pr_main s = ClosingPool \<Longrightarrow> pl_phase (pr_pool s) = Draining {}
    \<Longrightarrow> app_step app view sg s (s\<lparr>pr_main := Exited\<rparr>)"

inductive_cases app_stepE: "app_step app view sg s s'"

inductive app_reachable ::
    "('r, 'e) App \<Rightarrow> ('r \<Rightarrow> redis_view) \<Rightarrow> strategy \<Rightarrow> ('r, 'e) process \<Rightarrow> bool"
  for app view sg where
  start: "sound_store (view r) seen \<Longrightarrow> app_reachable app view sg (app_start app sg r e seen)"
| step: "app_reachable app view sg s \<Longrightarrow> app_step app view sg s s' \<Longrightarrow> app_reachable app view sg s'"

text \<open>What \<^verbatim>\<open>New_App\<close> wires together.\<close>

definition wired :: "('r, 'e) App \<Rightarrow> bool" where
  "wired app \<longleftrightarrow> sv_rdb (app_server app) = w_rdb (app_worker app)"

lemma New_App_wired: "New_App is_print mk_exe listen opts = (Inr app, acts) \<Longrightarrow> wired app"
  by (auto simp: New_App_def wired_def Let_def split: option.splits sum.splits)

text \<open>What \<^verbatim>\<open>main\<close> starts with satisfies everything the parts ask for.\<close>

lemma main_setup_ok:
  assumes "main_setup is_print mk_exe listen read_file parse_url e = Inr app"
  shows "wired app" "config_ok (w_cfg (app_worker app))" "registry_ok (w_reg (app_worker app))"
    "\<exists>sg. app_pool app = Some sg \<and> New is_print (w_cfg (app_worker app)) (w_reg (app_worker app)) = Inr sg"
proof -
  obtain cfg reg rdb where c: "FromEnv e = Inr cfg"
    "Load_registry (read_file (cfg_LanguagesFile cfg)) (cfg_RootfsDir cfg) = Inr reg"
    and n: "fst (New_App is_print mk_exe listen
      \<lparr>op_Config = Some cfg, op_Registry = Some reg, op_Redis = Some rdb, op_Executor = None\<rparr>) = Inr app"
    using assms by (auto simp: main_setup_def split: sum.splits)
  note ok = FromEnv_ok [OF c(1)] Load_registry_ok [OF c(2)]
  show "wired app" using New_App_wired n by (metis prod.collapse)
  show "config_ok (w_cfg (app_worker app))" "registry_ok (w_reg (app_worker app))"
    "\<exists>sg. app_pool app = Some sg \<and> New is_print (w_cfg (app_worker app)) (w_reg (app_worker app)) = Inr sg"
    using n ok by (auto simp: New_App_def Let_def split: sum.splits)
qed

section \<open>The parts of a step\<close>

text \<open>Every step is a step of the workers and Redis, or of the pool, or moves neither.\<close>

lemma app_step_parts:
  assumes "app_step app view sg s s'" and "wired app"
  shows "pr_sys s' = pr_sys s \<or> sys_step (app_worker app) view (pr_sys s) (pr_sys s')"
    and "pr_pool s' = pr_pool s \<or> pool_step sg (pr_pool s) (pr_pool s')"
proof -
  show "pr_pool s' = pr_pool s \<or> pool_step sg (pr_pool s) (pr_pool s')"
    using assms(1) by cases (auto simp: pool_step_def)
  show "pr_sys s' = pr_sys s \<or> sys_step (app_worker app) view (pr_sys s) (pr_sys s')"
    using assms(1)
  proof cases
    case (submit j err r')
    then show ?thesis
      using sys_step.submit [of j "pr_sys s" "app_worker app" err r' view] assms(2) by (simp add: wired_def)
  next
    case (work i p' r' e')
    then show ?thesis using sys_step.work [OF work(3,4), of view] by simp
  next
    case (expire r' k)
    then show ?thesis using sys_step.expire [of view r' k "pr_sys s" "app_worker app"] by simp
  qed simp_all
qed

lemma app_reachable_parts:
  assumes "app_reachable app view sg s" and "wired app"
  shows "sys_reachable (app_worker app) view (pr_sys s) \<and> pool_reachable sg (pr_pool s)"
  using assms(1)
proof induction
  case (start r seen e)
  then show ?case by (simp add: app_start_def sys_reachable.init pool_reachable.new)
next
  case (step s s')
  then show ?case
    using app_step_parts [OF step(2) assms(2)]
    by (metis sys_reachable.step pool_reachable.step)
qed


section \<open>Shutting down\<close>

lemma phase_unchanged:
  "refill_step sg p p' \<or> acquire_step sg p p' \<or> spare_step sg p p' \<or> release_step p p' \<Longrightarrow> pl_phase p' = pl_phase p"
  by (elim disjE; erule pool_cases) simp_all

definition shutdown_ok :: "('r, 'e) process \<Rightarrow> bool" where
  "shutdown_ok s \<longleftrightarrow>
     (pr_main s = ClosingPool \<or> pr_main s = Exited \<or> pl_phase (pr_pool s) \<noteq> Opened \<longrightarrow>
        pr_ctx s \<and> pr_http s \<noteq> Serving) \<and>
     (pr_main s = Waiting \<longrightarrow> pl_phase (pr_pool s) = Opened) \<and>
     (pr_main s = Exited \<longrightarrow> pl_phase (pr_pool s) = Draining {})"

lemma shutdown_ok_step:
  assumes "app_step app view sg s s'" and "shutdown_ok s"
  shows "shutdown_ok s'"
  using assms
proof cases
  case (pool p')
  then show ?thesis
    using assms(2) phase_unchanged [OF pool(3)] by (simp add: shutdown_ok_def)
next
  case (pool_close p')
  then show ?thesis using assms(2) by (simp add: shutdown_ok_def)
qed (auto simp: shutdown_ok_def alive_def)

lemma shutdown_ok_reachable: "app_reachable app view sg s \<Longrightarrow> shutdown_ok s"
proof (induction rule: app_reachable.induct)
  case (start r seen e)
  show ?case by (simp add: shutdown_ok_def app_start_def new_pool_def)
next
  case (step s s')
  then show ?case using shutdown_ok_step by blast
qed

text \<open>Once the process has exited, only keys expire; the rest stands still.\<close>

lemma exited_stays:
  assumes "(app_step app view sg)\<^sup>*\<^sup>* s s'" and "pr_main s = Exited"
  shows "pr_main s' = Exited \<and> pr_pool s' = pr_pool s \<and> sy_pcs (pr_sys s') = sy_pcs (pr_sys s) \<and>
    (\<forall>k st. status_at (view (sy_r (pr_sys s))) k st \<longrightarrow> status_at (view (sy_r (pr_sys s'))) k st)"
  using assms(1)
proof induction
  case base
  then show ?case using assms(2) by simp
next
  case (step s1 s2)
  note m = step.IH [THEN conjunct1]
  from step.hyps(2) show ?case
  proof cases
    case (expire r' k)
    have "status_at (view r') k' st" if "status_at (view (sy_r (pr_sys s1))) k' st" for k' st
    proof -
      have "rv_ttl (view (sy_r (pr_sys s1))) (jobKey k') = None" using that by (simp add: status_at_def)
      then have "same_at (view (sy_r (pr_sys s1))) (view r') k'"
        using same_at_expire expire(2) by metis
      with that show ?thesis by (simp add: same_at_status)
    qed
    then show ?thesis using step.IH expire(1) by simp
  qed (use m in \<open>simp_all add: alive_def\<close>)
qed

lemma pool_steps_closing:
  assumes "(pool_step sg)\<^sup>*\<^sup>* p p'" and "pr_main s = ClosingPool" and "pr_pool s = p"
  shows "(app_step app view sg)\<^sup>*\<^sup>* s (s\<lparr>pr_pool := p'\<rparr>)"
  using assms(1)
proof induction
  case base
  have "s\<lparr>pr_pool := p\<rparr> = s" using assms(3) by simp
  then show ?case by simp
next
  case (step p1 p2)
  let ?s = "s\<lparr>pr_pool := p1\<rparr>"
  have "app_step app view sg ?s (?s\<lparr>pr_pool := p2\<rparr>)"
    using step(2) app_step.pool_close [of ?s sg p2 app view] app_step.pool [of ?s sg p2 app view] assms(2)
    by (auto simp: pool_step_def alive_def)
  with step.IH show ?case by simp
qed

text \<open>Main can go from its wait to its end without any step of a worker or a caller.\<close>

lemma main_can_exit:
  assumes "app_reachable app view sg s" and "wired app" and "pr_main s = Waiting"
  shows "\<exists>s'. (app_step app view sg)\<^sup>*\<^sup>* s s' \<and> pr_main s' = Exited \<and> pr_sys s' = pr_sys s \<and>
    pl_callers (pr_pool s') = pl_callers (pr_pool s)"
proof -
  let ?p = "pr_pool s"
  let ?p1 = "?p\<lparr>pl_phase := ClosedSet, pl_closed := True\<rparr>"
  let ?p2 = "?p1\<lparr>pl_phase := CtxCancelled, pl_cancelled := True\<rparr>"
  let ?s1 = "s\<lparr>pr_ctx := True\<rparr>"
  let ?s2 = "?s1\<lparr>pr_http := (if pr_http ?s1 = Serving then HttpStopped else pr_http ?s1), pr_main := ClosingPool\<rparr>"
  have 1: "app_step app view sg s ?s1" using app_step.signal [of s app view sg] assms(3) by (simp add: alive_def)
  have 2: "app_step app view sg ?s1 ?s2"
    using app_step.http_shutdown [of ?s1 app view sg] assms(3) by simp
  have "pl_phase ?p = Opened" using shutdown_ok_reachable [OF assms(1)] assms(3) by (simp add: shutdown_ok_def)
  then have p1: "pool_step sg ?p ?p1" using close_step.flag [of ?p sg] by (simp add: pool_step_def)
  have p2: "pool_step sg ?p1 ?p2" using close_step.cancel [of ?p1 sg] by (simp add: pool_step_def)
  have "pool_reachable sg ?p2"
    using app_reachable_parts [OF assms(1,2)] p1 p2 pool_reachable.step by blast
  then obtain p3 where p3: "(pool_step sg)\<^sup>*\<^sup>* ?p2 p3" "pl_phase p3 = Draining {}" "pl_callers p3 = pl_callers ?p"
    using close_continues [of sg ?p2] by auto
  have "(pool_step sg)\<^sup>*\<^sup>* ?p p3"
    using p1 p2 p3(1) by (meson converse_rtranclp_into_rtranclp)
  then have 3: "(app_step app view sg)\<^sup>*\<^sup>* ?s2 (?s2\<lparr>pr_pool := p3\<rparr>)"
    by (rule pool_steps_closing) simp_all
  let ?s4 = "?s2\<lparr>pr_pool := p3, pr_main := Exited\<rparr>"
  have "app_step app view sg (?s2\<lparr>pr_pool := p3\<rparr>) ?s4"
    using app_step.exit [of "?s2\<lparr>pr_pool := p3\<rparr>" app view sg] p3(2) by simp
  with 1 2 3 have "(app_step app view sg)\<^sup>*\<^sup>* s ?s4"
    by (meson converse_rtranclp_into_rtranclp rtranclp.rtrancl_into_rtrancl)
  then show ?thesis using p3(3) by (intro exI [of _ ?s4]) simp
qed

section \<open>Properties\<close>

text \<open>
  \<^verbatim>\<open>New\<close> owns what it makes: with an executor of the caller no pool is started; without one,
  exactly one is, which the App then owns; and when \<^verbatim>\<open>New\<close> fails, a pool it started is closed
  again, so that an error leaves no pool behind.
\<close>

theorem New_App_owns:
  "case New_App is_print mk_exe listen opts of
     (Inl err, acts) \<Rightarrow> acts = [] \<or> (\<exists>sg. op_Executor opts = None \<and> acts = [PoolStarted sg, PoolClosed sg])
   | (Inr app, acts) \<Rightarrow>
       acts = (case app_pool app of None \<Rightarrow> [] | Some sg \<Rightarrow> [PoolStarted sg]) \<and>
       (app_pool app = None \<longleftrightarrow> op_Executor opts \<noteq> None) \<and>
       (\<exists>cfg reg rdb. op_Config opts = Some cfg \<and> op_Registry opts = Some reg \<and> op_Redis opts = Some rdb)"
  by (auto simp: New_App_def Let_def split: option.splits sum.splits)

text \<open>
  C28. Shutdown is ordered: in every reachable state of the process, the pool is being closed
  only after the signal came and the server stopped accepting; and when main has returned,
  the pool is closed and drained: the VMs still running are those in the hands of workers.
\<close>

theorem shutdown_ordered:
  assumes "main_setup is_print mk_exe listen read_file parse_url e = Inr app" and "app_pool app = Some sg"
    and "app_reachable app view sg s"
  shows "(pl_phase (pr_pool s) \<noteq> Opened \<longrightarrow> pr_ctx s \<and> pr_http s \<noteq> Serving) \<and>
    (pr_main s = Exited \<longrightarrow> pl_phase (pr_pool s) = Draining {} \<and>
       mset_set (pl_alive (pr_pool s)) = busy_vms (pr_pool s))"
proof -
  note ok = main_setup_ok [OF assms(1)]
  have n: "New is_print (w_cfg (app_worker app)) (w_reg (app_worker app)) = Inr sg" using ok(4) assms(2) by auto
  have "pool_reachable sg (pr_pool s)" using app_reachable_parts [OF assms(3) ok(1)] by blast
  then have "mset_set (pl_alive (pr_pool s)) = busy_vms (pr_pool s)" if "pl_phase (pr_pool s) = Draining {}"
    using drained_alive [OF ok(2,3) n] that by blast
  then show ?thesis
    using shutdown_ok_reachable [OF assms(3)] by (auto simp: shutdown_ok_def)
qed



section \<open>Witnesses\<close>

definition demo_opts :: "(redis_view, nat) Options" where
  "demo_opts = \<lparr>op_Config = Some pool_config, op_Registry = Some python_registry, op_Redis = Some mem_redis,
     op_Executor = None\<rparr>"

definition demo_app :: "(redis_view, nat) App" where
  "demo_app = \<lparr>app_pool = Some python_pool,
     app_worker = \<lparr>w_cfg = pool_config, w_rdb = mem_redis, w_resultTTL = cfg_ResultTTL pool_config,
       w_reg = python_registry, w_exe = flaky, w_is_print = (\<lambda>_. True)\<rparr>,
     app_server = \<lparr>sv_cfg = pool_config, sv_reg = python_registry, sv_rdb = mem_redis\<rparr>, app_addr = '':8080''\<rparr>"

lemma demo_app_New:
  "New_App (\<lambda>_. True) (\<lambda>_. flaky) (\<lambda>_. Inr '':8080'') demo_opts = (Inr demo_app, [PoolStarted python_pool])"
  by (simp add: New_App_def demo_opts_def demo_app_def python_pool_New)

lemmas demo_wired = New_App_wired [OF demo_app_New]

definition demo_env :: "string \<rightharpoonup> string" where
  "demo_env = [''DREDD_LANGUAGES_FILE'' \<mapsto> ''/l.json'', ''DREDD_KERNEL_PATH'' \<mapsto> ''/k'']"

lemma demo_setup:
  "main_setup (\<lambda>_. True) (\<lambda>_. flaky) (\<lambda>_. Inr '':8080'') (\<lambda>_. Inr python_file) (\<lambda>_. Inr mem_redis) demo_env
    = Inr demo_app"
proof -
  have "FromEnv demo_env = Inr pool_config"
    by (simp add: FromEnv_def pool_config_def demo_env_def read_config_def env_def known_strategy_def
        PoolPrewarmedPerLang_def PoolPrewarmedGeneric_def)
  then show ?thesis
    using demo_app_New by (simp add: main_setup_def python_loads demo_opts_def)
qed

lemma demo_app_simps [simp]:
  "w_rdb (app_worker demo_app) = mem_redis" "w_cfg (app_worker demo_app) = pool_config"
  "w_reg (app_worker demo_app) = python_registry" "w_exe (app_worker demo_app) = flaky"
  "sv_rdb (app_server demo_app) = mem_redis"
  by (simp_all add: demo_app_def)

definition demo_process :: "redis_view \<Rightarrow> pc \<Rightarrow> pc list \<Rightarrow> string list \<Rightarrow> (redis_view, nat) process" where
  "demo_process r p ps seen =
     \<lparr>pr_sys = \<lparr>sy_r = r, sy_e = 0, sy_pcs = p # ps, sy_seen = seen\<rparr>, pr_pool = new_pool python_pool,
      pr_ctx = False, pr_http = Serving, pr_run = True, pr_main = Waiting\<rparr>"

abbreviation demo_reaches :: "(redis_view, nat) process \<Rightarrow> bool" where
  "demo_reaches \<equiv> app_reachable demo_app (\<lambda>v. v) python_pool"

lemma demo_process_work:
  assumes "demo_reaches (demo_process r p ps seen)" and "wstep (app_worker demo_app) False p (r, 0) = (p', r', 0)"
  shows "demo_reaches (demo_process r' p' ps seen)"
proof -
  have "app_step demo_app (\<lambda>v. v) python_pool (demo_process r p ps seen) (demo_process r' p' ps seen)"
    using app_step.work [of "demo_process r p ps seen" 0 demo_app p' r' 0 "\<lambda>v. v" python_pool] assms(2)
    by (simp add: demo_process_def alive_def)
  with assms(1) show ?thesis by (rule app_reachable.step)
qed

lemma demo_attempt:
  "\<exists>r ps. demo_reaches (demo_process r (Attempt ''j1'' ''py'' (job_request pool_config python_lang (queued_job sample_job))
      maxAttempts []) ps [''j1''])"
proof -
  have "nat (sint (cfg_WorkerConcurrency pool_config)) = Suc 3"
    by (simp add: pool_config_def floor_config_def read_config_def env_def envInt_def at_least_one_def)
  then have n: "replicate (nat (sint (cfg_WorkerConcurrency pool_config))) Idle = Idle # replicate 3 Idle"
    by (simp only: replicate_Suc)
  have "demo_reaches (app_start demo_app python_pool empty_view 0 [])"
    by (rule app_reachable.start) (rule sound_store_empty)
  then have 0: "demo_reaches (demo_process empty_view Idle (replicate 3 Idle) [])"
    by (simp add: app_start_def sys_init_def demo_process_def n)
  have "app_step demo_app (\<lambda>v. v) python_pool (demo_process empty_view Idle (replicate 3 Idle) [])
      (demo_process sample_state Idle (replicate 3 Idle) [''j1''])"
    using app_step.submit [of "demo_process empty_view Idle (replicate 3 Idle) []" sample_job demo_app None sample_state
        "\<lambda>v. v" python_pool] sample_steps(1)
    by (simp add: demo_process_def alive_def sample_job_def)
  with 0 have 1: "demo_reaches (demo_process sample_state Idle (replicate 3 Idle) [''j1''])"
    by (rule app_reachable.step)
  have 2: "demo_reaches (demo_process drained_state (Got ''j1'') (replicate 3 Idle) [''j1''])"
    by (rule demo_process_work [OF 1]) (simp add: sample_steps(2))
  have 3: "demo_reaches (demo_process drained_state (Loaded ''j1'' (queued_job sample_job)) (replicate 3 Idle) [''j1''])"
    by (rule demo_process_work [OF 2])
      (use drained_state_job in \<open>simp add: Load_mem job_at_def split: sum.splits\<close>)
  obtain r where "SetRunning mem_redis ''j1'' drained_state = (None, r)"
    using reliable_ops(1) [OF reliable_mem] by (metis prod.collapse)
  then have 4: "demo_reaches (demo_process r (Running ''j1'' (queued_job sample_job)) (replicate 3 Idle) [''j1''])"
    by (intro demo_process_work [OF 3]) simp
  have "Get python_registry (job_Language (queued_job sample_job)) = Some python_lang" "lang_ID python_lang = ''py''"
    by (simp_all add: python_registry_def Get_def sample_job_def queued_job_def python_lang_def)
  then have "demo_reaches (demo_process r (Attempt ''j1'' ''py'' (job_request pool_config python_lang (queued_job sample_job))
      maxAttempts []) (replicate 3 Idle) [''j1''])"
    by (intro demo_process_work [OF 4]) simp
  then show ?thesis by blast
qed


lemma shutdown_ordered_witness:
  "\<exists>s :: (redis_view, nat) process. pr_main s = Exited \<and> mset_set (pl_alive (pr_pool s)) = busy_vms (pr_pool s)"
proof -
  obtain s where s: "demo_reaches s" "pr_main s = Waiting"
    using demo_attempt by (fastforce simp: demo_process_def)
  obtain s' where s': "(app_step demo_app (\<lambda>v. v) python_pool)\<^sup>*\<^sup>* s s'" "pr_main s' = Exited"
    using main_can_exit [OF s(1) demo_wired s(2)] by blast
  from s'(1) s(1) have "demo_reaches s'"
    by (induction rule: rtranclp_induct) (auto intro: app_reachable.step)
  from shutdown_ordered [OF demo_setup _ this] s'(2) show ?thesis by (auto simp: demo_app_def)
qed

end
