(* ===== verification/Pool_Boot.thy ===== *)
theory Pool_Boot
  imports Pool_Inv
begin

text \<open>
  What stands behind the boot step of the pools: a directory is made and the driver boots a VM
  in it. On a host whose processes are the pool's running VMs, the driver's boot simulates the
  step of the refill, whatever its outcome, and \<^verbatim>\<open>Kill\<close> the loss of a VM.
\<close>

section \<open>Booting for a pool\<close>

text \<open>\<^verbatim>\<open>os.MkdirTemp\<close> is a parameter.\<close>

definition vmWorkDir :: "(string \<Rightarrow> 'h \<Rightarrow> (string + string) \<times> 'h) \<Rightarrow> string \<Rightarrow> 'h \<Rightarrow> (string + string) \<times> 'h" where
  "vmWorkDir mktemp pre st =
     (case mktemp (''dredd-'' @ pre @ ''-'') st of
        (Inl e, st1) \<Rightarrow> (Inl e, st1)
      | (Inr dir, st1) \<Rightarrow> (Inr (Clean dir), st1))"

definition bootFor ::
    "'h host \<Rightarrow> (string \<Rightarrow> 'h \<Rightarrow> (string + string) \<times> 'h) \<Rightarrow> string \<Rightarrow> Config \<Rightarrow> Language \<Rightarrow> int \<Rightarrow> 64 word \<Rightarrow> 'h
      \<Rightarrow> (string + VM) \<times> 64 word \<times> 'h" where
  "bootFor h mktemp bin cfg l now s st =
     (case vmWorkDir mktemp (lang_ID l) st of
        (Inl e, st1) \<Rightarrow> (Inl e, s, st1)
      | (Inr dir, st1) \<Rightarrow> Boot h bin (lang_boot_options cfg l dir) now s st1)"

text \<open>The spare strategy's; \<open>slot\<close> is the outcome of the semaphore's \<^verbatim>\<open>acquire\<close>.\<close>

definition spare_bootFor ::
    "'h host \<Rightarrow> (string \<Rightarrow> 'h \<Rightarrow> (string + string) \<times> 'h) \<Rightarrow> string \<Rightarrow> Config \<Rightarrow> string option \<Rightarrow> Language \<Rightarrow> int
      \<Rightarrow> 64 word \<Rightarrow> 'h \<Rightarrow> (string + VM) \<times> 64 word \<times> 'h" where
  "spare_bootFor h mktemp bin cfg slot l now s st =
     (case slot of
        Some ctx_err \<Rightarrow> (Inl ctx_err, s, st)
      | None \<Rightarrow>
          (case vmWorkDir mktemp (lang_ID l) st of
             (Inl e, st1) \<Rightarrow> (Inl e, s, st1)
           | (Inr dir, st1) \<Rightarrow> Boot h bin (spare_boot_options cfg l dir) now s st1))"

definition generic_boot ::
    "'h host \<Rightarrow> (string \<Rightarrow> 'h \<Rightarrow> (string + string) \<times> 'h) \<Rightarrow> string \<Rightarrow> Config \<Rightarrow> int \<Rightarrow> 64 word \<Rightarrow> 'h
      \<Rightarrow> (string + VM) \<times> 64 word \<times> 'h" where
  "generic_boot h mktemp bin cfg now s st =
     (case vmWorkDir mktemp ''generic'' st of
        (Inl e, st1) \<Rightarrow> (Inl e, s, st1)
      | (Inr dir, st1) \<Rightarrow> Boot h bin (generic_boot_options cfg dir) now s st1)"

section \<open>Simulation\<close>

text \<open>What a boot does to the processes.\<close>

definition boots_one :: "nat set \<Rightarrow> string + VM \<Rightarrow> nat set \<Rightarrow> bool" where
  "boots_one pids res pids' \<longleftrightarrow>
     (case res of Inr vm \<Rightarrow> vm_pid vm \<notin> pids \<and> pids' = insert (vm_pid vm) pids | Inl _ \<Rightarrow> pids' = pids)"

lemma boots_none [simp]: "boots_one pids (Inl m) pids"
  by (simp add: boots_one_def)

lemma Boot_boots_one:
  "host_laws h procs dirs \<Longrightarrow> Boot h bin opt now s st = (res, s', st') \<Longrightarrow> boots_one (procs st) res (procs st')"
  using host_laws.Boot_effect [of h procs dirs bin opt now s st res s' st']
  by (cases res) (simp_all add: boots_one_def)

lemma vmWorkDir_procs:
  "(\<And>p st. procs (snd (mktemp p st)) = procs st) \<Longrightarrow> vmWorkDir mktemp pre st = (x, st1) \<Longrightarrow> procs st1 = procs st"
  by (auto simp: vmWorkDir_def split: prod.splits sum.splits) (metis snd_conv)+

lemma bootFor_boots_one:
  assumes "host_laws h procs dirs" and "\<And>p st. procs (snd (mktemp p st)) = procs st"
  shows "bootFor h mktemp bin cfg l now s st = (res, s', st') \<Longrightarrow> boots_one (procs st) res (procs st')"
    and "spare_bootFor h mktemp bin cfg slot l now s st = (res, s', st') \<Longrightarrow> boots_one (procs st) res (procs st')"
    and "generic_boot h mktemp bin cfg now s st = (res, s', st') \<Longrightarrow> boots_one (procs st) res (procs st')"
proof -
  have b: "boots_one (procs st) res (procs st')"
    if "vmWorkDir mktemp pre st = (x, st1)" "Boot h bin opt now s st1 = (res, s', st')" for pre x st1 opt
    using Boot_boots_one [OF assms(1) that(2)] vmWorkDir_procs [of procs, OF assms(2) that(1)] by simp
  have e: "boots_one (procs st) (Inl m) (procs st1)" if "vmWorkDir mktemp pre st = (x, st1)" for pre x st1 m
    using vmWorkDir_procs [of procs, OF assms(2) that] by (simp add: boots_one_def)
  show "bootFor h mktemp bin cfg l now s st = (res, s', st') \<Longrightarrow> boots_one (procs st) res (procs st')"
    by (auto simp: bootFor_def split: prod.splits sum.splits intro: b e)
  show "spare_bootFor h mktemp bin cfg slot l now s st = (res, s', st') \<Longrightarrow> boots_one (procs st) res (procs st')"
    by (auto simp: spare_bootFor_def split: prod.splits sum.splits option.splits intro: b e)
  show "generic_boot h mktemp bin cfg now s st = (res, s', st') \<Longrightarrow> boots_one (procs st) res (procs st')"
    by (auto simp: generic_boot_def split: prod.splits sum.splits intro: b e)
qed

text \<open>The step of the refill that an outcome stands for.\<close>

lemma boots_one_step:
  assumes "boots_one (pl_alive s) res pids" and "pl_refills s = add_mset (RBooting k) R" and "\<not> pl_cancelled s"
  shows "\<exists>s'. refill_step sg s s' \<and> pl_alive s' = pids \<and>
    (case res of
       Inr vm \<Rightarrow> pl_refills s' = add_mset (RSend k (vm_pid vm)) R \<and> pl_key s' (vm_pid vm) = k
     | Inl _ \<Rightarrow> pl_refills s' = R \<and> pl_lost s' k = Suc (pl_lost s k))"
proof (cases res)
  case (Inl e)
  let ?s = "lose k (s\<lparr>pl_refills := R, pl_sem := pl_sem s - 1, pl_wg := pl_wg s - 1\<rparr>)"
  show ?thesis
    using refill_step.boot_failed [OF assms(2), of sg] assms(1) Inl by (intro exI [of _ ?s]) (simp add: boots_one_def)
next
  case (Inr vm)
  let ?s = "s\<lparr>pl_refills := add_mset (RSend k (vm_pid vm)) R, pl_sem := pl_sem s - 1,
    pl_alive := insert (vm_pid vm) (pl_alive s), pl_key := (pl_key s)(vm_pid vm := k)\<rparr>"
  show ?thesis
    using refill_step.booted [OF assms(2,3), of "vm_pid vm" sg] assms(1) Inr
    by (intro exI [of _ ?s]) (simp add: boots_one_def)
qed

section \<open>Properties\<close>

text \<open>
  The driver does what the pools count on: on a host whose processes are the running VMs of
  a pool, the boot behind a refill, whatever comes of it, is a step of that refill,
  after which the processes are again the running VMs: one more, and about to be sent, when
  the boot succeeded, and none more, with the refill gone, when it failed; and killing a
  running VM takes away exactly its process.
\<close>

theorem boot_simulates_refill:
  assumes "host_laws h procs dirs" and "\<And>p st. procs (snd (mktemp p st)) = procs st"
    and "procs st = pl_alive s"
  shows "(pl_refills s = add_mset (RBooting k) R \<longrightarrow> \<not> pl_cancelled s \<longrightarrow>
      bootFor h mktemp bin cfg l now n st = (res, n', st') \<longrightarrow>
      (\<exists>s'. refill_step sg s s' \<and> pl_alive s' = procs st' \<and>
        (case res of
           Inr vm \<Rightarrow> pl_refills s' = add_mset (RSend k (vm_pid vm)) R \<and> pl_key s' (vm_pid vm) = k
         | Inl _ \<Rightarrow> pl_refills s' = R \<and> pl_lost s' k = Suc (pl_lost s k)))) \<and>
    procs (Kill h (Some vm) st) = pl_alive s - {vm_pid vm}"
proof (intro conjI impI)
  assume r: "pl_refills s = add_mset (RBooting k) R" "\<not> pl_cancelled s"
    and b: "bootFor h mktemp bin cfg l now n st = (res, n', st')"
  have "boots_one (pl_alive s) res (procs st')"
    using bootFor_boots_one(1) [of h procs dirs mktemp, OF assms(1,2) b] assms(3) by simp
  from boots_one_step [OF this r]
  show "\<exists>s'. refill_step sg s s' \<and> pl_alive s' = procs st' \<and>
        (case res of
           Inr vm \<Rightarrow> pl_refills s' = add_mset (RSend k (vm_pid vm)) R \<and> pl_key s' (vm_pid vm) = k
         | Inl _ \<Rightarrow> pl_refills s' = R \<and> pl_lost s' k = Suc (pl_lost s k))" .
next
  show "procs (Kill h (Some vm) st) = pl_alive s - {vm_pid vm}"
    using host_laws.Kill_effect(1) [OF assms(1)] assms(3) by simp
qed

definition booting_pool :: pool where
  "booting_pool = (new_pool python_pool)\<lparr>pl_refills := {#RBooting ''py''#}, pl_sem := 1\<rparr>"

lemma booting_pool_reachable: "pool_reachable python_pool booting_pool"
proof -
  have r: "pl_refills (new_pool python_pool) = {#RWait ''py''#}" by (simp add: new_pool_def)
  have "pool_step python_pool (new_pool python_pool) booting_pool"
    using refill_step.slot [OF r, of python_pool] by (simp add: pool_step_def booting_pool_def new_pool_def)
  then show ?thesis by (meson pool_reachable.new pool_reachable.step)
qed

definition sim_mktemp :: "string \<Rightarrow> sim \<Rightarrow> (string + string) \<times> sim" where
  "sim_mktemp p st = (Inr (''/tmp/'' @ p @ ''1''), st)"

lemma boot_simulates_refill_witness:
  "\<exists>s'. pool_reachable python_pool s' \<and>
    pl_alive s' = sim_procs (snd (snd (bootFor (sim_host [] False) sim_mktemp ''firecracker'' pool_config python_lang 0 0 sim_start)))"
proof -
  obtain res n' st' where b: "bootFor (sim_host [] False) sim_mktemp ''firecracker'' pool_config python_lang 0 0 sim_start
    = (res, n', st')" by (metis prod.collapse)
  have m: "sim_procs (snd (sim_mktemp p st)) = sim_procs st" for p st by (simp add: sim_mktemp_def)
  have "sim_procs sim_start = pl_alive booting_pool"
    by (simp add: booting_pool_def new_pool_def sim_start_def)
  moreover have "pl_refills booting_pool = {#RBooting ''py''#}" "\<not> pl_cancelled booting_pool"
    by (simp_all add: booting_pool_def new_pool_def)
  ultimately have "\<exists>s'. refill_step python_pool booting_pool s' \<and> pl_alive s' = sim_procs st'"
    using boot_simulates_refill [of "sim_host [] False" sim_procs sim_dirs sim_mktemp sim_start booting_pool "''py''" "{#}" "''firecracker''" pool_config python_lang 0 0 res n' st' python_pool,
        OF sim.host_laws_axioms m] b by blast
  then show ?thesis
    using b booting_pool_reachable pool_reachable.step unfolding pool_step_def by (metis snd_conv)
qed

end
