(* ===== verification/Pool_Host.thy ===== *)
theory Pool_Host
  imports Pool_Boot
begin

text \<open>
  What the pools on a host share: the host's calls under a context that may be done, and what a
  boot and a kill do to the processes. \<^theory_text>\<open>Pool_Lang\<close>, \<^theory_text>\<open>Pool_Generic\<close> and
  \<^theory_text>\<open>Pool_Spare\<close> are the pools of the three files, with VM handles and processes, over it.
\<close>

section \<open>The context\<close>

text \<open>
  The host's calls under a context: when it is done, the client sends no request and the
  select that waits for the socket takes the context's branch.
\<close>

definition with_ctx :: "bool \<Rightarrow> 'h host \<Rightarrow> 'h host" where
  "with_ctx cancelled h =
     (if cancelled
      then h\<lparr>h_do := (\<lambda>_ _ _ st. (Inl ''context canceled'', st)),
             h_sleep := (\<lambda>st. (Some ''context canceled'', st))\<rparr>
      else h)"

lemma with_ctx_laws: "host_laws h procs dirs \<Longrightarrow> host_laws (with_ctx d h) procs dirs"
  by (auto simp: host_laws_def with_ctx_def)

lemma or_kill_Inl: "(\<And>st. isl (fst (k st))) \<Longrightarrow> isl (fst (or_kill h vm label r k))"
  by (auto simp: or_kill_def split: prod.splits option.splits)

lemma Boot_cancelled:
  assumes "Boot (with_ctx True h) bin opt now s st = (res, s', st')"
  shows "isl res"
proof -
  have put: "fst (put (with_ctx True h) sock path body st) \<noteq> None" for sock path body st
    by (simp add: put_def with_ctx_def)
  have "isl (fst (configure (with_ctx True h) opt vm now st))" for vm st
    unfolding configure_def Let_def
    by (rule or_kill_Inl) (use put in \<open>auto simp: or_kill_def split: prod.splits option.splits; metis fst_conv\<close>)
  with assms show ?thesis
    by (cases rule: Boot_cases) (simp, simp, metis fst_conv)
qed

lemma sem_release_Some: "sem_release b = Some b' \<longleftrightarrow> bs_used b \<noteq> 0 \<and> b' = b\<lparr>bs_used := bs_used b - 1\<rparr>"
  by (auto simp: sem_release_def)

section \<open>Boots and kills\<close>

text \<open>The host of a pool: its calls keep their laws, and making a directory starts no process.\<close>

locale pool_host = host_laws h procs dirs
  for h :: "'h host" and procs :: "'h \<Rightarrow> nat set" and dirs :: "'h \<Rightarrow> string set" +
  fixes mktemp :: "string \<Rightarrow> 'h \<Rightarrow> (string + string) \<times> 'h"
  assumes mktemp_procs: "procs (snd (mktemp pre st)) = procs st"
begin

lemma kill_procs: "procs (Kill h (Some vm) st) = procs st - {vm_pid vm}"
  by (rule Kill_effect(1))

lemma generic_boot_outcome:
  assumes "generic_boot (with_ctx d h) mktemp bin cfg now n st = (res, n', st')"
  shows "boots_one (procs st) res (procs st')" "d \<Longrightarrow> isl res"
proof -
  show "boots_one (procs st) res (procs st')"
    using bootFor_boots_one(3) [of "with_ctx d h" procs dirs mktemp] with_ctx_laws [OF host_laws_axioms]
      mktemp_procs assms by blast
  show "d \<Longrightarrow> isl res"
    using assms by (auto simp: generic_boot_def split: prod.splits sum.splits dest: Boot_cancelled)
qed

lemma lang_boot_outcome:
  assumes "bootFor (with_ctx d h) mktemp bin cfg l now n st = (res, n', st')"
  shows "boots_one (procs st) res (procs st')" "d \<Longrightarrow> isl res"
proof -
  show "boots_one (procs st) res (procs st')"
    using bootFor_boots_one(1) [of "with_ctx d h" procs dirs mktemp] with_ctx_laws [OF host_laws_axioms]
      mktemp_procs assms by blast
  show "d \<Longrightarrow> isl res"
    using assms by (auto simp: bootFor_def split: prod.splits sum.splits dest: Boot_cancelled)
qed

lemma spare_boot_outcome:
  assumes "spare_bootFor (with_ctx d h) mktemp bin cfg slot l now n st = (res, n', st')"
  shows "boots_one (procs st) res (procs st')" "d \<Longrightarrow> isl res"
proof -
  show "boots_one (procs st) res (procs st')"
    using bootFor_boots_one(2) [of "with_ctx d h" procs dirs mktemp] with_ctx_laws [OF host_laws_axioms]
      mktemp_procs assms by blast
  show "d \<Longrightarrow> isl res"
    using assms by (auto simp: spare_bootFor_def split: prod.splits sum.splits option.splits dest: Boot_cancelled)
qed

end

interpretation sim_pool: pool_host "sim_host bad dead" sim_procs sim_dirs sim_mktemp
  by unfold_locales (simp add: sim_mktemp_def)

text \<open>On the simulated host, the first boot succeeds.\<close>

lemma sim_boots:
  "\<exists>vm s' st'. Boot (sim_host [] False) ''firecracker'' opt now n sim_start = (Inr vm, s', st') \<and>
    sim_procs st' = {vm_pid vm}"
proof -
  let ?h = "sim_host [] False"
  have w: "waitForSocket ?h sock t now st = (None, st)" for sock t st
    by (simp add: waitForSocket_def wait_loop.simps sim_host_def)
  have p: "put ?h sock path body st = (None, st\<lparr>sim_calls := sim_calls st @ [path]\<rparr>)"
    if "path \<noteq> []" for sock path body st
    using that by (simp add: put_def sim_host_def)
  have c: "cloneFile ?h a b st = (None, st)" for a b st
    by (simp add: cloneFile_def sim_host_def)
  have "fst (configure ?h opt vm now st) = Inr vm" for vm st
    by (simp add: configure_def or_kill_def w p c)
  moreover obtain vm st2 where "Boot ?h ''firecracker'' opt now n sim_start =
      (fst (configure ?h opt vm now st2), n + 1, snd (configure ?h opt vm now st2))"
    by (simp add: Boot_def nextID_def Let_def sim_host_def sim_start_def split_def)
  ultimately obtain st' where b: "Boot ?h ''firecracker'' opt now n sim_start = (Inr vm, n + 1, st')" by simp
  then have "sim_procs st' = {vm_pid vm}"
    using sim.Boot_effect [OF b] by (simp add: sim_start_def)
  with b show ?thesis by blast
qed

text \<open>Images of sums of multisets.\<close>

lemma image_sum_mset: "image_mset f (\<Sum>a \<in># M. g a) = (\<Sum>a \<in># M. image_mset f (g a))"
  by (induction M) simp_all

lemma image_sum: "finite K \<Longrightarrow> image_mset f (\<Sum>k \<in> K. g k) = (\<Sum>k \<in> K. image_mset f (g k))"
  by (induction K rule: finite_induct) simp_all

end
