(* ===== verification/Pool_Lang.thy ===== *)
theory Pool_Lang
  imports Pool_Host
begin

text \<open>
  \<^verbatim>\<open>pool/prewarmed_lang.go\<close> on a host: the default pool as that file has it, with a map of
  channels, one for each language of the registry, on VM handles and processes. Every step of it
  is a step of the machine of \<^theory_text>\<open>Pool\<close> under the strategy \<^verbatim>\<open>prewarmedPerLang\<close>.
\<close>

section \<open>The pool\<close>

datatype lrefill =
    LWait Language
  | LBooting Language
  | LSend Language VM

datatype lcall =
    LSelect string
  | LTaken string VM
  | LSpawn string VM
  | LHold string "VM option"

record 'h lang_pool =
  lp_cfg :: Config
  lp_drv :: Driver
  lp_reg :: Registry
  lp_size :: nat
  lp_pools :: "string \<rightharpoonup> VM list"
  lp_pools_closed :: "string \<Rightarrow> bool"
  lp_sem :: bootSemaphore
  lp_cancelled :: bool
  lp_wg :: nat
  lp_closed :: bool
  lp_refills :: "lrefill multiset"
  lp_calls :: "lcall multiset"
  lp_closing :: phase
  lp_host :: 'h

definition newPrewarmedPerLang :: "Config \<Rightarrow> Driver \<Rightarrow> Registry \<Rightarrow> 'h \<Rightarrow> 'h lang_pool" where
  "newPrewarmedPerLang cfg drv reg st =
     (let size = nat (sint (cfg_PoolSize cfg)) in
      \<lparr>lp_cfg = cfg, lp_drv = drv, lp_reg = reg, lp_size = size, lp_pools = map_of (map (\<lambda>l. (lang_ID l, [])) (All reg)),
       lp_pools_closed = (\<lambda>_. False),
       lp_sem = \<lparr>bs_cap = newBootSemaphore (cfg_BootConcurrency cfg), bs_used = 0\<rparr>, lp_cancelled = False,
       lp_wg = length (All reg) * size, lp_closed = False,
       lp_refills = (\<Sum>l \<in># mset (All reg). replicate_mset size (LWait l)), lp_calls = {#},
       lp_closing = Opened, lp_host = st\<rparr>)"

definition lp_boot ::
    "'h host \<Rightarrow> (string \<Rightarrow> 'h \<Rightarrow> (string + string) \<times> 'h) \<Rightarrow> int \<Rightarrow> Language \<Rightarrow> 'h lang_pool
      \<Rightarrow> (string + VM) \<times> 64 word \<times> 'h" where
  "lp_boot h mktemp now l p =
     bootFor (with_ctx (lp_cancelled p) h) mktemp (drv_bin (lp_drv p)) (lp_cfg p) l now (drv_seq (lp_drv p)) (lp_host p)"

text \<open>\<^verbatim>\<open>refill\<close>; a send to a language without a channel would wait until the context is done.\<close>

inductive lang_refill ::
    "'h host \<Rightarrow> (string \<Rightarrow> 'h \<Rightarrow> (string + string) \<times> 'h) \<Rightarrow> 'h lang_pool \<Rightarrow> 'h lang_pool \<Rightarrow> bool"
  for h mktemp where
  slot: "lp_refills p = add_mset (LWait l) R \<Longrightarrow> sem_acquire (lp_sem p) (lp_cancelled p) True b
    \<Longrightarrow> lang_refill h mktemp p (p\<lparr>lp_refills := add_mset (LBooting l) R, lp_sem := b\<rparr>)"
| no_slot: "lp_refills p = add_mset (LWait l) R \<Longrightarrow> sem_acquire (lp_sem p) (lp_cancelled p) False b
    \<Longrightarrow> lang_refill h mktemp p (p\<lparr>lp_refills := R, lp_sem := b, lp_wg := lp_wg p - 1\<rparr>)"
| booted: "lp_refills p = add_mset (LBooting l) R \<Longrightarrow> lp_boot h mktemp now l p = (Inr vm, s', st')
    \<Longrightarrow> sem_release (lp_sem p) = Some b
    \<Longrightarrow> lang_refill h mktemp p
          (p\<lparr>lp_refills := add_mset (LSend l vm) R, lp_sem := b, lp_drv := (lp_drv p)\<lparr>drv_seq := s'\<rparr>, lp_host := st'\<rparr>)"
| boot_failed: "lp_refills p = add_mset (LBooting l) R \<Longrightarrow> lp_boot h mktemp now l p = (Inl e, s', st')
    \<Longrightarrow> sem_release (lp_sem p) = Some b
    \<Longrightarrow> lang_refill h mktemp p
          (p\<lparr>lp_refills := R, lp_sem := b, lp_wg := lp_wg p - 1, lp_drv := (lp_drv p)\<lparr>drv_seq := s'\<rparr>, lp_host := st'\<rparr>)"
| send: "lp_refills p = add_mset (LSend l vm) R \<Longrightarrow> lp_pools p (lang_ID l) = Some vms \<Longrightarrow> length vms < lp_size p
    \<Longrightarrow> \<not> lp_pools_closed p (lang_ID l)
    \<Longrightarrow> lang_refill h mktemp p
          (p\<lparr>lp_refills := R, lp_pools := (lp_pools p)(lang_ID l \<mapsto> vms @ [vm]), lp_wg := lp_wg p - 1\<rparr>)"
| unsent: "lp_refills p = add_mset (LSend l vm) R \<Longrightarrow> lp_cancelled p
    \<Longrightarrow> lang_refill h mktemp p
          (p\<lparr>lp_refills := R, lp_host := Kill h (Some vm) (lp_host p), lp_wg := lp_wg p - 1\<rparr>)"

text \<open>
  \<^verbatim>\<open>Acquire\<close>. A call on a closed pool or for a language without a channel returns its error
  and changes nothing; the refill is for what the registry gives, or the zero language.
\<close>

inductive lang_acquire :: "'h lang_pool \<Rightarrow> 'h lang_pool \<Rightarrow> bool" where
  enter: "\<not> lp_closed p \<Longrightarrow> lp_pools p langID \<noteq> None
    \<Longrightarrow> lang_acquire p (p\<lparr>lp_calls := add_mset (LSelect langID) (lp_calls p)\<rparr>)"
| receive: "lp_calls p = add_mset (LSelect langID) C \<Longrightarrow> lp_pools p langID = Some (vm # vms)
    \<Longrightarrow> lang_acquire p (p\<lparr>lp_calls := add_mset (LTaken langID vm) C, lp_pools := (lp_pools p)(langID \<mapsto> vms)\<rparr>)"
| receive_nil: "lp_calls p = add_mset (LSelect langID) C \<Longrightarrow> lp_pools p langID = Some [] \<Longrightarrow> lp_pools_closed p langID
    \<Longrightarrow> lang_acquire p (p\<lparr>lp_calls := add_mset (LHold langID None) C\<rparr>)"
| ctx_done: "lp_calls p = add_mset (LSelect langID) C \<Longrightarrow> lang_acquire p (p\<lparr>lp_calls := C\<rparr>)"
| last: "lp_calls p = add_mset (LTaken langID vm) C \<Longrightarrow> lp_closed p
    \<Longrightarrow> lang_acquire p (p\<lparr>lp_calls := add_mset (LHold langID (Some vm)) C\<rparr>)"
| replace: "lp_calls p = add_mset (LTaken langID vm) C \<Longrightarrow> \<not> lp_closed p
    \<Longrightarrow> lang_acquire p (p\<lparr>lp_calls := add_mset (LSpawn langID vm) C\<rparr>)"
| spawn: "lp_calls p = add_mset (LSpawn langID vm) C
    \<Longrightarrow> l = (case Get (lp_reg p) langID of Some l \<Rightarrow> l | None \<Rightarrow> zero_Language)
    \<Longrightarrow> lang_acquire p (p\<lparr>lp_calls := add_mset (LHold langID (Some vm)) C, lp_wg := Suc (lp_wg p),
          lp_refills := add_mset (LWait l) (lp_refills p)\<rparr>)"

text \<open>\<^verbatim>\<open>Release\<close> and \<^verbatim>\<open>Discard\<close>.\<close>

inductive lang_release :: "'h host \<Rightarrow> 'h lang_pool \<Rightarrow> 'h lang_pool \<Rightarrow> bool" for h where
  release: "lp_calls p = add_mset (LHold langID (Some vm)) C
    \<Longrightarrow> lang_release h p (p\<lparr>lp_calls := C, lp_host := Kill h (Some vm) (lp_host p)\<rparr>)"

text \<open>\<^verbatim>\<open>Close\<close>; the channels are closed and drained in the order of the map, which is any.\<close>

inductive lang_close :: "'h host \<Rightarrow> 'h lang_pool \<Rightarrow> 'h lang_pool \<Rightarrow> bool" for h where
  flag: "lp_closing p = Opened \<Longrightarrow> lang_close h p (p\<lparr>lp_closing := ClosedSet, lp_closed := True\<rparr>)"
| cancel: "lp_closing p = ClosedSet \<Longrightarrow> lang_close h p (p\<lparr>lp_closing := CtxCancelled, lp_cancelled := True\<rparr>)"
| waited: "lp_closing p = CtxCancelled \<Longrightarrow> lp_wg p = 0
    \<Longrightarrow> lang_close h p (p\<lparr>lp_closing := Draining (dom (lp_pools p))\<rparr>)"
| close_chan: "lp_closing p = Draining K \<Longrightarrow> k \<in> K
    \<Longrightarrow> lang_close h p (p\<lparr>lp_closing := DrainKey k (K - {k}), lp_pools_closed := (lp_pools_closed p)(k := True)\<rparr>)"
| drain: "lp_closing p = DrainKey k K \<Longrightarrow> lp_pools p k = Some (vm # vms)
    \<Longrightarrow> lang_close h p (p\<lparr>lp_pools := (lp_pools p)(k \<mapsto> vms), lp_host := Kill h (Some vm) (lp_host p)\<rparr>)"
| drained: "lp_closing p = DrainKey k K \<Longrightarrow> lp_pools p k = Some []
    \<Longrightarrow> lang_close h p (p\<lparr>lp_closing := Draining K\<rparr>)"

definition lang_pool_step ::
    "'h host \<Rightarrow> (string \<Rightarrow> 'h \<Rightarrow> (string + string) \<times> 'h) \<Rightarrow> 'h lang_pool \<Rightarrow> 'h lang_pool \<Rightarrow> bool" where
  "lang_pool_step h mktemp p p' \<longleftrightarrow>
     lang_refill h mktemp p p' \<or> lang_acquire p p' \<or> lang_release h p p' \<or> lang_close h p p'"

inductive lang_reachable ::
    "'h host \<Rightarrow> (string \<Rightarrow> 'h \<Rightarrow> (string + string) \<times> 'h) \<Rightarrow> 'h lang_pool \<Rightarrow> 'h lang_pool \<Rightarrow> bool"
  for h mktemp p0 where
  new: "lang_reachable h mktemp p0 p0"
| step: "lang_reachable h mktemp p0 p \<Longrightarrow> lang_pool_step h mktemp p p' \<Longrightarrow> lang_reachable h mktemp p0 p'"

inductive_cases lang_refillE: "lang_refill h mktemp p p'"
inductive_cases lang_acquireE: "lang_acquire p p'"
inductive_cases lang_releaseE: "lang_release h p p'"
inductive_cases lang_closeE: "lang_close h p p'"

lemmas lang_cases = lang_refillE lang_acquireE lang_releaseE lang_closeE

section \<open>The relation to the common machine\<close>

fun abs_lrefill :: "lrefill \<Rightarrow> refill" where
  "abs_lrefill (LWait l) = RWait (lang_ID l)"
| "abs_lrefill (LBooting l) = RBooting (lang_ID l)"
| "abs_lrefill (LSend l vm) = RSend (lang_ID l) (vm_pid vm)"

fun abs_lcall :: "lcall \<Rightarrow> caller" where
  "abs_lcall (LSelect langID) = CSelect langID"
| "abs_lcall (LTaken langID vm) = CTaken langID (vm_pid vm)"
| "abs_lcall (LSpawn langID vm) = CSpawn langID (vm_pid vm)"
| "abs_lcall (LHold langID v) = CHold (map_option vm_pid v)"

definition chan_of :: "VM list option \<Rightarrow> nat list" where
  "chan_of c = (case c of None \<Rightarrow> [] | Some vms \<Rightarrow> map vm_pid vms)"

lemma chan_of_simps [simp]: "chan_of None = []" "chan_of (Some vms) = map vm_pid vms"
  by (simp_all add: chan_of_def)

definition lang_implements :: "('h \<Rightarrow> nat set) \<Rightarrow> pool \<Rightarrow> 'h lang_pool \<Rightarrow> bool" where
  "lang_implements procs s p \<longleftrightarrow>
     pl_chan s = (\<lambda>k. chan_of (lp_pools p k)) \<and> pl_chan_closed s = lp_pools_closed p \<and>
     pl_sem s = bs_used (lp_sem p) \<and> pl_cancelled s = lp_cancelled p \<and> pl_wg s = lp_wg p \<and>
     pl_closed s = lp_closed p \<and> pl_phase s = lp_closing p \<and>
     pl_refills s = image_mset abs_lrefill (lp_refills p) \<and> pl_callers s = image_mset abs_lcall (lp_calls p) \<and>
     pl_alive s = procs (lp_host p)"

text \<open>What no step changes, and the languages the calls are for.\<close>

fun lcall_lang :: "lcall \<Rightarrow> string" where
  "lcall_lang (LSelect langID) = langID" | "lcall_lang (LTaken langID _) = langID"
| "lcall_lang (LSpawn langID _) = langID" | "lcall_lang (LHold langID _) = langID"

definition ids_of :: "Registry \<Rightarrow> string set" where
  "ids_of reg = lang_ID ` set (All reg)"

definition channels_of :: "Registry \<Rightarrow> (string \<rightharpoonup> VM list) \<Rightarrow> bool" where
  "channels_of reg m \<longleftrightarrow> dom m = ids_of reg"

lemma channels_of_update [simp]: "channels_of reg m \<Longrightarrow> m k = Some v \<Longrightarrow> channels_of reg (m(k \<mapsto> w))"
  by (auto simp: channels_of_def)

lemma channels_of_Some: "channels_of reg m \<Longrightarrow> m k = Some v \<Longrightarrow> k \<in> ids_of reg"
  by (auto simp: channels_of_def)

definition lang_fixed :: "Config \<Rightarrow> Registry \<Rightarrow> 'h lang_pool \<Rightarrow> bool" where
  "lang_fixed cfg reg p \<longleftrightarrow>
     lp_cfg p = cfg \<and> lp_reg p = reg \<and> bs_cap (lp_sem p) = newBootSemaphore (cfg_BootConcurrency cfg) \<and>
     lp_size p = nat (sint (cfg_PoolSize cfg)) \<and> channels_of reg (lp_pools p) \<and> (\<forall>c \<in># lp_calls p. lcall_lang c \<in> ids_of reg)"

lemma lang_fixed_refill: "lang_fixed cfg reg p \<Longrightarrow> lang_refill h mktemp p p' \<Longrightarrow> lang_fixed cfg reg p'"
  unfolding lang_fixed_def by (elim lang_refillE) (auto simp: sem_acquire_simps sem_release_Some)

lemma lang_fixed_acquire: "lang_fixed cfg reg p \<Longrightarrow> lang_acquire p p' \<Longrightarrow> lang_fixed cfg reg p'"
  unfolding lang_fixed_def by (elim lang_acquireE) (auto dest: channels_of_Some)

lemma lang_fixed_release: "lang_fixed cfg reg p \<Longrightarrow> lang_release h p p' \<Longrightarrow> lang_fixed cfg reg p'"
  unfolding lang_fixed_def by (elim lang_releaseE) simp

lemma lang_fixed_close: "lang_fixed cfg reg p \<Longrightarrow> lang_close h p p' \<Longrightarrow> lang_fixed cfg reg p'"
  unfolding lang_fixed_def by (elim lang_closeE) auto

lemma lang_fixed_step: "lang_pool_step h mktemp p p' \<Longrightarrow> lang_fixed cfg reg p \<Longrightarrow> lang_fixed cfg reg p'"
  unfolding lang_pool_step_def using lang_fixed_refill lang_fixed_acquire lang_fixed_release lang_fixed_close by blast

lemma prewarmedPerLang_simps [simp]:
  "sg_keys (prewarmedPerLang is_print cfg reg) = map lang_ID (All reg)"
  "sg_cap (prewarmedPerLang is_print cfg reg) = nat (sint (cfg_PoolSize cfg))"
  "sg_initial (prewarmedPerLang is_print cfg reg) = nat (sint (cfg_PoolSize cfg))"
  "sg_sem (prewarmedPerLang is_print cfg reg) = newBootSemaphore (cfg_BootConcurrency cfg)"
  by (simp_all add: prewarmedPerLang_def)

text \<open>A registry that was loaded knows the languages of its channels.\<close>

lemma registry_knows:
  assumes "registry_ok reg" and "k \<in> ids_of reg"
  shows "\<exists>l. Get reg k = Some l \<and> lang_ID l = k"
proof -
  have "k \<in> dom (reg_byID reg)" using assms All_ids [OF assms(1)] by (metis ids_of_def list.set_map registry_ok_def)
  then obtain l where "reg_byID reg k = Some l" by blast
  then show ?thesis using assms(1) by (auto simp: registry_ok_def Get_def)
qed

section \<open>The simulation\<close>

context pool_host
begin

lemma sim_lang_refill:
  assumes "lang_fixed cfg reg p" and "lang_implements procs s p" and "lang_refill h mktemp p p'"
  shows "\<exists>s'. refill_step (prewarmedPerLang is_print cfg reg) s s' \<and> lang_implements procs s' p'"
  using assms(3)
proof cases
  case (slot l R b)
  then have "pl_refills s = add_mset (RWait (lang_ID l)) (image_mset abs_lrefill R)"
    "pl_sem s < sg_sem (prewarmedPerLang is_print cfg reg)" and b: "b = (lp_sem p)\<lparr>bs_used := Suc (pl_sem s)\<rparr>"
    using assms(1,2) by (auto simp: sem_acquire_simps lang_fixed_def lang_implements_def)
  from refill_step.slot [OF this(1,2)] show ?thesis
    using assms(2) slot(1) b by (intro exI conjI) (assumption, simp add: lang_implements_def)
next
  case (no_slot l R b)
  then have "pl_refills s = add_mset (RWait (lang_ID l)) (image_mset abs_lrefill R)" "pl_cancelled s"
    and b: "b = lp_sem p"
    using assms(2) by (auto simp: sem_acquire_simps lang_implements_def)
  from refill_step.no_slot [OF this(1,2)] show ?thesis
    using assms(2) no_slot(1) b by (intro exI conjI) (assumption, simp add: lang_implements_def)
next
  case (booted l R now vm n' st' b)
  have r: "pl_refills s = add_mset (RBooting (lang_ID l)) (image_mset abs_lrefill R)"
    using booted(2) assms(2) by (simp add: lang_implements_def)
  have "\<not> pl_cancelled s" "vm_pid vm \<notin> pl_alive s" and procs: "procs st' = insert (vm_pid vm) (pl_alive s)"
    using lang_boot_outcome [OF booted(3) [unfolded lp_boot_def]] assms(2)
    by (auto simp: boots_one_def lang_implements_def)
  from refill_step.booted [OF r this(1,2)] show ?thesis
    using assms(2) booted(1,4) procs by (intro exI conjI) (assumption, simp add: lang_implements_def sem_release_Some)
next
  case (boot_failed l R now e n' st' b)
  have r: "pl_refills s = add_mset (RBooting (lang_ID l)) (image_mset abs_lrefill R)"
    using boot_failed(2) assms(2) by (simp add: lang_implements_def)
  have "procs st' = pl_alive s"
    using lang_boot_outcome(1) [OF boot_failed(3) [unfolded lp_boot_def]] assms(2)
    by (simp add: boots_one_def lang_implements_def)
  then show ?thesis
    using refill_step.boot_failed [OF r] assms(2) boot_failed(1,4)
    by (intro exI conjI) (assumption, simp add: lang_implements_def sem_release_Some)
next
  case (send l vm R vms)
  then have "pl_refills s = add_mset (RSend (lang_ID l) (vm_pid vm)) (image_mset abs_lrefill R)"
    "length (pl_chan s (lang_ID l)) < sg_cap (prewarmedPerLang is_print cfg reg)" "\<not> pl_chan_closed s (lang_ID l)"
    using assms(1,2) by (simp_all add: lang_implements_def lang_fixed_def)
  from refill_step.send [OF this] show ?thesis
    using assms(2) send(1,3) by (intro exI conjI) (assumption, simp add: lang_implements_def fun_eq_iff)
next
  case (unsent l vm R)
  then have "pl_refills s = add_mset (RSend (lang_ID l) (vm_pid vm)) (image_mset abs_lrefill R)" "pl_cancelled s"
    using assms(2) by (simp_all add: lang_implements_def)
  from refill_step.unsent [OF this] show ?thesis
    using assms(2) unsent(1) by (intro exI conjI) (assumption, simp add: lang_implements_def kill_procs)
qed

lemma sim_lang_acquire:
  assumes "registry_ok reg" and "lang_fixed cfg reg p" and "lang_implements procs s p" and "lang_acquire p p'"
  shows "\<exists>s'. acquire_step (prewarmedPerLang is_print cfg reg) s s' \<and> lang_implements procs s' p'"
  using assms(4)
proof cases
  case (enter langID)
  then have "langID \<in> ids_of reg" using assms(2) channels_of_Some by (auto simp: lang_fixed_def)
  then have "\<not> pl_closed s" "sg_start (prewarmedPerLang is_print cfg reg) langID = FromPool langID"
    using enter(2) assms(3) by (simp_all add: lang_implements_def prewarmedPerLang_def ids_of_def)
  from acquire_step.enter [OF this] show ?thesis
    using assms(3) enter(1) by (intro exI conjI) (assumption, simp add: lang_implements_def)
next
  case (receive langID C vm vms)
  then have "pl_callers s = add_mset (CSelect langID) (image_mset abs_lcall C)"
    "pl_chan s langID = vm_pid vm # map vm_pid vms"
    using assms(3) by (simp_all add: lang_implements_def)
  from acquire_step.receive [OF this] show ?thesis
    using assms(3) receive(1) by (intro exI conjI) (assumption, simp add: lang_implements_def fun_eq_iff)
next
  case (receive_nil langID C)
  then have "pl_callers s = add_mset (CSelect langID) (image_mset abs_lcall C)"
    "pl_chan s langID = []" "pl_chan_closed s langID"
    using assms(3) by (simp_all add: lang_implements_def)
  from acquire_step.receive_nil [OF this] show ?thesis
    using assms(3) receive_nil(1) by (intro exI conjI) (assumption, simp add: lang_implements_def)
next
  case (ctx_done langID C)
  then have "pl_callers s = add_mset (CSelect langID) (image_mset abs_lcall C)"
    using assms(3) by (simp add: lang_implements_def)
  from acquire_step.give_up [OF this] show ?thesis
    using assms(3) ctx_done(1) by (intro exI conjI) (assumption, simp add: lang_implements_def)
next
  case (last langID vm C)
  then have "pl_callers s = add_mset (CTaken langID (vm_pid vm)) (image_mset abs_lcall C)" "pl_closed s"
    using assms(3) by (simp_all add: lang_implements_def)
  from acquire_step.last [OF this] show ?thesis
    using assms(3) last(1) by (intro exI conjI) (assumption, simp add: lang_implements_def)
next
  case (replace langID vm C)
  then have "pl_callers s = add_mset (CTaken langID (vm_pid vm)) (image_mset abs_lcall C)" "\<not> pl_closed s"
    using assms(3) by (simp_all add: lang_implements_def)
  from acquire_step.replace [OF this] show ?thesis
    using assms(3) replace(1) by (intro exI conjI) (assumption, simp add: lang_implements_def)
next
  case (spawn langID vm C l)
  then have "langID \<in> ids_of reg" using assms(2) by (simp add: lang_fixed_def)
  then obtain l' where "Get reg langID = Some l'" "lang_ID l' = langID"
    using registry_knows [OF assms(1)] by blast
  then have l: "lang_ID l = langID"
    using spawn(3) assms(2) by (simp add: lang_fixed_def)
  have "pl_callers s = add_mset (CSpawn langID (vm_pid vm)) (image_mset abs_lcall C)"
    using spawn assms(3) by (simp add: lang_implements_def)
  from acquire_step.spawn [OF this] show ?thesis
    using assms(3) spawn(1) l by (intro exI conjI) (assumption, simp add: lang_implements_def)
qed

lemma sim_lang_release:
  assumes "lang_implements procs s p" and "lang_release h p p'"
  shows "\<exists>s'. release_step s s' \<and> lang_implements procs s' p'"
  using assms(2)
proof cases
  case (release langID vm C)
  then have "pl_callers s = add_mset (CHold (Some (vm_pid vm))) (image_mset abs_lcall C)"
    using assms(1) by (simp add: lang_implements_def)
  from release_step.release [OF this] show ?thesis
    using assms(1) release(1) by (intro exI conjI) (assumption, simp add: lang_implements_def kill_procs)
qed

lemma sim_lang_close:
  assumes "lang_fixed cfg reg p" and "lang_implements procs s p" and "lang_close h p p'"
  shows "\<exists>s'. close_step (prewarmedPerLang is_print cfg reg) s s' \<and> lang_implements procs s' p'"
  using assms(3)
proof cases
  case flag
  then have "pl_phase s = Opened" using assms(2) by (simp add: lang_implements_def)
  from close_step.flag [OF this] show ?thesis
    using assms(2) flag(1) by (intro exI conjI) (assumption, simp add: lang_implements_def)
next
  case cancel
  then have "pl_phase s = ClosedSet" using assms(2) by (simp add: lang_implements_def)
  from close_step.cancel [OF this] show ?thesis
    using assms(2) cancel(1) by (intro exI conjI) (assumption, simp add: lang_implements_def)
next
  case waited
  then have "pl_phase s = CtxCancelled" "pl_wg s = 0" using assms(2) by (simp_all add: lang_implements_def)
  from close_step.waited [OF this] show ?thesis
    using assms(1,2) waited(1)
    by (intro exI conjI) (assumption, simp add: lang_implements_def lang_fixed_def channels_of_def ids_of_def)
next
  case (close_chan K k)
  then have "pl_phase s = Draining K" using assms(2) by (simp add: lang_implements_def)
  from close_step.close_chan [OF this close_chan(3)] show ?thesis
    using assms(2) close_chan(1) by (intro exI conjI) (assumption, simp add: lang_implements_def)
next
  case (drain k K vm vms)
  then have "pl_phase s = DrainKey k K" "pl_chan s k = vm_pid vm # map vm_pid vms"
    using assms(2) by (simp_all add: lang_implements_def)
  from close_step.drain [OF this] show ?thesis
    using assms(2) drain(1)
    by (intro exI conjI) (assumption, simp add: lang_implements_def kill_procs fun_eq_iff)
next
  case (drained k K)
  then have "pl_phase s = DrainKey k K" "pl_chan s k = []"
    using assms(2) by (simp_all add: lang_implements_def)
  from close_step.drained [OF this] show ?thesis
    using assms(2) drained(1) by (intro exI conjI) (assumption, simp add: lang_implements_def)
qed

lemma sim_lang_step:
  assumes "registry_ok reg" and "lang_fixed cfg reg p" and "lang_implements procs s p"
    and "lang_pool_step h mktemp p p'"
  shows "\<exists>s'. pool_step (prewarmedPerLang is_print cfg reg) s s' \<and> lang_implements procs s' p'"
  using assms(4) sim_lang_refill [OF assms(2,3)] sim_lang_acquire [OF assms(1,2,3)]
    sim_lang_release [OF assms(3)] sim_lang_close [OF assms(2,3)]
  unfolding lang_pool_step_def pool_step_def by meson

lemma sim_lang_new:
  assumes "procs st = {}"
  shows "lang_implements procs (new_pool (prewarmedPerLang is_print cfg reg)) (newPrewarmedPerLang cfg drv reg st)"
    "lang_fixed cfg reg (newPrewarmedPerLang cfg drv reg st)"
proof -
  have r: "(\<Sum>k \<in># mset (map lang_ID ls). replicate_mset n (RWait k)) =
      image_mset abs_lrefill (\<Sum>l \<in># mset ls. replicate_mset n (LWait l))" for ls n
    by (induction ls) simp_all
  have c: "chan_of (map_of (map (\<lambda>l. (lang_ID l, [])) ls) k) = []" for ls k
    by (induction ls) simp_all
  show "lang_implements procs (new_pool (prewarmedPerLang is_print cfg reg)) (newPrewarmedPerLang cfg drv reg st)"
    using assms
    by (simp add: lang_implements_def new_pool_def newPrewarmedPerLang_def Let_def r c del: mset_map)
  have "dom (map_of (map (\<lambda>l. (lang_ID l, [])) ls)) = lang_ID ` set ls" for ls
    by (simp add: dom_map_of_conv_image_fst image_image)
  then show "lang_fixed cfg reg (newPrewarmedPerLang cfg drv reg st)"
    by (simp add: lang_fixed_def newPrewarmedPerLang_def Let_def channels_of_def ids_of_def)
qed

lemma sim_lang_reachable:
  assumes "registry_ok reg" and "lang_reachable h mktemp (newPrewarmedPerLang cfg drv reg st) p" and "procs st = {}"
  shows "lang_fixed cfg reg p \<and>
    (\<exists>s. pool_reachable (prewarmedPerLang is_print cfg reg) s \<and> lang_implements procs s p)"
  using assms(2)
proof induction
  case new
  then show ?case using sim_lang_new [OF assms(3)] pool_reachable.new by blast
next
  case (step p p')
  then show ?case using sim_lang_step [OF assms(1), of cfg p] lang_fixed_step pool_reachable.step by meson
qed

end

section \<open>The VMs of the pool\<close>

fun lrefill_vm :: "lrefill \<Rightarrow> VM multiset" where
  "lrefill_vm (LSend _ vm) = {#vm#}" | "lrefill_vm _ = {#}"

fun lcall_vm :: "lcall \<Rightarrow> VM multiset" where
  "lcall_vm (LTaken _ vm) = {#vm#}"
| "lcall_vm (LSpawn _ vm) = {#vm#}"
| "lcall_vm (LHold _ (Some vm)) = {#vm#}"
| "lcall_vm _ = {#}"

definition lang_calls_vms :: "'h lang_pool \<Rightarrow> VM multiset" where
  "lang_calls_vms p = (\<Sum>c \<in># lp_calls p. lcall_vm c)"

definition chan_vms :: "VM list option \<Rightarrow> VM multiset" where
  "chan_vms c = (case c of None \<Rightarrow> {#} | Some vms \<Rightarrow> mset vms)"

definition lang_vms :: "Registry \<Rightarrow> 'h lang_pool \<Rightarrow> VM multiset" where
  "lang_vms reg p = (\<Sum>k \<in> ids_of reg. chan_vms (lp_pools p k)) +
     (\<Sum>r \<in># lp_refills p. lrefill_vm r) + lang_calls_vms p"

lemma lang_implements_vms:
  assumes "lang_implements procs s p"
  shows "busy_vms s = image_mset vm_pid (lang_calls_vms p)"
    "idle_vms (prewarmedPerLang is_print cfg reg) s + sending_vms s + busy_vms s = image_mset vm_pid (lang_vms reg p)"
proof -
  have r: "refill_vm (abs_lrefill g) = image_mset vm_pid (lrefill_vm g)" for g by (cases g) simp_all
  have c: "caller_vm (abs_lcall d) = image_mset vm_pid (lcall_vm d)" for d
    by (cases d rule: lcall_vm.cases) simp_all
  have m: "mset (chan_of x) = image_mset vm_pid (chan_vms x)" for x by (cases x) (simp_all add: chan_vms_def)
  show b: "busy_vms s = image_mset vm_pid (lang_calls_vms p)"
    using assms by (simp add: busy_vms_def lang_calls_vms_def image_sum_mset lang_implements_def multiset.map_comp comp_def c)
  have "sending_vms s = image_mset vm_pid (\<Sum>r \<in># lp_refills p. lrefill_vm r)"
    using assms by (simp add: sending_vms_def image_sum_mset lang_implements_def multiset.map_comp comp_def r)
  moreover have "idle_vms (prewarmedPerLang is_print cfg reg) s =
      image_mset vm_pid (\<Sum>k \<in> ids_of reg. chan_vms (lp_pools p k))"
    using assms by (simp add: idle_vms_def image_sum lang_implements_def ids_of_def m)
  ultimately show "idle_vms (prewarmedPerLang is_print cfg reg) s + sending_vms s + busy_vms s = image_mset vm_pid (lang_vms reg p)"
    using b by (simp add: lang_vms_def)
qed

lemma lang_strategy_ok:
  assumes "registry_ok reg" and "config_ok cfg"
  shows "strategy_ok (prewarmedPerLang is_print cfg reg)"
proof -
  have "1 \<le> sint (cfg_PoolSize cfg)" using assms(2) by (simp add: config_ok_def)
  then show ?thesis
    using All_ids [OF assms(1)] assms(1) unfolding strategy_ok_def registry_ok_def
    by (auto simp: prewarmedPerLang_def newBootSemaphore_def le_nat_iff split: if_splits)
qed

section \<open>Properties\<close>

text \<open>
  C7. The default pool is the common machine: on a lawful host without other VMs and for a loaded
  registry, every reachable state of the pool of \<^verbatim>\<open>prewarmed_lang.go\<close>, with its map of channels
  and its refills that boot with the driver, implements a reachable state of the machine under
  its strategy whose running VMs are the processes of the host, and every step of it is a step
  of that machine.
\<close>

theorem lang_pool_refines:
  assumes "pool_host h procs dirs mktemp" and "procs st = {}" and "registry_ok reg"
    and "lang_reachable h mktemp (newPrewarmedPerLang cfg drv reg st) p"
  shows "\<exists>s. pool_reachable (prewarmedPerLang is_print cfg reg) s \<and> lang_implements procs s p \<and>
    pl_alive s = procs (lp_host p) \<and>
    (\<forall>p'. lang_pool_step h mktemp p p' \<longrightarrow>
      (\<exists>s'. pool_step (prewarmedPerLang is_print cfg reg) s s' \<and> lang_implements procs s' p'))"
proof -
  obtain s where s: "lang_fixed cfg reg p" "pool_reachable (prewarmedPerLang is_print cfg reg) s" "lang_implements procs s p"
    using pool_host.sim_lang_reachable [OF assms(1,3,4,2)] by blast
  then show ?thesis
    using pool_host.sim_lang_step [OF assms(1,3) s(1,3)] by (auto simp: lang_implements_def)
qed

text \<open>
  C13. No process of the default pool is lost: on such a host, in every reachable state
  the running processes are those of the VMs in the channels, with the refills and with the
  callers, each once; no channel holds more than \<^verbatim>\<open>PoolSize\<close>, the boots in
  progress take at most \<^verbatim>\<open>BootConcurrency\<close> slots, and at most \<^verbatim>\<open>PoolSize\<close> processes run for each
  language and one for each call; and once \<^verbatim>\<open>Close\<close> has returned, only the processes of the VMs
  callers still hold.
\<close>

theorem lang_processes:
  assumes "pool_host h procs dirs mktemp" and "procs st = {}" and "registry_ok reg" and "config_ok cfg"
    and "lang_reachable h mktemp (newPrewarmedPerLang cfg drv reg st) p"
  shows "image_mset vm_pid (lang_vms reg p) = mset_set (procs (lp_host p)) \<and>
    int (size (chan_vms (lp_pools p k))) \<le> sint (cfg_PoolSize cfg) \<and>
    int (bs_used (lp_sem p)) \<le> sint (cfg_BootConcurrency cfg) \<and>
    int (card (procs (lp_host p))) \<le> int (length (All reg)) * sint (cfg_PoolSize cfg) + int (size (lp_calls p)) \<and>
    (lp_closing p = Draining {} \<longrightarrow> image_mset vm_pid (lang_calls_vms p) = mset_set (procs (lp_host p)))"
proof -
  let ?sg = "prewarmedPerLang (\<lambda>_. True) cfg reg"
  obtain s where s: "lang_fixed cfg reg p" "pool_reachable ?sg s" "lang_implements procs s p"
    using pool_host.sim_lang_reachable [OF assms(1,3,5,2)] by blast
  note sg = lang_strategy_ok [OF assms(3,4), of "\<lambda>_. True"]
  have alive: "pl_alive s = procs (lp_host p)" using s(3) by (simp add: lang_implements_def)
  have n: "1 \<le> sint (cfg_PoolSize cfg)" "1 \<le> sint (cfg_BootConcurrency cfg)" using assms(4) by (simp_all add: config_ok_def)
  have 1: "image_mset vm_pid (lang_vms reg p) = mset_set (procs (lp_host p))"
    using vms_reachable [OF sg s(2)] lang_implements_vms(2) [OF s(3), of "\<lambda>_. True" cfg reg] alive
    by (simp add: vms_ok_def)
  have size: "length (chan_of x) = size (chan_vms x)" for x by (cases x) (simp_all add: chan_vms_def)
  have "length (pl_chan s k) \<le> nat (sint (cfg_PoolSize cfg))" "pl_sem s \<le> newBootSemaphore (cfg_BootConcurrency cfg)"
    using counters_reachable [OF s(2)] by (simp_all add: counters_ok_def)
  then have 2: "int (size (chan_vms (lp_pools p k))) \<le> sint (cfg_PoolSize cfg)"
    "int (bs_used (lp_sem p)) \<le> sint (cfg_BootConcurrency cfg)"
    using s(3) n by (simp_all add: lang_implements_def size newBootSemaphore_def split: if_splits)
  have "card (procs (lp_host p)) \<le> length (All reg) * nat (sint (cfg_PoolSize cfg)) + size (lp_calls p)"
    using alive_bound [OF sg s(2)] s(3) by (simp add: lang_implements_def)
  then have "int (card (procs (lp_host p))) \<le> int (length (All reg) * nat (sint (cfg_PoolSize cfg)) + size (lp_calls p))"
    unfolding of_nat_le_iff .
  then have 3: "int (card (procs (lp_host p))) \<le> int (length (All reg)) * sint (cfg_PoolSize cfg) + int (size (lp_calls p))"
    using n(1) by simp
  have "image_mset vm_pid (lang_calls_vms p) = mset_set (procs (lp_host p))" if "lp_closing p = Draining {}"
  proof -
    have "pl_phase s = Draining {}" using s(3) that by (simp add: lang_implements_def)
    from drained_vms [OF sg s(2) this] show ?thesis using lang_implements_vms(1) [OF s(3)] alive by simp
  qed
  with 1 2 3 show ?thesis by blast
qed

section \<open>Witnesses\<close>

definition demo_lang :: "sim lang_pool" where
  "demo_lang = newPrewarmedPerLang pool_config (NewDriver ''firecracker'') python_registry sim_start"

abbreviation demo_lang_reaches :: "sim lang_pool \<Rightarrow> bool" where
  "demo_lang_reaches \<equiv> lang_reachable (sim_host [] False) sim_mktemp demo_lang"

lemma demo_lang_simps [simp]:
  "lp_refills demo_lang = {#LWait python_lang#}" "lp_sem demo_lang = \<lparr>bs_cap = 8, bs_used = 0\<rparr>"
  "lp_cancelled demo_lang = False" "lp_cfg demo_lang = pool_config" "lp_calls demo_lang = {#}"
  "lp_drv demo_lang = \<lparr>drv_bin = ''firecracker'', drv_seq = 0\<rparr>" "lp_host demo_lang = sim_start"
  by (simp_all add: demo_lang_def newPrewarmedPerLang_def Let_def NewDriver_def newBootSemaphore_def All_def
      python_registry_def)

definition booting_lang :: "sim lang_pool" where
  "booting_lang = demo_lang\<lparr>lp_refills := {#LBooting python_lang#}, lp_sem := \<lparr>bs_cap = 8, bs_used = 1\<rparr>\<rparr>"

lemma booting_lang_reaches: "demo_lang_reaches booting_lang"
proof -
  have "sem_acquire \<lparr>bs_cap = 8, bs_used = 0\<rparr> False True \<lparr>bs_cap = 8, bs_used = 1\<rparr>"
    by (simp add: sem_acquire_simps)
  then have "lang_refill (sim_host [] False) sim_mktemp demo_lang booting_lang"
    using lang_refill.slot [of demo_lang python_lang "{#}"] by (simp add: booting_lang_def)
  then show ?thesis
    by (meson lang_pool_step_def lang_reachable.new lang_reachable.step)
qed

lemma warm_lang: "\<exists>p (vm :: VM). demo_lang_reaches p \<and> sim_procs (lp_host p) = {vm_pid vm}"
proof -
  obtain vm s' st' where b: "Boot (sim_host [] False) ''firecracker'' (lang_boot_options pool_config python_lang (Clean ''/tmp/dredd-py-1''))
      0 0 sim_start = (Inr vm, s', st')" "sim_procs st' = {vm_pid vm}"
    using sim_boots by metis
  have "lang_ID python_lang = ''py''" by (simp add: python_lang_def)
  then have boot: "lp_boot (sim_host [] False) sim_mktemp 0 python_lang booting_lang = (Inr vm, s', st')"
    using b(1) by (simp add: lp_boot_def booting_lang_def bootFor_def vmWorkDir_def sim_mktemp_def with_ctx_def)
  let ?p = "booting_lang\<lparr>lp_refills := {#LSend python_lang vm#}, lp_sem := \<lparr>bs_cap = 8, bs_used = 0\<rparr>,
    lp_drv := (lp_drv booting_lang)\<lparr>drv_seq := s'\<rparr>, lp_host := st'\<rparr>"
  have "lang_refill (sim_host [] False) sim_mktemp booting_lang ?p"
    using boot by (intro lang_refill.booted) (simp_all add: booting_lang_def sem_release_Some)
  then have "demo_lang_reaches ?p"
    using booting_lang_reaches lang_reachable.step unfolding lang_pool_step_def by blast
  moreover have "sim_procs (lp_host ?p) = {vm_pid vm}" using b(2) by simp
  ultimately show ?thesis by blast
qed

lemma lang_pool_refines_witness:
  "\<exists>s. pool_reachable python_pool s \<and> pl_alive s \<noteq> {}"
proof -
  obtain p and vm :: VM where p: "demo_lang_reaches p" "sim_procs (lp_host p) = {vm_pid vm}" using warm_lang by blast
  have "sim_procs sim_start = {}" by (simp add: sim_start_def)
  from lang_pool_refines [OF sim_pool.pool_host_axioms this python_registry_ok p(1) [unfolded demo_lang_def], of "\<lambda>_. True"]
  obtain s where "pool_reachable python_pool s" "pl_alive s = sim_procs (lp_host p)"
    unfolding python_pool_def by blast
  then show ?thesis using p(2) by auto
qed

lemma lang_processes_witness:
  "\<exists>p. demo_lang_reaches p \<and> image_mset vm_pid (lang_vms python_registry p) = mset_set (sim_procs (lp_host p)) \<and>
    size (lang_vms python_registry p) = 1"
proof -
  obtain p and vm :: VM where p: "demo_lang_reaches p" "sim_procs (lp_host p) = {vm_pid vm}" using warm_lang by blast
  have "sim_procs sim_start = {}" by (simp add: sim_start_def)
  from lang_processes [OF sim_pool.pool_host_axioms this python_registry_ok pool_config_simps(4)
      p(1) [unfolded demo_lang_def], of "''py''"] p(2)
  have "image_mset vm_pid (lang_vms python_registry p) = mset_set (sim_procs (lp_host p))"
    "size (image_mset vm_pid (lang_vms python_registry p)) = 1"
    by simp_all
  with p(1) show ?thesis by (metis size_image_mset)
qed

end
