(* ===== verification/Pool_Generic.thy ===== *)
theory Pool_Generic
  imports Pool_Host
begin

text \<open>
  \<^verbatim>\<open>pool/prewarmed_generic.go\<close> on a host: the pool as that file has it, with one channel of VM
  handles, boots that run \<^verbatim>\<open>boot\<close> and the driver, and kills that kill a process. Every step of
  it is a step of the machine of \<^theory_text>\<open>Pool\<close> under the strategy \<^verbatim>\<open>prewarmedGeneric\<close>, so what
  holds of that machine holds here, and of the processes of the host.
\<close>

section \<open>The pool\<close>

datatype grefill =
    GWait
  | GBooting
  | GSend VM

datatype gcall =
    GSelect
  | GTaken VM
  | GSpawn VM
  | GHold "VM option"

datatype gclose =
    GOpen
  | GFlagged
  | GWaiting
  | GWaited
  | GDraining
  | GReturned

record 'h generic_pool =
  gp_cfg :: Config
  gp_drv :: Driver
  gp_size :: nat
  gp_pool :: "VM list"
  gp_pool_closed :: bool
  gp_sem :: bootSemaphore
  gp_cancelled :: bool
  gp_wg :: nat
  gp_closed :: bool
  gp_refills :: "grefill multiset"
  gp_calls :: "gcall multiset"
  gp_closing :: gclose
  gp_host :: 'h

definition newPrewarmedGeneric :: "Config \<Rightarrow> Driver \<Rightarrow> 'h \<Rightarrow> 'h generic_pool" where
  "newPrewarmedGeneric cfg drv st =
     \<lparr>gp_cfg = cfg, gp_drv = drv, gp_size = nat (sint (cfg_PoolSize cfg)), gp_pool = [], gp_pool_closed = False,
      gp_sem = \<lparr>bs_cap = newBootSemaphore (cfg_BootConcurrency cfg), bs_used = 0\<rparr>, gp_cancelled = False,
      gp_wg = nat (sint (cfg_PoolSize cfg)), gp_closed = False,
      gp_refills = replicate_mset (nat (sint (cfg_PoolSize cfg))) GWait, gp_calls = {#}, gp_closing = GOpen,
      gp_host = st\<rparr>"

text \<open>\<^verbatim>\<open>p.boot()\<close>: the driver's counter and the host move on.\<close>

definition gp_boot ::
    "'h host \<Rightarrow> (string \<Rightarrow> 'h \<Rightarrow> (string + string) \<times> 'h) \<Rightarrow> int \<Rightarrow> 'h generic_pool
      \<Rightarrow> (string + VM) \<times> 64 word \<times> 'h" where
  "gp_boot h mktemp now p =
     generic_boot (with_ctx (gp_cancelled p) h) mktemp (drv_bin (gp_drv p)) (gp_cfg p) now (drv_seq (gp_drv p)) (gp_host p)"

text \<open>
  \<^verbatim>\<open>refill\<close>: a slot, the boot, the release of the slot, and the send, or the kill of the VM
  when the context is done. The deferred \<^verbatim>\<open>wg.Done\<close> is part of the last step of each path.
\<close>

inductive generic_refill ::
    "'h host \<Rightarrow> (string \<Rightarrow> 'h \<Rightarrow> (string + string) \<times> 'h) \<Rightarrow> 'h generic_pool \<Rightarrow> 'h generic_pool \<Rightarrow> bool"
  for h mktemp where
  slot: "gp_refills p = add_mset GWait R \<Longrightarrow> sem_acquire (gp_sem p) (gp_cancelled p) True b
    \<Longrightarrow> generic_refill h mktemp p (p\<lparr>gp_refills := add_mset GBooting R, gp_sem := b\<rparr>)"
| no_slot: "gp_refills p = add_mset GWait R \<Longrightarrow> sem_acquire (gp_sem p) (gp_cancelled p) False b
    \<Longrightarrow> generic_refill h mktemp p (p\<lparr>gp_refills := R, gp_sem := b, gp_wg := gp_wg p - 1\<rparr>)"
| booted: "gp_refills p = add_mset GBooting R \<Longrightarrow> gp_boot h mktemp now p = (Inr vm, s', st')
    \<Longrightarrow> sem_release (gp_sem p) = Some b
    \<Longrightarrow> generic_refill h mktemp p
          (p\<lparr>gp_refills := add_mset (GSend vm) R, gp_sem := b, gp_drv := (gp_drv p)\<lparr>drv_seq := s'\<rparr>, gp_host := st'\<rparr>)"
| boot_failed: "gp_refills p = add_mset GBooting R \<Longrightarrow> gp_boot h mktemp now p = (Inl e, s', st')
    \<Longrightarrow> sem_release (gp_sem p) = Some b
    \<Longrightarrow> generic_refill h mktemp p
          (p\<lparr>gp_refills := R, gp_sem := b, gp_wg := gp_wg p - 1, gp_drv := (gp_drv p)\<lparr>drv_seq := s'\<rparr>, gp_host := st'\<rparr>)"
| send: "gp_refills p = add_mset (GSend vm) R \<Longrightarrow> length (gp_pool p) < gp_size p \<Longrightarrow> \<not> gp_pool_closed p
    \<Longrightarrow> generic_refill h mktemp p (p\<lparr>gp_refills := R, gp_pool := gp_pool p @ [vm], gp_wg := gp_wg p - 1\<rparr>)"
| unsent: "gp_refills p = add_mset (GSend vm) R \<Longrightarrow> gp_cancelled p
    \<Longrightarrow> generic_refill h mktemp p
          (p\<lparr>gp_refills := R, gp_host := Kill h (Some vm) (gp_host p), gp_wg := gp_wg p - 1\<rparr>)"

text \<open>\<^verbatim>\<open>Acquire\<close>: a call that finds the flag set returns \<^verbatim>\<open>errPoolClosed\<close> and changes nothing.\<close>

inductive generic_acquire :: "'h generic_pool \<Rightarrow> 'h generic_pool \<Rightarrow> bool" where
  enter: "\<not> gp_closed p \<Longrightarrow> generic_acquire p (p\<lparr>gp_calls := add_mset GSelect (gp_calls p)\<rparr>)"
| receive: "gp_calls p = add_mset GSelect C \<Longrightarrow> gp_pool p = vm # vms
    \<Longrightarrow> generic_acquire p (p\<lparr>gp_calls := add_mset (GTaken vm) C, gp_pool := vms\<rparr>)"
| receive_nil: "gp_calls p = add_mset GSelect C \<Longrightarrow> gp_pool p = [] \<Longrightarrow> gp_pool_closed p
    \<Longrightarrow> generic_acquire p (p\<lparr>gp_calls := add_mset (GHold None) C\<rparr>)"
| ctx_done: "gp_calls p = add_mset GSelect C \<Longrightarrow> generic_acquire p (p\<lparr>gp_calls := C\<rparr>)"
| last: "gp_calls p = add_mset (GTaken vm) C \<Longrightarrow> gp_closed p
    \<Longrightarrow> generic_acquire p (p\<lparr>gp_calls := add_mset (GHold (Some vm)) C\<rparr>)"
| replace: "gp_calls p = add_mset (GTaken vm) C \<Longrightarrow> \<not> gp_closed p
    \<Longrightarrow> generic_acquire p (p\<lparr>gp_calls := add_mset (GSpawn vm) C\<rparr>)"
| spawn: "gp_calls p = add_mset (GSpawn vm) C
    \<Longrightarrow> generic_acquire p (p\<lparr>gp_calls := add_mset (GHold (Some vm)) C, gp_wg := Suc (gp_wg p),
          gp_refills := add_mset GWait (gp_refills p)\<rparr>)"

text \<open>\<^verbatim>\<open>Release\<close> and \<^verbatim>\<open>Discard\<close>.\<close>

inductive generic_release :: "'h host \<Rightarrow> 'h generic_pool \<Rightarrow> 'h generic_pool \<Rightarrow> bool" for h where
  release: "gp_calls p = add_mset (GHold (Some vm)) C
    \<Longrightarrow> generic_release h p (p\<lparr>gp_calls := C, gp_host := Kill h (Some vm) (gp_host p)\<rparr>)"

inductive generic_close :: "'h host \<Rightarrow> 'h generic_pool \<Rightarrow> 'h generic_pool \<Rightarrow> bool" for h where
  flag: "gp_closing p = GOpen \<Longrightarrow> generic_close h p (p\<lparr>gp_closing := GFlagged, gp_closed := True\<rparr>)"
| cancel: "gp_closing p = GFlagged \<Longrightarrow> generic_close h p (p\<lparr>gp_closing := GWaiting, gp_cancelled := True\<rparr>)"
| waited: "gp_closing p = GWaiting \<Longrightarrow> gp_wg p = 0 \<Longrightarrow> generic_close h p (p\<lparr>gp_closing := GWaited\<rparr>)"
| close_chan: "gp_closing p = GWaited
    \<Longrightarrow> generic_close h p (p\<lparr>gp_closing := GDraining, gp_pool_closed := True\<rparr>)"
| drain: "gp_closing p = GDraining \<Longrightarrow> gp_pool p = vm # vms
    \<Longrightarrow> generic_close h p (p\<lparr>gp_pool := vms, gp_host := Kill h (Some vm) (gp_host p)\<rparr>)"
| drained: "gp_closing p = GDraining \<Longrightarrow> gp_pool p = [] \<Longrightarrow> generic_close h p (p\<lparr>gp_closing := GReturned\<rparr>)"

definition generic_step ::
    "'h host \<Rightarrow> (string \<Rightarrow> 'h \<Rightarrow> (string + string) \<times> 'h) \<Rightarrow> 'h generic_pool \<Rightarrow> 'h generic_pool \<Rightarrow> bool" where
  "generic_step h mktemp p p' \<longleftrightarrow>
     generic_refill h mktemp p p' \<or> generic_acquire p p' \<or> generic_release h p p' \<or> generic_close h p p'"

inductive generic_reachable ::
    "'h host \<Rightarrow> (string \<Rightarrow> 'h \<Rightarrow> (string + string) \<times> 'h) \<Rightarrow> 'h generic_pool \<Rightarrow> 'h generic_pool \<Rightarrow> bool"
  for h mktemp p0 where
  new: "generic_reachable h mktemp p0 p0"
| step: "generic_reachable h mktemp p0 p \<Longrightarrow> generic_step h mktemp p p' \<Longrightarrow> generic_reachable h mktemp p0 p'"

section \<open>The relation to the common machine\<close>

text \<open>A VM handle stands for its process.\<close>

fun abs_refill :: "grefill \<Rightarrow> refill" where
  "abs_refill GWait = RWait generic_key"
| "abs_refill GBooting = RBooting generic_key"
| "abs_refill (GSend vm) = RSend generic_key (vm_pid vm)"

fun abs_call :: "gcall \<Rightarrow> caller" where
  "abs_call GSelect = CSelect generic_key"
| "abs_call (GTaken vm) = CTaken generic_key (vm_pid vm)"
| "abs_call (GSpawn vm) = CSpawn generic_key (vm_pid vm)"
| "abs_call (GHold v) = CHold (map_option vm_pid v)"

fun abs_closing :: "gclose \<Rightarrow> phase" where
  "abs_closing GOpen = Opened"
| "abs_closing GFlagged = ClosedSet"
| "abs_closing GWaiting = CtxCancelled"
| "abs_closing GWaited = Draining {generic_key}"
| "abs_closing GDraining = DrainKey generic_key {}"
| "abs_closing GReturned = Draining {}"

definition implements :: "('h \<Rightarrow> nat set) \<Rightarrow> pool \<Rightarrow> 'h generic_pool \<Rightarrow> bool" where
  "implements procs s p \<longleftrightarrow>
     pl_chan s generic_key = map vm_pid (gp_pool p) \<and> pl_chan_closed s generic_key = gp_pool_closed p \<and>
     pl_sem s = bs_used (gp_sem p) \<and> pl_cancelled s = gp_cancelled p \<and> pl_wg s = gp_wg p \<and>
     pl_closed s = gp_closed p \<and> pl_phase s = abs_closing (gp_closing p) \<and>
     pl_refills s = image_mset abs_refill (gp_refills p) \<and> pl_callers s = image_mset abs_call (gp_calls p) \<and>
     pl_alive s = procs (gp_host p)"

text \<open>What no step changes.\<close>

definition generic_fixed :: "Config \<Rightarrow> 'h generic_pool \<Rightarrow> bool" where
  "generic_fixed cfg p \<longleftrightarrow>
     gp_cfg p = cfg \<and> gp_size p = nat (sint (cfg_PoolSize cfg)) \<and>
     bs_cap (gp_sem p) = newBootSemaphore (cfg_BootConcurrency cfg)"

inductive_cases generic_refillE: "generic_refill h mktemp p p'"
inductive_cases generic_acquireE: "generic_acquire p p'"
inductive_cases generic_releaseE: "generic_release h p p'"
inductive_cases generic_closeE: "generic_close h p p'"

lemmas generic_cases = generic_refillE generic_acquireE generic_releaseE generic_closeE

lemma generic_fixed_step: "generic_step h mktemp p p' \<Longrightarrow> generic_fixed cfg p \<Longrightarrow> generic_fixed cfg p'"
  by (auto simp: generic_step_def generic_fixed_def sem_acquire_simps sem_release_Some elim!: generic_cases)

lemma prewarmedGeneric_simps [simp]:
  "sg_keys (prewarmedGeneric cfg) = [generic_key]" "sg_cap (prewarmedGeneric cfg) = nat (sint (cfg_PoolSize cfg))"
  "sg_initial (prewarmedGeneric cfg) = nat (sint (cfg_PoolSize cfg))"
  "sg_sem (prewarmedGeneric cfg) = newBootSemaphore (cfg_BootConcurrency cfg)"
  "sg_start (prewarmedGeneric cfg) l = FromPool generic_key"
  by (simp_all add: prewarmedGeneric_def)

lemma generic_strategy_ok: "config_ok cfg \<Longrightarrow> strategy_ok (prewarmedGeneric cfg)"
  by (auto simp: strategy_ok_def newBootSemaphore_def config_ok_def le_nat_iff)

section \<open>Every step is a step of the common machine\<close>

context pool_host
begin

lemma sim_refill:
  assumes "generic_fixed cfg p" and "implements procs s p" and "generic_refill h mktemp p p'"
  shows "\<exists>s'. refill_step (prewarmedGeneric cfg) s s' \<and> implements procs s' p'"
  using assms(3)
proof cases
  case (slot R b)
  let ?R = "image_mset abs_refill R"
  have r: "pl_refills s = add_mset (RWait generic_key) ?R" and "pl_sem s < sg_sem (prewarmedGeneric cfg)"
    and b: "b = (gp_sem p)\<lparr>bs_used := Suc (pl_sem s)\<rparr>"
    using slot(2,3) assms(1,2) by (auto simp: sem_acquire_simps generic_fixed_def implements_def)
  from refill_step.slot [OF this(1,2)] show ?thesis
    using assms(2) slot(1) b by (intro exI conjI) (assumption, simp add: implements_def)
next
  case (no_slot R b)
  then have r: "pl_refills s = add_mset (RWait generic_key) (image_mset abs_refill R)" and "pl_cancelled s" and b: "b = gp_sem p"
    using assms(2) by (auto simp: sem_acquire_simps implements_def)
  from refill_step.no_slot [OF this(1,2)] show ?thesis
    using assms(2) no_slot(1) b by (intro exI conjI) (assumption, simp add: implements_def)
next
  case (booted R now vm n' st' b)
  have r: "pl_refills s = add_mset (RBooting generic_key) (image_mset abs_refill R)"
    using booted(2) assms(2) by (simp add: implements_def)
  have "\<not> pl_cancelled s" "vm_pid vm \<notin> pl_alive s" and procs: "procs st' = insert (vm_pid vm) (pl_alive s)"
    using generic_boot_outcome [OF booted(3) [unfolded gp_boot_def]] assms(2) by (auto simp: boots_one_def implements_def)
  from refill_step.booted [OF r this(1,2)] show ?thesis
    using assms(2) booted(1,4) procs by (intro exI conjI) (assumption, simp add: implements_def sem_release_Some)
next
  case (boot_failed R now e n' st' b)
  have r: "pl_refills s = add_mset (RBooting generic_key) (image_mset abs_refill R)"
    using boot_failed(2) assms(2) by (simp add: implements_def)
  have "procs st' = pl_alive s"
    using generic_boot_outcome(1) [OF boot_failed(3) [unfolded gp_boot_def]] assms(2) by (simp add: boots_one_def implements_def)
  then show ?thesis
    using refill_step.boot_failed [OF r] assms(2) boot_failed(1,4)
    by (intro exI conjI) (assumption, simp add: implements_def sem_release_Some)
next
  case (send vm R)
  then have "pl_refills s = add_mset (RSend generic_key (vm_pid vm)) (image_mset abs_refill R)"
    "length (pl_chan s generic_key) < sg_cap (prewarmedGeneric cfg)" "\<not> pl_chan_closed s generic_key"
    using assms(1,2) by (simp_all add: generic_fixed_def implements_def)
  from refill_step.send [OF this] show ?thesis
    using assms(2) send(1) by (intro exI conjI) (assumption, simp add: implements_def)
next
  case (unsent vm R)
  then have "pl_refills s = add_mset (RSend generic_key (vm_pid vm)) (image_mset abs_refill R)" "pl_cancelled s"
    using assms(2) by (simp_all add: implements_def)
  from refill_step.unsent [OF this] show ?thesis
    using assms(2) unsent(1) by (intro exI conjI) (assumption, simp add: implements_def kill_procs)
qed

lemma sim_acquire:
  assumes "implements procs s p" and "generic_acquire p p'"
  shows "\<exists>s'. acquire_step (prewarmedGeneric cfg) s s' \<and> implements procs s' p'"
  using assms(2)
proof cases
  case enter
  then have "\<not> pl_closed s" using assms(1) by (simp add: implements_def)
  from acquire_step.enter [OF this, of "prewarmedGeneric cfg" "[]" generic_key] show ?thesis
    using assms(1) enter(1) by (intro exI conjI) (simp, simp add: implements_def)
next
  case (receive C vm vms)
  then have "pl_callers s = add_mset (CSelect generic_key) (image_mset abs_call C)"
    "pl_chan s generic_key = vm_pid vm # map vm_pid vms"
    using assms(1) by (simp_all add: implements_def)
  from acquire_step.receive [OF this] show ?thesis
    using assms(1) receive(1) by (intro exI conjI) (assumption, simp add: implements_def)
next
  case (receive_nil C)
  then have "pl_callers s = add_mset (CSelect generic_key) (image_mset abs_call C)"
    "pl_chan s generic_key = []" "pl_chan_closed s generic_key"
    using assms(1) by (simp_all add: implements_def)
  from acquire_step.receive_nil [OF this] show ?thesis
    using assms(1) receive_nil(1) by (intro exI conjI) (assumption, simp add: implements_def)
next
  case (ctx_done C)
  then have "pl_callers s = add_mset (CSelect generic_key) (image_mset abs_call C)"
    using assms(1) by (simp add: implements_def)
  from acquire_step.give_up [OF this] show ?thesis
    using assms(1) ctx_done(1) by (intro exI conjI) (assumption, simp add: implements_def)
next
  case (last vm C)
  then have "pl_callers s = add_mset (CTaken generic_key (vm_pid vm)) (image_mset abs_call C)" "pl_closed s"
    using assms(1) by (simp_all add: implements_def)
  from acquire_step.last [OF this] show ?thesis
    using assms(1) last(1) by (intro exI conjI) (assumption, simp add: implements_def)
next
  case (replace vm C)
  then have "pl_callers s = add_mset (CTaken generic_key (vm_pid vm)) (image_mset abs_call C)" "\<not> pl_closed s"
    using assms(1) by (simp_all add: implements_def)
  from acquire_step.replace [OF this] show ?thesis
    using assms(1) replace(1) by (intro exI conjI) (assumption, simp add: implements_def)
next
  case (spawn vm C)
  then have "pl_callers s = add_mset (CSpawn generic_key (vm_pid vm)) (image_mset abs_call C)"
    using assms(1) by (simp add: implements_def)
  from acquire_step.spawn [OF this] show ?thesis
    using assms(1) spawn(1) by (intro exI conjI) (assumption, simp add: implements_def)
qed

lemma sim_release:
  assumes "implements procs s p" and "generic_release h p p'"
  shows "\<exists>s'. release_step s s' \<and> implements procs s' p'"
  using assms(2)
proof cases
  case (release vm C)
  then have "pl_callers s = add_mset (CHold (Some (vm_pid vm))) (image_mset abs_call C)"
    using assms(1) by (simp add: implements_def)
  from release_step.release [OF this] show ?thesis
    using assms(1) release(1) by (intro exI conjI) (assumption, simp add: implements_def kill_procs)
qed

lemma sim_close:
  assumes "implements procs s p" and "generic_close h p p'"
  shows "\<exists>s'. close_step (prewarmedGeneric cfg) s s' \<and> implements procs s' p'"
  using assms(2)
proof cases
  case flag
  then have "pl_phase s = Opened" using assms(1) by (simp add: implements_def)
  from close_step.flag [OF this] show ?thesis
    using assms(1) flag(1) by (intro exI conjI) (assumption, simp add: implements_def)
next
  case cancel
  then have "pl_phase s = ClosedSet" using assms(1) by (simp add: implements_def)
  from close_step.cancel [OF this] show ?thesis
    using assms(1) cancel(1) by (intro exI conjI) (assumption, simp add: implements_def)
next
  case waited
  then have "pl_phase s = CtxCancelled" "pl_wg s = 0" using assms(1) by (simp_all add: implements_def)
  from close_step.waited [OF this] show ?thesis
    using assms(1) waited(1) by (intro exI conjI) (assumption, simp add: implements_def)
next
  case close_chan
  then have "pl_phase s = Draining {generic_key}" using assms(1) by (simp add: implements_def)
  from close_step.close_chan [OF this, of generic_key "prewarmedGeneric cfg"] show ?thesis
    using assms(1) close_chan(1)
    by (intro exI [of _ "s\<lparr>pl_phase := DrainKey generic_key {}, pl_chan_closed := (pl_chan_closed s)(generic_key := True)\<rparr>"])
      (simp add: implements_def)
next
  case (drain vm vms)
  then have "pl_phase s = DrainKey generic_key {}" "pl_chan s generic_key = vm_pid vm # map vm_pid vms"
    using assms(1) by (simp_all add: implements_def)
  from close_step.drain [OF this] show ?thesis
    using assms(1) drain(1,2) by (intro exI conjI) (assumption, simp add: implements_def kill_procs)
next
  case drained
  then have "pl_phase s = DrainKey generic_key {}" "pl_chan s generic_key = []"
    using assms(1) by (simp_all add: implements_def)
  from close_step.drained [OF this] show ?thesis
    using assms(1) drained(1) by (intro exI conjI) (assumption, simp add: implements_def)
qed

lemma sim_step:
  assumes "generic_fixed cfg p" and "implements procs s p" and "generic_step h mktemp p p'"
  shows "\<exists>s'. pool_step (prewarmedGeneric cfg) s s' \<and> implements procs s' p'"
  using assms(3) sim_refill [OF assms(1,2)] sim_acquire [OF assms(2)] sim_release [OF assms(2)] sim_close [OF assms(2)]
  unfolding generic_step_def pool_step_def by blast

lemma sim_new:
  assumes "procs st = {}"
  shows "implements procs (new_pool (prewarmedGeneric cfg)) (newPrewarmedGeneric cfg drv st)"
  using assms by (simp add: implements_def new_pool_def newPrewarmedGeneric_def)

lemma sim_reachable:
  assumes "generic_reachable h mktemp (newPrewarmedGeneric cfg drv st) p" and "procs st = {}"
  shows "generic_fixed cfg p \<and> (\<exists>s. pool_reachable (prewarmedGeneric cfg) s \<and> implements procs s p)"
  using assms(1)
proof induction
  case new
  have "generic_fixed cfg (newPrewarmedGeneric cfg drv st)"
    by (simp add: generic_fixed_def newPrewarmedGeneric_def)
  then show ?case using sim_new [OF assms(2), of cfg drv] pool_reachable.new by blast
next
  case (step p p')
  then show ?case using sim_step [of cfg p] generic_fixed_step pool_reachable.step by blast
qed

end

section \<open>The VMs of the pool\<close>

fun grefill_vm :: "grefill \<Rightarrow> VM multiset" where
  "grefill_vm (GSend vm) = {#vm#}" | "grefill_vm _ = {#}"

fun gcall_vm :: "gcall \<Rightarrow> VM multiset" where
  "gcall_vm (GTaken vm) = {#vm#}"
| "gcall_vm (GSpawn vm) = {#vm#}"
| "gcall_vm (GHold (Some vm)) = {#vm#}"
| "gcall_vm _ = {#}"

definition calls_vms :: "'h generic_pool \<Rightarrow> VM multiset" where
  "calls_vms p = (\<Sum>c \<in># gp_calls p. gcall_vm c)"

definition generic_vms :: "'h generic_pool \<Rightarrow> VM multiset" where
  "generic_vms p = mset (gp_pool p) + (\<Sum>r \<in># gp_refills p. grefill_vm r) + calls_vms p"

lemma implements_vms:
  assumes "implements procs s p"
  shows "busy_vms s = image_mset vm_pid (calls_vms p)"
    "idle_vms (prewarmedGeneric cfg) s + sending_vms s + busy_vms s = image_mset vm_pid (generic_vms p)"
proof -
  have r: "refill_vm (abs_refill g) = image_mset vm_pid (grefill_vm g)" for g by (cases g) simp_all
  have c: "caller_vm (abs_call d) = image_mset vm_pid (gcall_vm d)" for d
    by (cases d rule: gcall_vm.cases) simp_all
  show b: "busy_vms s = image_mset vm_pid (calls_vms p)"
    using assms by (simp add: busy_vms_def calls_vms_def image_sum_mset implements_def multiset.map_comp comp_def c)
  have "sending_vms s = image_mset vm_pid (\<Sum>r \<in># gp_refills p. grefill_vm r)"
    using assms by (simp add: sending_vms_def image_sum_mset implements_def multiset.map_comp comp_def r)
  with b show "idle_vms (prewarmedGeneric cfg) s + sending_vms s + busy_vms s = image_mset vm_pid (generic_vms p)"
    using assms by (simp add: generic_vms_def idle_vms_def implements_def)
qed

section \<open>Properties\<close>

text \<open>
  C8. The generic pool is the common machine: on a lawful host without other VMs, every reachable
  state of the pool of \<^verbatim>\<open>prewarmed_generic.go\<close>, which boots with the driver and kills
  processes, implements a reachable state of the machine under its strategy whose running VMs
  are the processes of the host, and every step of it a step of that machine.
\<close>

theorem generic_pool_refines:
  assumes "pool_host h procs dirs mktemp" and "procs st = {}"
    and "generic_reachable h mktemp (newPrewarmedGeneric cfg drv st) p"
  shows "\<exists>s. pool_reachable (prewarmedGeneric cfg) s \<and> implements procs s p \<and> pl_alive s = procs (gp_host p) \<and>
    (\<forall>p'. generic_step h mktemp p p' \<longrightarrow>
      (\<exists>s'. pool_step (prewarmedGeneric cfg) s s' \<and> implements procs s' p'))"
proof -
  obtain s where s: "generic_fixed cfg p" "pool_reachable (prewarmedGeneric cfg) s" "implements procs s p"
    using pool_host.sim_reachable [OF assms(1,3,2)] by blast
  then show ?thesis
    using pool_host.sim_step [OF assms(1) s(1,3)] by (auto simp: implements_def)
qed

text \<open>
  C14. No Firecracker process is lost: on such a host, in every reachable state of the generic pool
  the running processes are those of the VMs in its channel, with its refills and with its
  callers, each once, at most \<^verbatim>\<open>PoolSize\<close> of them in the channel and at most
  \<^verbatim>\<open>BootConcurrency\<close> slots of the semaphore in use; and once \<^verbatim>\<open>Close\<close> has returned, only the
  processes of the VMs callers still hold.
\<close>

theorem generic_processes:
  assumes "pool_host h procs dirs mktemp" and "procs st = {}" and "config_ok cfg"
    and "generic_reachable h mktemp (newPrewarmedGeneric cfg drv st) p"
  shows "image_mset vm_pid (generic_vms p) = mset_set (procs (gp_host p)) \<and>
    int (length (gp_pool p)) \<le> sint (cfg_PoolSize cfg) \<and> int (bs_used (gp_sem p)) \<le> sint (cfg_BootConcurrency cfg) \<and>
    (gp_closing p = GReturned \<longrightarrow> image_mset vm_pid (calls_vms p) = mset_set (procs (gp_host p)))"
proof -
  obtain s where s: "generic_fixed cfg p" "pool_reachable (prewarmedGeneric cfg) s" "implements procs s p"
    using pool_host.sim_reachable [OF assms(1,4,2)] by blast
  note sg = generic_strategy_ok [OF assms(3)]
  have alive: "pl_alive s = procs (gp_host p)" using s(3) by (simp add: implements_def)
  have 1: "image_mset vm_pid (generic_vms p) = mset_set (procs (gp_host p))"
    using vms_reachable [OF sg s(2)] implements_vms(2) [OF s(3), of cfg] alive by (simp add: vms_ok_def)
  have "1 \<le> sint (cfg_PoolSize cfg)" "1 \<le> sint (cfg_BootConcurrency cfg)" using assms(3) by (simp_all add: config_ok_def)
  moreover have "length (pl_chan s generic_key) \<le> sg_cap (prewarmedGeneric cfg)" "pl_sem s \<le> sg_sem (prewarmedGeneric cfg)"
    using counters_reachable [OF s(2)] by (simp_all add: counters_ok_def)
  then have "length (gp_pool p) \<le> nat (sint (cfg_PoolSize cfg))"
    "bs_used (gp_sem p) \<le> newBootSemaphore (cfg_BootConcurrency cfg)"
    using s(3) by (simp_all add: implements_def)
  ultimately have 2: "int (length (gp_pool p)) \<le> sint (cfg_PoolSize cfg)"
    "int (bs_used (gp_sem p)) \<le> sint (cfg_BootConcurrency cfg)"
    by (simp_all add: newBootSemaphore_def split: if_splits)
  have "image_mset vm_pid (calls_vms p) = mset_set (procs (gp_host p))" if "gp_closing p = GReturned"
  proof -
    have "pl_phase s = Draining {}" using s(3) that by (simp add: implements_def)
    from drained_vms [OF sg s(2) this] show ?thesis using implements_vms(1) [OF s(3)] alive by simp
  qed
  with 1 2 show ?thesis by blast
qed

section \<open>Witnesses\<close>

definition demo_generic :: "sim generic_pool" where
  "demo_generic = newPrewarmedGeneric pool_config (NewDriver ''firecracker'') sim_start"

abbreviation demo_generic_reaches :: "sim generic_pool \<Rightarrow> bool" where
  "demo_generic_reaches \<equiv> generic_reachable (sim_host [] False) sim_mktemp demo_generic"

definition booting_generic :: "sim generic_pool" where
  "booting_generic = demo_generic\<lparr>gp_refills := {#GBooting#}, gp_sem := (gp_sem demo_generic)\<lparr>bs_used := 1\<rparr>\<rparr>"

lemma demo_generic_simps [simp]:
  "gp_refills demo_generic = {#GWait#}" "bs_used (gp_sem demo_generic) = 0" "bs_cap (gp_sem demo_generic) = 8"
  "gp_cancelled demo_generic = False" "gp_pool demo_generic = []" "gp_calls demo_generic = {#}"
  "gp_cfg demo_generic = pool_config" "drv_bin (gp_drv demo_generic) = ''firecracker''"
  "drv_seq (gp_drv demo_generic) = 0" "gp_host demo_generic = sim_start" "gp_closing demo_generic = GOpen"
  by (simp_all add: demo_generic_def newPrewarmedGeneric_def NewDriver_def newBootSemaphore_def)

lemma booting_generic_reaches: "demo_generic_reaches booting_generic"
proof -
  have "sem_acquire (gp_sem demo_generic) False True ((gp_sem demo_generic)\<lparr>bs_used := 1\<rparr>)"
    using sem_acquire.slot [of "gp_sem demo_generic" False] by simp
  then have "generic_step (sim_host [] False) sim_mktemp demo_generic booting_generic"
    using generic_refill.slot [of demo_generic "{#}" "(gp_sem demo_generic)\<lparr>bs_used := 1\<rparr>"]
    by (simp add: generic_step_def booting_generic_def)
  then show ?thesis by (meson generic_reachable.new generic_reachable.step)
qed

text \<open>A state in which a VM runs: the first refill has booted it.\<close>

lemma warm_generic: "\<exists>p (vm :: VM). demo_generic_reaches p \<and> sim_procs (gp_host p) = {vm_pid vm}"
proof -
  obtain vm s' st' where b: "Boot (sim_host [] False) ''firecracker'' (generic_boot_options pool_config (Clean ''/tmp/dredd-generic-1''))
      0 0 sim_start = (Inr vm, s', st')" "sim_procs st' = {vm_pid vm}"
    using sim_boots by metis
  have boot: "gp_boot (sim_host [] False) sim_mktemp 0 booting_generic = (Inr vm, s', st')"
    using b(1) by (simp add: gp_boot_def booting_generic_def generic_boot_def vmWorkDir_def sim_mktemp_def with_ctx_def)
  let ?p = "booting_generic\<lparr>gp_refills := {#GSend vm#}, gp_sem := gp_sem demo_generic,
    gp_drv := (gp_drv booting_generic)\<lparr>drv_seq := s'\<rparr>, gp_host := st'\<rparr>"
  have "generic_refill (sim_host [] False) sim_mktemp booting_generic ?p"
    using boot by (intro generic_refill.booted) (simp_all add: booting_generic_def sem_release_Some)
  then have "demo_generic_reaches ?p"
    using booting_generic_reaches generic_reachable.step unfolding generic_step_def by blast
  moreover have "sim_procs (gp_host ?p) = {vm_pid vm}" using b(2) by simp
  ultimately show ?thesis by blast
qed

lemma generic_pool_refines_witness:
  "\<exists>s. pool_reachable (prewarmedGeneric pool_config) s \<and> pl_alive s \<noteq> {}"
proof -
  obtain p and vm :: VM where p: "demo_generic_reaches p" "sim_procs (gp_host p) = {vm_pid vm}" using warm_generic by blast
  have "sim_procs sim_start = {}" by (simp add: sim_start_def)
  from generic_pool_refines [OF sim_pool.pool_host_axioms this p(1) [unfolded demo_generic_def]]
  obtain s where "pool_reachable (prewarmedGeneric pool_config) s" "pl_alive s = sim_procs (gp_host p)" by blast
  then show ?thesis using p(2) by auto
qed

lemma generic_processes_witness:
  "\<exists>p. demo_generic_reaches p \<and> image_mset vm_pid (generic_vms p) = mset_set (sim_procs (gp_host p)) \<and>
    size (generic_vms p) = 1"
proof -
  obtain p and vm :: VM where p: "demo_generic_reaches p" "sim_procs (gp_host p) = {vm_pid vm}" using warm_generic by blast
  have "sim_procs sim_start = {}" by (simp add: sim_start_def)
  from generic_processes [OF sim_pool.pool_host_axioms this pool_config_simps(4) p(1) [unfolded demo_generic_def]] p(2)
  have "image_mset vm_pid (generic_vms p) = mset_set (sim_procs (gp_host p))" "size (image_mset vm_pid (generic_vms p)) = 1"
    by simp_all
  with p(1) show ?thesis by (metis size_image_mset)
qed

end
