(* ===== verification/Pool_Spare.thy ===== *)
theory Pool_Spare
  imports Pool_Host
begin

text \<open>
  \<^verbatim>\<open>pool/ondemand_spare.go\<close> on a host: the pool as that file has it, with one spare for each
  language and a boot for each call that finds none, on VM handles and processes. Every step of
  it is a step of the machine of \<^theory_text>\<open>Pool\<close> under the strategy \<^verbatim>\<open>onDemandSpare\<close>.
\<close>

section \<open>The pool\<close>

text \<open>A refill of a spare waits for the semaphore, boots, and sends.\<close>

datatype srefill =
    SpWait Language
  | SpBooting Language
  | SpSend Language VM

text \<open>A call of \<^verbatim>\<open>Acquire\<close>, up to the release of its VM; \<open>AHold\<close> keeps the language asked for.\<close>

datatype scall =
    ATry Language
  | ATaken Language VM
  | ASpawn Language VM
  | AWait Language
  | ABoot Language
  | AHold string "VM option"

record 'h spare_pool =
  sp_cfg :: Config
  sp_drv :: Driver
  sp_reg :: Registry
  sp_spares :: "string \<Rightarrow> VM list"
  sp_spares_closed :: "string \<Rightarrow> bool"
  sp_sem :: bootSemaphore
  sp_cancelled :: bool
  sp_wg :: nat
  sp_closed :: bool
  sp_refills :: "srefill multiset"
  sp_calls :: "scall multiset"
  sp_closing :: phase
  sp_host :: 'h

definition newOnDemandSpare :: "Config \<Rightarrow> Driver \<Rightarrow> Registry \<Rightarrow> 'h \<Rightarrow> 'h spare_pool" where
  "newOnDemandSpare cfg drv reg st =
     \<lparr>sp_cfg = cfg, sp_drv = drv, sp_reg = reg, sp_spares = (\<lambda>_. []), sp_spares_closed = (\<lambda>_. False),
      sp_sem = \<lparr>bs_cap = newBootSemaphore (cfg_BootConcurrency cfg), bs_used = 0\<rparr>, sp_cancelled = False,
      sp_wg = length (All reg), sp_closed = False, sp_refills = image_mset SpWait (mset (All reg)), sp_calls = {#},
      sp_closing = Opened, sp_host = st\<rparr>"

text \<open>\<^verbatim>\<open>bootFor\<close> once it has its slot, on a context that is done or not.\<close>

definition sp_boot ::
    "'h host \<Rightarrow> (string \<Rightarrow> 'h \<Rightarrow> (string + string) \<times> 'h) \<Rightarrow> bool \<Rightarrow> int \<Rightarrow> Language \<Rightarrow> 'h spare_pool
      \<Rightarrow> (string + VM) \<times> 64 word \<times> 'h" where
  "sp_boot h mktemp ctx_done now l p =
     spare_bootFor (with_ctx ctx_done h) mktemp (drv_bin (sp_drv p)) (sp_cfg p) None l now (drv_seq (sp_drv p)) (sp_host p)"

text \<open>
  \<^verbatim>\<open>refillSpare\<close>: \<^verbatim>\<open>bootFor\<close> on the pool's context, which gives its slot back when it
  returns, and the send.
\<close>

inductive refillSpare ::
    "'h host \<Rightarrow> (string \<Rightarrow> 'h \<Rightarrow> (string + string) \<times> 'h) \<Rightarrow> 'h spare_pool \<Rightarrow> 'h spare_pool \<Rightarrow> bool"
  for h mktemp where
  slot: "sp_refills p = add_mset (SpWait l) R \<Longrightarrow> sem_acquire (sp_sem p) (sp_cancelled p) True b
    \<Longrightarrow> refillSpare h mktemp p (p\<lparr>sp_refills := add_mset (SpBooting l) R, sp_sem := b\<rparr>)"
| no_slot: "sp_refills p = add_mset (SpWait l) R \<Longrightarrow> sem_acquire (sp_sem p) (sp_cancelled p) False b
    \<Longrightarrow> refillSpare h mktemp p (p\<lparr>sp_refills := R, sp_sem := b, sp_wg := sp_wg p - 1\<rparr>)"
| booted: "sp_refills p = add_mset (SpBooting l) R
    \<Longrightarrow> sp_boot h mktemp (sp_cancelled p) now l p = (Inr vm, s', st') \<Longrightarrow> sem_release (sp_sem p) = Some b
    \<Longrightarrow> refillSpare h mktemp p
          (p\<lparr>sp_refills := add_mset (SpSend l vm) R, sp_sem := b, sp_drv := (sp_drv p)\<lparr>drv_seq := s'\<rparr>, sp_host := st'\<rparr>)"
| boot_failed: "sp_refills p = add_mset (SpBooting l) R
    \<Longrightarrow> sp_boot h mktemp (sp_cancelled p) now l p = (Inl e, s', st') \<Longrightarrow> sem_release (sp_sem p) = Some b
    \<Longrightarrow> refillSpare h mktemp p
          (p\<lparr>sp_refills := R, sp_sem := b, sp_wg := sp_wg p - 1, sp_drv := (sp_drv p)\<lparr>drv_seq := s'\<rparr>, sp_host := st'\<rparr>)"
| send: "sp_refills p = add_mset (SpSend l vm) R \<Longrightarrow> length (sp_spares p (lang_ID l)) < 1
    \<Longrightarrow> \<not> sp_spares_closed p (lang_ID l)
    \<Longrightarrow> refillSpare h mktemp p
          (p\<lparr>sp_refills := R, sp_spares := (sp_spares p)(lang_ID l := sp_spares p (lang_ID l) @ [vm]), sp_wg := sp_wg p - 1\<rparr>)"
| unsent: "sp_refills p = add_mset (SpSend l vm) R \<Longrightarrow> sp_cancelled p
    \<Longrightarrow> refillSpare h mktemp p
          (p\<lparr>sp_refills := R, sp_host := Kill h (Some vm) (sp_host p), sp_wg := sp_wg p - 1\<rparr>)"

text \<open>
  \<^verbatim>\<open>Acquire\<close>: the flag, the registry, the spare or \<^verbatim>\<open>bootFor\<close> on the caller's context,
  which may be done at any time. A call on a closed pool or for an unknown language returns
  its error and changes nothing. The registry keeps each language under its id, so the channel
  looked up for \<^verbatim>\<open>langID\<close> is the one made for the language found.
\<close>

inductive spare_acquire ::
    "'h host \<Rightarrow> (string \<Rightarrow> 'h \<Rightarrow> (string + string) \<times> 'h) \<Rightarrow> 'h spare_pool \<Rightarrow> 'h spare_pool \<Rightarrow> bool"
  for h mktemp where
  enter: "\<not> sp_closed p \<Longrightarrow> Get (sp_reg p) langID = Some l
    \<Longrightarrow> spare_acquire h mktemp p (p\<lparr>sp_calls := add_mset (ATry l) (sp_calls p)\<rparr>)"
| spare: "sp_calls p = add_mset (ATry l) C \<Longrightarrow> sp_spares p (lang_ID l) = vm # vms
    \<Longrightarrow> spare_acquire h mktemp p (p\<lparr>sp_calls := add_mset (ATaken l vm) C, sp_spares := (sp_spares p)(lang_ID l := vms)\<rparr>)"
| spare_nil: "sp_calls p = add_mset (ATry l) C \<Longrightarrow> sp_spares p (lang_ID l) = [] \<Longrightarrow> sp_spares_closed p (lang_ID l)
    \<Longrightarrow> spare_acquire h mktemp p (p\<lparr>sp_calls := add_mset (AHold (lang_ID l) None) C\<rparr>)"
| no_spare: "sp_calls p = add_mset (ATry l) C \<Longrightarrow> sp_spares p (lang_ID l) = [] \<Longrightarrow> \<not> sp_spares_closed p (lang_ID l)
    \<Longrightarrow> spare_acquire h mktemp p (p\<lparr>sp_calls := add_mset (AWait l) C\<rparr>)"
| last: "sp_calls p = add_mset (ATaken l vm) C \<Longrightarrow> sp_closed p
    \<Longrightarrow> spare_acquire h mktemp p (p\<lparr>sp_calls := add_mset (AHold (lang_ID l) (Some vm)) C\<rparr>)"
| replace: "sp_calls p = add_mset (ATaken l vm) C \<Longrightarrow> \<not> sp_closed p
    \<Longrightarrow> spare_acquire h mktemp p (p\<lparr>sp_calls := add_mset (ASpawn l vm) C\<rparr>)"
| spawn: "sp_calls p = add_mset (ASpawn l vm) C
    \<Longrightarrow> spare_acquire h mktemp p (p\<lparr>sp_calls := add_mset (AHold (lang_ID l) (Some vm)) C, sp_wg := Suc (sp_wg p),
          sp_refills := add_mset (SpWait l) (sp_refills p)\<rparr>)"
| slot: "sp_calls p = add_mset (AWait l) C \<Longrightarrow> sem_acquire (sp_sem p) ctx_done True b
    \<Longrightarrow> spare_acquire h mktemp p (p\<lparr>sp_calls := add_mset (ABoot l) C, sp_sem := b\<rparr>)"
| no_slot: "sp_calls p = add_mset (AWait l) C \<Longrightarrow> sem_acquire (sp_sem p) ctx_done False b
    \<Longrightarrow> spare_acquire h mktemp p (p\<lparr>sp_calls := C, sp_sem := b\<rparr>)"
| booted: "sp_calls p = add_mset (ABoot l) C
    \<Longrightarrow> sp_boot h mktemp ctx_done now l p = (Inr vm, s', st') \<Longrightarrow> sem_release (sp_sem p) = Some b
    \<Longrightarrow> spare_acquire h mktemp p (p\<lparr>sp_calls := add_mset (AHold (lang_ID l) (Some vm)) C, sp_sem := b,
          sp_drv := (sp_drv p)\<lparr>drv_seq := s'\<rparr>, sp_host := st'\<rparr>)"
| boot_failed: "sp_calls p = add_mset (ABoot l) C
    \<Longrightarrow> sp_boot h mktemp ctx_done now l p = (Inl e, s', st') \<Longrightarrow> sem_release (sp_sem p) = Some b
    \<Longrightarrow> spare_acquire h mktemp p (p\<lparr>sp_calls := C, sp_sem := b, sp_drv := (sp_drv p)\<lparr>drv_seq := s'\<rparr>, sp_host := st'\<rparr>)"

text \<open>\<^verbatim>\<open>Release\<close> and \<^verbatim>\<open>Discard\<close>.\<close>

inductive spare_release :: "'h host \<Rightarrow> 'h spare_pool \<Rightarrow> 'h spare_pool \<Rightarrow> bool" for h where
  release: "sp_calls p = add_mset (AHold langID (Some vm)) C
    \<Longrightarrow> spare_release h p (p\<lparr>sp_calls := C, sp_host := Kill h (Some vm) (sp_host p)\<rparr>)"

text \<open>\<^verbatim>\<open>Close\<close>; the spares are closed and drained in the order of the map, which is any.\<close>

inductive spare_close :: "'h host \<Rightarrow> 'h spare_pool \<Rightarrow> 'h spare_pool \<Rightarrow> bool" for h where
  flag: "sp_closing p = Opened \<Longrightarrow> spare_close h p (p\<lparr>sp_closing := ClosedSet, sp_closed := True\<rparr>)"
| cancel: "sp_closing p = ClosedSet \<Longrightarrow> spare_close h p (p\<lparr>sp_closing := CtxCancelled, sp_cancelled := True\<rparr>)"
| waited: "sp_closing p = CtxCancelled \<Longrightarrow> sp_wg p = 0
    \<Longrightarrow> spare_close h p (p\<lparr>sp_closing := Draining (lang_ID ` set (All (sp_reg p)))\<rparr>)"
| close_chan: "sp_closing p = Draining K \<Longrightarrow> k \<in> K
    \<Longrightarrow> spare_close h p (p\<lparr>sp_closing := DrainKey k (K - {k}), sp_spares_closed := (sp_spares_closed p)(k := True)\<rparr>)"
| drain: "sp_closing p = DrainKey k K \<Longrightarrow> sp_spares p k = vm # vms
    \<Longrightarrow> spare_close h p (p\<lparr>sp_spares := (sp_spares p)(k := vms), sp_host := Kill h (Some vm) (sp_host p)\<rparr>)"
| drained: "sp_closing p = DrainKey k K \<Longrightarrow> sp_spares p k = []
    \<Longrightarrow> spare_close h p (p\<lparr>sp_closing := Draining K\<rparr>)"

definition spare_pool_step ::
    "'h host \<Rightarrow> (string \<Rightarrow> 'h \<Rightarrow> (string + string) \<times> 'h) \<Rightarrow> 'h spare_pool \<Rightarrow> 'h spare_pool \<Rightarrow> bool" where
  "spare_pool_step h mktemp p p' \<longleftrightarrow>
     refillSpare h mktemp p p' \<or> spare_acquire h mktemp p p' \<or> spare_release h p p' \<or> spare_close h p p'"

inductive spare_reachable ::
    "'h host \<Rightarrow> (string \<Rightarrow> 'h \<Rightarrow> (string + string) \<times> 'h) \<Rightarrow> 'h spare_pool \<Rightarrow> 'h spare_pool \<Rightarrow> bool"
  for h mktemp p0 where
  new: "spare_reachable h mktemp p0 p0"
| step: "spare_reachable h mktemp p0 p \<Longrightarrow> spare_pool_step h mktemp p p' \<Longrightarrow> spare_reachable h mktemp p0 p'"

inductive_cases refillSpareE: "refillSpare h mktemp p p'"
inductive_cases spare_acquireE: "spare_acquire h mktemp p p'"
inductive_cases spare_releaseE: "spare_release h p p'"
inductive_cases spare_closeE: "spare_close h p p'"

lemmas spare_cases = refillSpareE spare_acquireE spare_releaseE spare_closeE

section \<open>The relation to the common machine\<close>

fun abs_srefill :: "srefill \<Rightarrow> refill" where
  "abs_srefill (SpWait l) = RWait (lang_ID l)"
| "abs_srefill (SpBooting l) = RBooting (lang_ID l)"
| "abs_srefill (SpSend l vm) = RSend (lang_ID l) (vm_pid vm)"

fun abs_scall :: "scall \<Rightarrow> caller" where
  "abs_scall (ATry l) = CTry (lang_ID l)"
| "abs_scall (ATaken l vm) = CTaken (lang_ID l) (vm_pid vm)"
| "abs_scall (ASpawn l vm) = CSpawn (lang_ID l) (vm_pid vm)"
| "abs_scall (AWait l) = CWait (lang_ID l)"
| "abs_scall (ABoot l) = CBoot (lang_ID l)"
| "abs_scall (AHold langID v) = CHold (map_option vm_pid v)"

definition spare_implements :: "('h \<Rightarrow> nat set) \<Rightarrow> pool \<Rightarrow> 'h spare_pool \<Rightarrow> bool" where
  "spare_implements procs s p \<longleftrightarrow>
     pl_chan s = (\<lambda>k. map vm_pid (sp_spares p k)) \<and> pl_chan_closed s = sp_spares_closed p \<and>
     pl_sem s = bs_used (sp_sem p) \<and> pl_cancelled s = sp_cancelled p \<and> pl_wg s = sp_wg p \<and>
     pl_closed s = sp_closed p \<and> pl_phase s = sp_closing p \<and>
     pl_refills s = image_mset abs_srefill (sp_refills p) \<and> pl_callers s = image_mset abs_scall (sp_calls p) \<and>
     pl_alive s = procs (sp_host p)"

text \<open>What no step changes.\<close>

definition spare_fixed :: "Config \<Rightarrow> Registry \<Rightarrow> 'h spare_pool \<Rightarrow> bool" where
  "spare_fixed cfg reg p \<longleftrightarrow>
     sp_cfg p = cfg \<and> sp_reg p = reg \<and> bs_cap (sp_sem p) = newBootSemaphore (cfg_BootConcurrency cfg)"

lemma spare_fixed_step: "spare_pool_step h mktemp p p' \<Longrightarrow> spare_fixed cfg reg p \<Longrightarrow> spare_fixed cfg reg p'"
  by (auto simp: spare_pool_step_def spare_fixed_def sem_acquire_simps sem_release_Some elim!: spare_cases)

lemma onDemandSpare_simps [simp]:
  "sg_keys (onDemandSpare is_print cfg reg) = map lang_ID (All reg)" "sg_cap (onDemandSpare is_print cfg reg) = 1"
  "sg_initial (onDemandSpare is_print cfg reg) = 1"
  "sg_sem (onDemandSpare is_print cfg reg) = newBootSemaphore (cfg_BootConcurrency cfg)"
  by (simp_all add: onDemandSpare_def)


section \<open>The simulation\<close>

context pool_host
begin

lemma sim_spare_refill:
  assumes "spare_fixed cfg reg p" and "spare_implements procs s p" and "refillSpare h mktemp p p'"
  shows "\<exists>s'. refill_step (onDemandSpare is_print cfg reg) s s' \<and> spare_implements procs s' p'"
  using assms(3)
proof cases
  case (slot l R b)
  then have "pl_refills s = add_mset (RWait (lang_ID l)) (image_mset abs_srefill R)"
    "pl_sem s < sg_sem (onDemandSpare is_print cfg reg)" and b: "b = (sp_sem p)\<lparr>bs_used := Suc (pl_sem s)\<rparr>"
    using assms(1,2) by (auto simp: sem_acquire_simps spare_fixed_def spare_implements_def)
  from refill_step.slot [OF this(1,2)] show ?thesis
    using assms(2) slot(1) b by (intro exI conjI) (assumption, simp add: spare_implements_def)
next
  case (no_slot l R b)
  then have "pl_refills s = add_mset (RWait (lang_ID l)) (image_mset abs_srefill R)" "pl_cancelled s"
    and b: "b = sp_sem p"
    using assms(2) by (auto simp: sem_acquire_simps spare_implements_def)
  from refill_step.no_slot [OF this(1,2)] show ?thesis
    using assms(2) no_slot(1) b by (intro exI conjI) (assumption, simp add: spare_implements_def)
next
  case (booted l R now vm n' st' b)
  have r: "pl_refills s = add_mset (RBooting (lang_ID l)) (image_mset abs_srefill R)"
    using booted(2) assms(2) by (simp add: spare_implements_def)
  have "\<not> pl_cancelled s" "vm_pid vm \<notin> pl_alive s" and procs: "procs st' = insert (vm_pid vm) (pl_alive s)"
    using spare_boot_outcome [OF booted(3) [unfolded sp_boot_def]] assms(2)
    by (auto simp: boots_one_def spare_implements_def)
  from refill_step.booted [OF r this(1,2)] show ?thesis
    using assms(2) booted(1,4) procs by (intro exI conjI) (assumption, simp add: spare_implements_def sem_release_Some)
next
  case (boot_failed l R now e n' st' b)
  have r: "pl_refills s = add_mset (RBooting (lang_ID l)) (image_mset abs_srefill R)"
    using boot_failed(2) assms(2) by (simp add: spare_implements_def)
  have "procs st' = pl_alive s"
    using spare_boot_outcome(1) [OF boot_failed(3) [unfolded sp_boot_def]] assms(2)
    by (simp add: boots_one_def spare_implements_def)
  then show ?thesis
    using refill_step.boot_failed [OF r] assms(2) boot_failed(1,4)
    by (intro exI conjI) (assumption, simp add: spare_implements_def sem_release_Some)
next
  case (send l vm R)
  then have "pl_refills s = add_mset (RSend (lang_ID l) (vm_pid vm)) (image_mset abs_srefill R)"
    "length (pl_chan s (lang_ID l)) < sg_cap (onDemandSpare is_print cfg reg)" "\<not> pl_chan_closed s (lang_ID l)"
    using assms(2) by (simp_all add: spare_implements_def)
  from refill_step.send [OF this] show ?thesis
    using assms(2) send(1) by (intro exI conjI) (assumption, simp add: spare_implements_def fun_eq_iff)
next
  case (unsent l vm R)
  then have "pl_refills s = add_mset (RSend (lang_ID l) (vm_pid vm)) (image_mset abs_srefill R)" "pl_cancelled s"
    using assms(2) by (simp_all add: spare_implements_def)
  from refill_step.unsent [OF this] show ?thesis
    using assms(2) unsent(1) by (intro exI conjI) (assumption, simp add: spare_implements_def kill_procs)
qed

text \<open>The steps that receive a spare are the machine's own, as are those that end such a call.\<close>

lemma sim_spare_taken:
  assumes "spare_implements procs s p" and "sp_calls p = add_mset (ATaken l vm) C"
  shows "sp_closed p \<Longrightarrow> \<exists>s'. acquire_step sg s s' \<and>
      spare_implements procs s' (p\<lparr>sp_calls := add_mset (AHold (lang_ID l) (Some vm)) C\<rparr>)"
    and "\<not> sp_closed p \<Longrightarrow> \<exists>s'. acquire_step sg s s' \<and>
      spare_implements procs s' (p\<lparr>sp_calls := add_mset (ASpawn l vm) C\<rparr>)"
proof -
  have r: "pl_callers s = add_mset (CTaken (lang_ID l) (vm_pid vm)) (image_mset abs_scall C)" and
    c: "pl_closed s = sp_closed p"
    using assms by (simp_all add: spare_implements_def)
  show "\<exists>s'. acquire_step sg s s' \<and> spare_implements procs s' (p\<lparr>sp_calls := add_mset (AHold (lang_ID l) (Some vm)) C\<rparr>)"
    if "sp_closed p"
    using acquire_step.last [OF r, of sg] that assms(1) unfolding c
    by (intro exI conjI) (simp, simp add: spare_implements_def)
  show "\<exists>s'. acquire_step sg s s' \<and> spare_implements procs s' (p\<lparr>sp_calls := add_mset (ASpawn l vm) C\<rparr>)"
    if "\<not> sp_closed p"
    using acquire_step.replace [OF r, of sg] that assms(1) unfolding c
    by (intro exI conjI) (simp, simp add: spare_implements_def)
qed

lemma sim_spare_spawn:
  assumes "spare_implements procs s p" and "sp_calls p = add_mset (ASpawn l vm) C"
  shows "\<exists>s'. acquire_step sg s s' \<and> spare_implements procs s' (p\<lparr>sp_calls := add_mset (AHold (lang_ID l) (Some vm)) C,
    sp_wg := Suc (sp_wg p), sp_refills := add_mset (SpWait l) (sp_refills p)\<rparr>)"
proof -
  have "pl_callers s = add_mset (CSpawn (lang_ID l) (vm_pid vm)) (image_mset abs_scall C)"
    using assms by (simp add: spare_implements_def)
  from acquire_step.spawn [OF this] show ?thesis
    using assms(1) by (intro exI conjI) (assumption, simp add: spare_implements_def)
qed

lemma sim_spare_acquire:
  assumes "registry_ok reg" and "spare_fixed cfg reg p" and "spare_implements procs s p"
    and "spare_acquire h mktemp p p'"
  shows "\<exists>s'. (acquire_step (onDemandSpare is_print cfg reg) s s' \<or> spare_step (onDemandSpare is_print cfg reg) s s') \<and>
    spare_implements procs s' p'"
  using assms(4)
proof cases
  case (enter langID l)
  then have l: "Get reg langID = Some l" "lang_ID l = langID"
    using assms(1,2) Get_registry_ok by (auto simp: spare_fixed_def)
  then have "\<not> pl_closed s" "sg_start (onDemandSpare is_print cfg reg) langID = TrySpare (lang_ID l)"
    using assms(3) enter(2) by (simp_all add: spare_implements_def onDemandSpare_def)
  from spare_step.enter [OF this] show ?thesis
    using assms(3) enter(1) by (intro exI conjI disjI2) (assumption, simp add: spare_implements_def)
next
  case (spare l C vm vms)
  then have "pl_callers s = add_mset (CTry (lang_ID l)) (image_mset abs_scall C)"
    "pl_chan s (lang_ID l) = vm_pid vm # map vm_pid vms"
    using assms(3) by (simp_all add: spare_implements_def)
  from spare_step.spare [OF this] show ?thesis
    using assms(3) spare(1) by (intro exI conjI disjI2) (assumption, simp add: spare_implements_def fun_eq_iff)
next
  case (spare_nil l C)
  then have "pl_callers s = add_mset (CTry (lang_ID l)) (image_mset abs_scall C)"
    "pl_chan s (lang_ID l) = []" "pl_chan_closed s (lang_ID l)"
    using assms(3) by (simp_all add: spare_implements_def)
  from spare_step.spare_nil [OF this] show ?thesis
    using assms(3) spare_nil(1) by (intro exI conjI disjI2) (assumption, simp add: spare_implements_def)
next
  case (no_spare l C)
  then have "pl_callers s = add_mset (CTry (lang_ID l)) (image_mset abs_scall C)"
    "pl_chan s (lang_ID l) = []" "\<not> pl_chan_closed s (lang_ID l)"
    using assms(3) by (simp_all add: spare_implements_def)
  from spare_step.no_spare [OF this] show ?thesis
    using assms(3) no_spare(1) by (intro exI conjI disjI2) (assumption, simp add: spare_implements_def)
next
  case (last l vm C)
  then show ?thesis using sim_spare_taken(1) [OF assms(3) last(2)] by blast
next
  case (replace l vm C)
  then show ?thesis using sim_spare_taken(2) [OF assms(3) replace(2)] by blast
next
  case (spawn l vm C)
  then show ?thesis using sim_spare_spawn [OF assms(3) spawn(2)] by blast
next
  case (slot l C ctx_done b)
  then have "pl_callers s = add_mset (CWait (lang_ID l)) (image_mset abs_scall C)"
    "pl_sem s < sg_sem (onDemandSpare is_print cfg reg)" and b: "b = (sp_sem p)\<lparr>bs_used := Suc (pl_sem s)\<rparr>"
    using assms(2,3) by (auto simp: sem_acquire_simps spare_fixed_def spare_implements_def)
  from spare_step.slot [OF this(1,2)] show ?thesis
    using assms(3) slot(1) b by (intro exI conjI disjI2) (assumption, simp add: spare_implements_def)
next
  case (no_slot l C ctx_done b)
  then have "pl_callers s = add_mset (CWait (lang_ID l)) (image_mset abs_scall C)" and b: "b = sp_sem p"
    using assms(3) by (auto simp: sem_acquire_simps spare_implements_def)
  from spare_step.no_slot [OF this(1)] show ?thesis
    using assms(3) no_slot(1) b by (intro exI conjI disjI2) (assumption, simp add: spare_implements_def)
next
  case (booted l C ctx_done now vm n' st' b)
  have r: "pl_callers s = add_mset (CBoot (lang_ID l)) (image_mset abs_scall C)"
    using booted(2) assms(3) by (simp add: spare_implements_def)
  have "vm_pid vm \<notin> pl_alive s" and procs: "procs st' = insert (vm_pid vm) (pl_alive s)"
    using spare_boot_outcome(1) [OF booted(3) [unfolded sp_boot_def]] assms(3)
    by (auto simp: boots_one_def spare_implements_def)
  from spare_step.booted [OF r this(1)] show ?thesis
    using assms(3) booted(1,4) procs
    by (intro exI conjI disjI2) (assumption, simp add: spare_implements_def sem_release_Some)
next
  case (boot_failed l C ctx_done now e n' st' b)
  have r: "pl_callers s = add_mset (CBoot (lang_ID l)) (image_mset abs_scall C)"
    using boot_failed(2) assms(3) by (simp add: spare_implements_def)
  have "procs st' = pl_alive s"
    using spare_boot_outcome(1) [OF boot_failed(3) [unfolded sp_boot_def]] assms(3)
    by (simp add: boots_one_def spare_implements_def)
  then show ?thesis
    using spare_step.boot_failed [OF r] assms(3) boot_failed(1,4)
    by (intro exI conjI disjI2) (assumption, simp add: spare_implements_def sem_release_Some)
qed

lemma sim_spare_release:
  assumes "spare_implements procs s p" and "spare_release h p p'"
  shows "\<exists>s'. release_step s s' \<and> spare_implements procs s' p'"
  using assms(2)
proof cases
  case (release langID vm C)
  then have "pl_callers s = add_mset (CHold (Some (vm_pid vm))) (image_mset abs_scall C)"
    using assms(1) by (simp add: spare_implements_def)
  from release_step.release [OF this] show ?thesis
    using assms(1) release(1) by (intro exI conjI) (assumption, simp add: spare_implements_def kill_procs)
qed

lemma sim_spare_close:
  assumes "spare_fixed cfg reg p" and "spare_implements procs s p" and "spare_close h p p'"
  shows "\<exists>s'. close_step (onDemandSpare is_print cfg reg) s s' \<and> spare_implements procs s' p'"
  using assms(3)
proof cases
  case flag
  then have "pl_phase s = Opened" using assms(2) by (simp add: spare_implements_def)
  from close_step.flag [OF this] show ?thesis
    using assms(2) flag(1) by (intro exI conjI) (assumption, simp add: spare_implements_def)
next
  case cancel
  then have "pl_phase s = ClosedSet" using assms(2) by (simp add: spare_implements_def)
  from close_step.cancel [OF this] show ?thesis
    using assms(2) cancel(1) by (intro exI conjI) (assumption, simp add: spare_implements_def)
next
  case waited
  then have "pl_phase s = CtxCancelled" "pl_wg s = 0" using assms(2) by (simp_all add: spare_implements_def)
  from close_step.waited [OF this] show ?thesis
    using assms(1,2) waited(1)
    by (intro exI conjI) (assumption, simp add: spare_implements_def spare_fixed_def)
next
  case (close_chan K k)
  then have "pl_phase s = Draining K" using assms(2) by (simp add: spare_implements_def)
  from close_step.close_chan [OF this close_chan(3)] show ?thesis
    using assms(2) close_chan(1) by (intro exI conjI) (assumption, simp add: spare_implements_def)
next
  case (drain k K vm vms)
  then have "pl_phase s = DrainKey k K" "pl_chan s k = vm_pid vm # map vm_pid vms"
    using assms(2) by (simp_all add: spare_implements_def)
  from close_step.drain [OF this] show ?thesis
    using assms(2) drain(1)
    by (intro exI conjI) (assumption, simp add: spare_implements_def kill_procs fun_eq_iff)
next
  case (drained k K)
  then have "pl_phase s = DrainKey k K" "pl_chan s k = []"
    using assms(2) by (simp_all add: spare_implements_def)
  from close_step.drained [OF this] show ?thesis
    using assms(2) drained(1) by (intro exI conjI) (assumption, simp add: spare_implements_def)
qed

lemma sim_spare_step:
  assumes "registry_ok reg" and "spare_fixed cfg reg p" and "spare_implements procs s p"
    and "spare_pool_step h mktemp p p'"
  shows "\<exists>s'. pool_step (onDemandSpare is_print cfg reg) s s' \<and> spare_implements procs s' p'"
  using assms(4) sim_spare_refill [OF assms(2,3)] sim_spare_acquire [OF assms(1,2,3)]
    sim_spare_release [OF assms(3)] sim_spare_close [OF assms(2,3)]
  unfolding spare_pool_step_def pool_step_def by meson

lemma sim_spare_new:
  assumes "procs st = {}"
  shows "spare_implements procs (new_pool (onDemandSpare is_print cfg reg)) (newOnDemandSpare cfg drv reg st)"
proof -
  have "(\<Sum>k \<in># mset (map lang_ID ls). replicate_mset 1 (RWait k)) = image_mset abs_srefill (image_mset SpWait (mset ls))"
    for ls by (induction ls) simp_all
  then show ?thesis
    using assms by (simp add: spare_implements_def new_pool_def newOnDemandSpare_def del: mset_map)
qed

lemma sim_spare_reachable:
  assumes "registry_ok reg" and "spare_reachable h mktemp (newOnDemandSpare cfg drv reg st) p" and "procs st = {}"
  shows "spare_fixed cfg reg p \<and>
    (\<exists>s. pool_reachable (onDemandSpare is_print cfg reg) s \<and> spare_implements procs s p)"
  using assms(2)
proof induction
  case new
  have "spare_fixed cfg reg (newOnDemandSpare cfg drv reg st)"
    by (simp add: spare_fixed_def newOnDemandSpare_def)
  then show ?case using sim_spare_new [OF assms(3), of is_print cfg reg drv] pool_reachable.new by blast
next
  case (step p p')
  then show ?case using sim_spare_step [OF assms(1), of cfg p] spare_fixed_step pool_reachable.step by meson
qed

end

section \<open>The VMs of the pool\<close>

fun srefill_vm :: "srefill \<Rightarrow> VM multiset" where
  "srefill_vm (SpSend _ vm) = {#vm#}" | "srefill_vm _ = {#}"

fun scall_vm :: "scall \<Rightarrow> VM multiset" where
  "scall_vm (ATaken _ vm) = {#vm#}"
| "scall_vm (ASpawn _ vm) = {#vm#}"
| "scall_vm (AHold _ (Some vm)) = {#vm#}"
| "scall_vm _ = {#}"

definition spare_calls_vms :: "'h spare_pool \<Rightarrow> VM multiset" where
  "spare_calls_vms p = (\<Sum>c \<in># sp_calls p. scall_vm c)"

definition spare_vms :: "Registry \<Rightarrow> 'h spare_pool \<Rightarrow> VM multiset" where
  "spare_vms reg p = (\<Sum>k \<in> set (map lang_ID (All reg)). mset (sp_spares p k)) +
     (\<Sum>r \<in># sp_refills p. srefill_vm r) + spare_calls_vms p"

lemma spare_implements_vms:
  assumes "spare_implements procs s p"
  shows "busy_vms s = image_mset vm_pid (spare_calls_vms p)"
    "idle_vms (onDemandSpare is_print cfg reg) s + sending_vms s + busy_vms s = image_mset vm_pid (spare_vms reg p)"
proof -
  have r: "refill_vm (abs_srefill g) = image_mset vm_pid (srefill_vm g)" for g by (cases g) simp_all
  have c: "caller_vm (abs_scall d) = image_mset vm_pid (scall_vm d)" for d
    by (cases d rule: scall_vm.cases) simp_all
  show b: "busy_vms s = image_mset vm_pid (spare_calls_vms p)"
    using assms by (simp add: busy_vms_def spare_calls_vms_def image_sum_mset spare_implements_def multiset.map_comp comp_def c)
  have "sending_vms s = image_mset vm_pid (\<Sum>r \<in># sp_refills p. srefill_vm r)"
    using assms by (simp add: sending_vms_def image_sum_mset spare_implements_def multiset.map_comp comp_def r)
  moreover have "idle_vms (onDemandSpare is_print cfg reg) s =
      image_mset vm_pid (\<Sum>k \<in> set (map lang_ID (All reg)). mset (sp_spares p k))"
    using assms by (simp add: idle_vms_def image_sum spare_implements_def)
  ultimately show "idle_vms (onDemandSpare is_print cfg reg) s + sending_vms s + busy_vms s = image_mset vm_pid (spare_vms reg p)"
    using b by (simp add: spare_vms_def)
qed

lemma spare_strategy_ok:
  assumes "registry_ok reg"
  shows "strategy_ok (onDemandSpare is_print cfg reg)"
  using All_ids [OF assms] assms unfolding strategy_ok_def registry_ok_def
  by (auto simp: onDemandSpare_def newBootSemaphore_def Get_def le_nat_iff split: option.splits)

section \<open>Properties\<close>

text \<open>
  C11. The spare pool is the common machine: on a lawful host without other VMs and for a loaded
  registry, every reachable state of the pool of \<^verbatim>\<open>ondemand_spare.go\<close>, whose refills and
  callers both boot with the driver, implements a reachable state of the machine under its
  strategy whose running VMs are the processes of the host, and every step of it a step of
  that machine.
\<close>

theorem spare_pool_refines:
  assumes "pool_host h procs dirs mktemp" and "procs st = {}" and "registry_ok reg"
    and "spare_reachable h mktemp (newOnDemandSpare cfg drv reg st) p"
  shows "\<exists>s. pool_reachable (onDemandSpare is_print cfg reg) s \<and> spare_implements procs s p \<and>
    pl_alive s = procs (sp_host p) \<and>
    (\<forall>p'. spare_pool_step h mktemp p p' \<longrightarrow>
      (\<exists>s'. pool_step (onDemandSpare is_print cfg reg) s s' \<and> spare_implements procs s' p'))"
proof -
  obtain s where s: "spare_fixed cfg reg p" "pool_reachable (onDemandSpare is_print cfg reg) s" "spare_implements procs s p"
    using pool_host.sim_spare_reachable [OF assms(1,3,4,2)] by blast
  then show ?thesis
    using pool_host.sim_spare_step [OF assms(1,3) s(1,3)] by (auto simp: spare_implements_def)
qed

text \<open>
  C15. No process of the spare pool is lost: on such a host, in every reachable state the running
  processes are those of the VMs that wait as spares, with the refills and with the callers,
  each once; no language has more than one spare, the boots in progress take at most
  \<^verbatim>\<open>BootConcurrency\<close> slots, and at most one process runs for each language and each call; and
  once \<^verbatim>\<open>Close\<close> has returned, only the processes of the VMs callers still hold.
\<close>

theorem spare_processes:
  assumes "pool_host h procs dirs mktemp" and "procs st = {}" and "registry_ok reg" and "config_ok cfg"
    and "spare_reachable h mktemp (newOnDemandSpare cfg drv reg st) p"
  shows "image_mset vm_pid (spare_vms reg p) = mset_set (procs (sp_host p)) \<and>
    length (sp_spares p k) \<le> 1 \<and> int (bs_used (sp_sem p)) \<le> sint (cfg_BootConcurrency cfg) \<and>
    card (procs (sp_host p)) \<le> length (All reg) + size (sp_calls p) \<and>
    (sp_closing p = Draining {} \<longrightarrow> image_mset vm_pid (spare_calls_vms p) = mset_set (procs (sp_host p)))"
proof -
  let ?sg = "onDemandSpare (\<lambda>_. True) cfg reg"
  obtain s where s: "spare_fixed cfg reg p" "pool_reachable ?sg s" "spare_implements procs s p"
    using pool_host.sim_spare_reachable [OF assms(1,3,5,2)] by blast
  note sg = spare_strategy_ok [OF assms(3), of "\<lambda>_. True" cfg]
  have alive: "pl_alive s = procs (sp_host p)" using s(3) by (simp add: spare_implements_def)
  have 1: "image_mset vm_pid (spare_vms reg p) = mset_set (procs (sp_host p))"
    using vms_reachable [OF sg s(2)] spare_implements_vms(2) [OF s(3), of "\<lambda>_. True" cfg reg] alive
    by (simp add: vms_ok_def)
  have "length (pl_chan s k) \<le> 1" "pl_sem s \<le> newBootSemaphore (cfg_BootConcurrency cfg)"
    using counters_reachable [OF s(2)] by (simp_all add: counters_ok_def)
  moreover have "1 \<le> sint (cfg_BootConcurrency cfg)" using assms(4) by (simp add: config_ok_def)
  ultimately have 2: "length (sp_spares p k) \<le> 1" "int (bs_used (sp_sem p)) \<le> sint (cfg_BootConcurrency cfg)"
    using s(3) by (simp_all add: spare_implements_def newBootSemaphore_def split: if_splits)
  have 3: "card (procs (sp_host p)) \<le> length (All reg) + size (sp_calls p)"
    using alive_bound [OF sg s(2)] s(3) by (simp add: spare_implements_def)
  have "image_mset vm_pid (spare_calls_vms p) = mset_set (procs (sp_host p))" if "sp_closing p = Draining {}"
  proof -
    have "pl_phase s = Draining {}" using s(3) that by (simp add: spare_implements_def)
    from drained_vms [OF sg s(2) this] show ?thesis using spare_implements_vms(1) [OF s(3)] alive by simp
  qed
  with 1 2 3 show ?thesis by blast
qed

section \<open>Witnesses\<close>

definition demo_spare :: "sim spare_pool" where
  "demo_spare = newOnDemandSpare pool_config (NewDriver ''firecracker'') python_registry sim_start"

abbreviation demo_spare_reaches :: "sim spare_pool \<Rightarrow> bool" where
  "demo_spare_reaches \<equiv> spare_reachable (sim_host [] False) sim_mktemp demo_spare"

text \<open>A call that comes before the first spare is ready boots a VM of its own.\<close>

lemma demo_spare_simps [simp]:
  "sp_closed demo_spare = False" "sp_reg demo_spare = python_registry" "sp_spares demo_spare = (\<lambda>_. [])"
  "sp_spares_closed demo_spare = (\<lambda>_. False)" "sp_calls demo_spare = {#}" "sp_cfg demo_spare = pool_config"
  "sp_sem demo_spare = \<lparr>bs_cap = 8, bs_used = 0\<rparr>" "sp_drv demo_spare = \<lparr>drv_bin = ''firecracker'', drv_seq = 0\<rparr>"
  "sp_host demo_spare = sim_start"
  by (simp_all add: demo_spare_def newOnDemandSpare_def NewDriver_def newBootSemaphore_def)

definition calling_spare :: "scall \<Rightarrow> sim spare_pool" where
  "calling_spare c = demo_spare\<lparr>sp_calls := {#c#}\<rparr>"

definition booting_spare :: "sim spare_pool" where
  "booting_spare = demo_spare\<lparr>sp_calls := {#ABoot python_lang#}, sp_sem := \<lparr>bs_cap = 8, bs_used = 1\<rparr>\<rparr>"

lemma booting_spare_reaches: "demo_spare_reaches booting_spare"
proof -
  let ?acq = "spare_acquire (sim_host [] False) sim_mktemp"
  have "Get python_registry ''py'' = Some python_lang" by (simp add: Get_def python_registry_def)
  then have 1: "?acq demo_spare (calling_spare (ATry python_lang))"
    using spare_acquire.enter [of demo_spare "''py''" python_lang] by (simp add: calling_spare_def)
  have 2: "?acq (calling_spare (ATry python_lang)) (calling_spare (AWait python_lang))"
    using spare_acquire.no_spare [of "calling_spare (ATry python_lang)" python_lang "{#}"] by (simp add: calling_spare_def)
  have "sem_acquire \<lparr>bs_cap = 8, bs_used = 0\<rparr> False True \<lparr>bs_cap = 8, bs_used = 1\<rparr>"
    by (simp add: sem_acquire_simps)
  then have 3: "?acq (calling_spare (AWait python_lang)) booting_spare"
    using spare_acquire.slot [of "calling_spare (AWait python_lang)" python_lang "{#}" False]
    by (simp add: calling_spare_def booting_spare_def)
  from 1 2 3 show ?thesis
    unfolding spare_pool_step_def [symmetric] by (meson spare_pool_step_def spare_reachable.new spare_reachable.step)
qed

lemma warm_spare:
  "\<exists>p (vm :: VM). demo_spare_reaches p \<and> sp_calls p = {#AHold ''py'' (Some vm)#} \<and> sim_procs (sp_host p) = {vm_pid vm}"
proof -
  obtain vm s' st' where b: "Boot (sim_host [] False) ''firecracker'' (spare_boot_options pool_config python_lang (Clean ''/tmp/dredd-py-1''))
      0 0 sim_start = (Inr vm, s', st')" "sim_procs st' = {vm_pid vm}"
    using sim_boots by metis
  have "lang_ID python_lang = ''py''" by (simp add: python_lang_def)
  then have boot: "sp_boot (sim_host [] False) sim_mktemp False 0 python_lang booting_spare = (Inr vm, s', st')"
    using b(1) by (simp add: sp_boot_def booting_spare_def spare_bootFor_def vmWorkDir_def sim_mktemp_def with_ctx_def)
  let ?p = "booting_spare\<lparr>sp_calls := {#AHold (lang_ID python_lang) (Some vm)#}, sp_sem := \<lparr>bs_cap = 8, bs_used = 0\<rparr>,
    sp_drv := (sp_drv booting_spare)\<lparr>drv_seq := s'\<rparr>, sp_host := st'\<rparr>"
  have "spare_acquire (sim_host [] False) sim_mktemp booting_spare ?p"
    using boot by (intro spare_acquire.booted) (simp_all add: booting_spare_def sem_release_Some)
  then have "demo_spare_reaches ?p"
    using booting_spare_reaches spare_reachable.step unfolding spare_pool_step_def by blast
  moreover have "sp_calls ?p = {#AHold ''py'' (Some vm)#}" "sim_procs (sp_host ?p) = {vm_pid vm}"
    using b(2) \<open>lang_ID python_lang = ''py''\<close> by simp_all
  ultimately show ?thesis by blast
qed

lemma spare_pool_refines_witness:
  "\<exists>s. pool_reachable (onDemandSpare (\<lambda>_. True) pool_config python_registry) s \<and> pl_alive s \<noteq> {}"
proof -
  obtain p and vm :: VM where p: "demo_spare_reaches p" "sim_procs (sp_host p) = {vm_pid vm}" using warm_spare by blast
  have "sim_procs sim_start = {}" by (simp add: sim_start_def)
  from spare_pool_refines [OF sim_pool.pool_host_axioms this python_registry_ok p(1) [unfolded demo_spare_def], of "\<lambda>_. True"]
  obtain s where "pool_reachable (onDemandSpare (\<lambda>_. True) pool_config python_registry) s" "pl_alive s = sim_procs (sp_host p)"
    by blast
  then show ?thesis using p(2) by auto
qed

lemma spare_processes_witness:
  "\<exists>p. demo_spare_reaches p \<and> image_mset vm_pid (spare_vms python_registry p) = mset_set (sim_procs (sp_host p)) \<and>
    size (spare_vms python_registry p) = 1"
proof -
  obtain p and vm :: VM where p: "demo_spare_reaches p" "sim_procs (sp_host p) = {vm_pid vm}" using warm_spare by blast
  have "sim_procs sim_start = {}" by (simp add: sim_start_def)
  from spare_processes [OF sim_pool.pool_host_axioms this python_registry_ok pool_config_simps(4)
      p(1) [unfolded demo_spare_def], of "''py''"] p(2)
  have "image_mset vm_pid (spare_vms python_registry p) = mset_set (sim_procs (sp_host p))"
    "size (image_mset vm_pid (spare_vms python_registry p)) = 1"
    by simp_all
  with p(1) show ?thesis by (metis size_image_mset)
qed

end
