(* ===== verification/Pool_Live.thy ===== *)
theory Pool_Live
  imports Pool_Inv
begin

text \<open>
  Progress of the pools: as long as the stock of a channel is not used up, a call that waits on
  it can be served, whatever the other goroutines are at.
\<close>

section \<open>One call\<close>

definition waiting_on :: "string \<Rightarrow> pool \<Rightarrow> nat" where
  "waiting_on k s = count (pl_callers s) (CSelect k)"

text \<open>With a VM in the channel: receive it and start its replacement.\<close>

lemma serve_from_channel:
  assumes "pl_phase s = Opened" and "\<not> pl_closed s" and "pl_callers s = add_mset (CSelect k) C" and "pl_chan s k = v # vs"
  shows "\<exists>s'. (pool_step sg)\<^sup>*\<^sup>* s s' \<and> pl_callers s' = add_mset (CHold (Some v)) C"
proof -
  let ?s1 = "s\<lparr>pl_callers := add_mset (CTaken k v) C, pl_chan := (pl_chan s)(k := vs)\<rparr>"
  let ?s2 = "?s1\<lparr>pl_callers := add_mset (CSpawn k v) C\<rparr>"
  let ?s3 = "?s2\<lparr>pl_callers := add_mset (CHold (Some v)) C, pl_wg := Suc (pl_wg ?s2),
    pl_refills := add_mset (RWait k) (pl_refills ?s2)\<rparr>"
  have "pool_step sg s ?s1" using acquire_step.receive [OF assms(3,4), of sg] by (simp add: pool_step_def)
  moreover have "pool_step sg ?s1 ?s2" using acquire_step.replace [of ?s1 k v C sg] assms(2) by (simp add: pool_step_def)
  moreover have "pool_step sg ?s2 ?s3" using acquire_step.spawn [of ?s2 k v C sg] by (simp add: pool_step_def)
  moreover have "pl_callers ?s3 = add_mset (CHold (Some v)) C" by simp
  ultimately show ?thesis by (meson converse_rtranclp_into_rtranclp rtranclp.rtrancl_refl)
qed

section \<open>One refill\<close>

text \<open>What the next lemmas carry along: the pool is open and the same calls wait.\<close>

definition still_open :: "strategy \<Rightarrow> string \<Rightarrow> nat \<Rightarrow> pool \<Rightarrow> bool" where
  "still_open sg k n s \<longleftrightarrow> pool_reachable sg s \<and> pl_phase s = Opened \<and> waiting_on k s = n"

lemma still_openD:
  assumes "still_open sg k n s"
  shows "\<not> pl_closed s" "\<not> pl_cancelled s" "\<not> pl_chan_closed s k'" "counters_ok sg s" "\<exists>v. v \<notin> pl_alive s"
proof -
  have r: "pool_reachable sg s" and ph: "pl_phase s = Opened" using assms by (simp_all add: still_open_def)
  show "\<not> pl_closed s" "\<not> pl_cancelled s" "\<not> pl_chan_closed s k'"
    using phase_reachable [OF r] ph by (simp_all add: phase_ok_def)
  show "counters_ok sg s" "\<exists>v. v \<notin> pl_alive s" by (rule counters_reachable [OF r], rule fresh_vm [OF r])
qed

lemma refill_sends:
  assumes "still_open sg k n s" and "RSend k v \<in># pl_refills s" and "pl_chan s k = []" and "1 \<le> sg_cap sg"
  shows "\<exists>s'. (pool_step sg)\<^sup>*\<^sup>* s s' \<and> still_open sg k n s' \<and> pl_chan s' k = [v]"
proof -
  obtain R where R: "pl_refills s = add_mset (RSend k v) R" using assms(2) by (metis mset_add)
  let ?s = "s\<lparr>pl_refills := R, pl_chan := (pl_chan s)(k := pl_chan s k @ [v]), pl_wg := pl_wg s - 1\<rparr>"
  have "length (pl_chan s k) < sg_cap sg" "\<not> pl_chan_closed s k" using assms(3,4) still_openD(3) [OF assms(1)] by simp_all
  from refill_step.send [OF R this] have "pool_step sg s ?s" by (simp add: pool_step_def)
  then show ?thesis
    using assms(1,3) pool_reachable.step by (intro exI [of _ ?s]) (auto simp: still_open_def waiting_on_def)
qed

lemma refill_boots:
  assumes "still_open sg k n s" and "RBooting k \<in># pl_refills s" and "pl_chan s k = []" and "1 \<le> sg_cap sg"
  shows "\<exists>s' v. (pool_step sg)\<^sup>*\<^sup>* s s' \<and> still_open sg k n s' \<and> pl_chan s' k = [v]"
proof -
  obtain R where R: "pl_refills s = add_mset (RBooting k) R" using assms(2) by (metis mset_add)
  obtain v where v: "v \<notin> pl_alive s" using still_openD(5) [OF assms(1)] by blast
  let ?s = "s\<lparr>pl_refills := add_mset (RSend k v) R, pl_sem := pl_sem s - 1,
    pl_alive := insert v (pl_alive s), pl_key := (pl_key s)(v := k)\<rparr>"
  have 1: "pool_step sg s ?s"
    using refill_step.booted [OF R still_openD(2) [OF assms(1)] v, of sg] by (simp add: pool_step_def)
  then have "still_open sg k n ?s" using assms(1) pool_reachable.step by (auto simp: still_open_def waiting_on_def)
  from refill_sends [OF this _ _ assms(4), of v] assms(3) 1 show ?thesis
    by (auto intro: converse_rtranclp_into_rtranclp)
qed

lemma refill_gets_slot:
  assumes "still_open sg k n s" and "RWait k \<in># pl_refills s" and "pl_chan s k = []" and "1 \<le> sg_cap sg"
    and "pl_sem s < sg_sem sg"
  shows "\<exists>s' v. (pool_step sg)\<^sup>*\<^sup>* s s' \<and> still_open sg k n s' \<and> pl_chan s' k = [v]"
proof -
  obtain R where R: "pl_refills s = add_mset (RWait k) R" using assms(2) by (metis mset_add)
  let ?s = "s\<lparr>pl_refills := add_mset (RBooting k) R, pl_sem := Suc (pl_sem s)\<rparr>"
  have 1: "pool_step sg s ?s" using refill_step.slot [OF R assms(5)] by (simp add: pool_step_def)
  then have "still_open sg k n ?s" using assms(1) pool_reachable.step by (auto simp: still_open_def waiting_on_def)
  from refill_boots [OF this _ _ assms(4)] assms(3) 1 show ?thesis
    by (auto intro: converse_rtranclp_into_rtranclp)
qed

text \<open>When the semaphore is full, one of the boots under way ends and gives its slot back.\<close>

lemma slot_opens:
  assumes "still_open sg k n s" and "1 \<le> pl_sem s"
  shows "\<exists>s'. pool_step sg s s' \<and> still_open sg k n s' \<and> pl_sem s' < pl_sem s \<and> pl_chan s' = pl_chan s \<and>
    (RWait k \<in># pl_refills s \<longrightarrow> RWait k \<in># pl_refills s')"
proof -
  obtain v where v: "v \<notin> pl_alive s" using still_openD(5) [OF assms(1)] by blast
  have "1 \<le> boots s" using still_openD(4) [OF assms(1)] assms(2) by (simp add: counters_ok_def)
  then consider r where "r \<in># pl_refills s" "booting r" | c where "c \<in># pl_callers s" "caller_booting c"
    by (auto simp: boots_def Suc_le_eq nonempty_has_size [symmetric] multiset_nonemptyE)
  then show ?thesis
  proof cases
    case 1
    then obtain l R where R: "pl_refills s = add_mset (RBooting l) R"
      by (metis booting.elims(2) mset_add)
    let ?s = "s\<lparr>pl_refills := add_mset (RSend l v) R, pl_sem := pl_sem s - 1,
      pl_alive := insert v (pl_alive s), pl_key := (pl_key s)(v := l)\<rparr>"
    have 1: "pool_step sg s ?s"
      using refill_step.booted [OF R still_openD(2) [OF assms(1)] v, of sg] by (simp add: pool_step_def)
    then have "still_open sg k n ?s" using assms(1) pool_reachable.step by (auto simp: still_open_def waiting_on_def)
    with 1 R assms(2) show ?thesis by (intro exI [of _ ?s]) auto
  next
    case 2
    then obtain l C where C: "pl_callers s = add_mset (CBoot l) C"
      by (metis caller_booting.elims(2) mset_add)
    let ?s = "s\<lparr>pl_callers := add_mset (CHold (Some v)) C, pl_sem := pl_sem s - 1,
      pl_alive := insert v (pl_alive s), pl_key := (pl_key s)(v := l)\<rparr>"
    have 1: "pool_step sg s ?s" using spare_step.booted [OF C v, of sg] by (simp add: pool_step_def)
    then have "still_open sg k n ?s"
      using assms(1) C pool_reachable.step by (auto simp: still_open_def waiting_on_def)
    with 1 assms(2) show ?thesis by (intro exI [of _ ?s]) auto
  qed
qed

lemma refill_delivers:
  assumes "still_open sg k n s" and "r \<in># pl_refills s" and "refill_key r = k" and "pl_chan s k = []"
    and "1 \<le> sg_cap sg" and "1 \<le> sg_sem sg"
  shows "\<exists>s' v. (pool_step sg)\<^sup>*\<^sup>* s s' \<and> still_open sg k n s' \<and> pl_chan s' k = [v]"
proof (cases r)
  case (RWait l)
  show ?thesis
  proof (cases "pl_sem s < sg_sem sg")
    case True
    then show ?thesis using refill_gets_slot assms RWait by simp
  next
    case False
    then have "1 \<le> pl_sem s" using assms(6) by simp
    then obtain s1 where s1: "pool_step sg s s1" "still_open sg k n s1" "pl_sem s1 < pl_sem s" "pl_chan s1 k = []"
      "RWait k \<in># pl_refills s1"
      using slot_opens [OF assms(1)] assms(2-4) RWait by force
    have "pl_sem s \<le> sg_sem sg" using still_openD(4) [OF assms(1)] by (simp add: counters_ok_def)
    then show ?thesis
      using refill_gets_slot [OF s1(2,5,4) assms(5)] s1(1,3) by (auto intro: converse_rtranclp_into_rtranclp)
  qed
next
  case (RBooting l)
  then show ?thesis using refill_boots assms by simp
next
  case (RSend l v)
  then show ?thesis using refill_sends [OF assms(1), of v] assms(2-5) by auto
qed

section \<open>Properties\<close>

lemma replacing_spawns:
  assumes "still_open sg k n s" and "c \<in># pl_callers s" and "replacing k c"
  shows "\<exists>s'. (pool_step sg)\<^sup>*\<^sup>* s s' \<and> still_open sg k n s' \<and> pl_chan s' = pl_chan s \<and> RWait k \<in># pl_refills s'"
proof -
  have spawn: "\<exists>s'. pool_step sg s s' \<and> still_open sg k n s' \<and> pl_chan s' = pl_chan s \<and> RWait k \<in># pl_refills s'"
    if s: "still_open sg k n s" "pl_callers s = add_mset (CSpawn k v) C" for s v C
  proof -
    let ?s = "s\<lparr>pl_callers := add_mset (CHold (Some v)) C, pl_wg := Suc (pl_wg s),
      pl_refills := add_mset (RWait k) (pl_refills s)\<rparr>"
    have 1: "pool_step sg s ?s" using acquire_step.spawn [OF s(2), of sg] by (simp add: pool_step_def)
    then have "still_open sg k n ?s" using s pool_reachable.step by (auto simp: still_open_def waiting_on_def)
    with 1 show ?thesis by (intro exI [of _ ?s]) simp
  qed
  from assms(3) show ?thesis
  proof (cases c)
    case (CTaken l v)
    then obtain C where C: "pl_callers s = add_mset (CTaken k v) C" using assms(2,3) by (metis mset_add replacing.simps(1))
    let ?s = "s\<lparr>pl_callers := add_mset (CSpawn k v) C\<rparr>"
    have 1: "pool_step sg s ?s"
      using acquire_step.replace [OF C still_openD(1) [OF assms(1)], of sg] by (simp add: pool_step_def)
    then have "still_open sg k n ?s" using assms(1) C pool_reachable.step by (auto simp: still_open_def waiting_on_def)
    from spawn [OF this, of v C] obtain s' where "pool_step sg ?s s'" "still_open sg k n s'" "pl_chan s' = pl_chan s"
      "RWait k \<in># pl_refills s'" by auto
    with 1 show ?thesis by (meson converse_rtranclp_into_rtranclp rtranclp.rtrancl_refl)
  next
    case (CSpawn l v)
    then obtain C where "pl_callers s = add_mset (CSpawn k v) C" using assms(2,3) by (metis mset_add replacing.simps(2))
    from spawn [OF assms(1) this] show ?thesis by blast
  qed simp_all
qed



end
