(* ===== verification/Worker_Live.thy ===== *)
theory Worker_Live
  imports Worker_System
begin

text \<open>
  Progress of the workers: on a Redis that answers, a worker that is left to run brings the job
  it is at to a terminal status, and goes on to the next id of the work list; so from every
  reachable state every job that waits can still be answered.
\<close>

section \<open>A Redis that answers\<close>

text \<open>No command fails, and a blocking pop of a list that is not empty gives its last element.\<close>

locale answering_redis = redis_laws rc view
  for rc :: "'r redis_client" and view :: "'r \<Rightarrow> redis_view" +
  assumes reliable: "reliable rc"
    and brpop_answers: "rv_list (view r) k \<noteq> [] \<Longrightarrow> \<exists>xs r'. rc_brpop rc t k r = (BValue xs, r')"

interpretation mem_answering: answering_redis mem_redis "\<lambda>v. v"
  by unfold_locales (auto simp: mem_redis_def reliable_def)

section \<open>One worker\<close>

text \<open>The steps a worker is away from being idle again.\<close>

fun distance :: "pc \<Rightarrow> nat" where
  "distance Idle = 0"
| "distance Stopped = 0"
| "distance (Finishing _ _) = 1"
| "distance (Attempt _ _ _ n _) = Suc (Suc n)"
| "distance (Running _ _) = Suc (Suc (Suc maxAttempts))"
| "distance (Loaded _ _) = Suc (Suc (Suc (Suc maxAttempts)))"
| "distance (Got _) = Suc (Suc (Suc (Suc (Suc maxAttempts))))"

definition job_answered :: "redis_view \<Rightarrow> string \<Rightarrow> bool" where
  "job_answered v k \<longleftrightarrow> (\<exists>j. job_at v k = Some j \<and> Terminal (job_Status j))"

context answering_redis
begin

lemma Dequeue_answers:
  assumes "pending (view r) = k # ks"
  shows "\<exists>r'. Dequeue rc r = (Inr k, r') \<and> pending (view r') = ks"
proof -
  have l: "rv_list (view r) queueKey = rev ks @ [k]" using assms by (simp add: pending_def rev_eq_Cons_iff)
  then obtain xs r' where b: "rc_brpop rc popTimeout queueKey r = (BValue xs, r')"
    using brpop_answers by fastforce
  from brpop_value [OF b] have "xs = [queueKey, k]" "view r' = rpop_view queueKey (view r)"
    using l by simp_all
  with b l show ?thesis by (simp add: Dequeue_def rpop_view_def pending_def)
qed

text \<open>One step of a busy worker: nearer to its end, with the same job, or at its end.\<close>

lemma wstep_nearer:
  assumes w: "w_rdb w = rc" and ok: "pc_ok (view r) p" and k: "held p = [k]"
    and st: "wstep w False p (r, e) = (p', r', e')"
  shows "pending (view r') = pending (view r) \<and>
    (held p' = [k] \<and> distance p' < distance p \<or> p' = Idle \<and> job_answered (view r') k)"
proof (cases p)
  case (Got l)
  then obtain j where j: "job_at (view r) k = Some j" using ok k status_at_job by fastforce
  obtain r1 where L: "Load rc k r = (Inr j, r1)"
    using reliable_Load [OF redis_laws_axioms reliable j] by blast
  then show ?thesis using st Got k w Load_view(1) [OF L] by auto
next
  case (Loaded l job)
  obtain r1 where R: "SetRunning rc k r = (None, r1)"
    using reliable_ops(1) [OF reliable] by (metis prod.collapse)
  then show ?thesis using st Loaded k w waiting_kept(2) [OF R] by auto
next
  case (Running l job)
  then show ?thesis using st k by (auto split: option.splits)
next
  case (Attempt l lid req n err)
  then show ?thesis using st k by (cases n) (auto split: prod.splits sum.splits)
next
  case (Finishing l vd)
  then have l: "l = k" using k by simp
  obtain j where j: "job_at (view r) k = Some j" using ok Finishing l status_at_job by fastforce
  have F: "finish w k vd r = (None, r')"
    using st Finishing l reliable_ops(2) [OF reliable] w by (auto simp: finish_def prod_eq_iff)
  have "job_at (view r') = (job_at (view r))(k \<mapsto> verdict_job vd j)"
    using finish_verdict [OF w j F] by simp
  then have "job_answered (view r') k" using ok Finishing by (simp add: job_answered_def)
  then show ?thesis using st Finishing waiting_kept(3) w F by (fastforce simp: finish_def)
qed (use k in auto)

text \<open>A busy worker left to run ends idle, and its job answered.\<close>

lemma worker_finishes:
  assumes w: "w_rdb w = rc"
  shows "sys_inv view s \<Longrightarrow> i < length (sy_pcs s) \<Longrightarrow> held (sy_pcs s ! i) = [k] \<Longrightarrow>
    \<exists>s'. (sys_step w view)\<^sup>*\<^sup>* s s' \<and> sys_inv view s' \<and> length (sy_pcs s') = length (sy_pcs s) \<and>
      sy_pcs s' ! i = Idle \<and> job_answered (view (sy_r s')) k \<and> pending (view (sy_r s')) = pending (view (sy_r s))"
proof (induction "distance (sy_pcs s ! i)" arbitrary: s rule: less_induct)
  case less
  obtain p' r' e' where st: "wstep w False (sy_pcs s ! i) (sy_r s, sy_e s) = (p', r', e')"
    by (metis prod.collapse)
  let ?s = "s\<lparr>sy_r := r', sy_e := e', sy_pcs := (sy_pcs s)[i := p']\<rparr>"
  have 1: "sys_step w view s ?s" using sys_step.work [OF less.prems(2) st] .
  have inv: "sys_inv view ?s"
    using sys_inv_step [OF _ 1 less.prems(1)] redis_laws_axioms w by blast
  have i: "i < length (sy_pcs ?s)" "sy_pcs ?s ! i = p'" using less.prems(2) by simp_all
  have near: "pending (view r') = pending (view (sy_r s)) \<and>
      (held p' = [k] \<and> distance p' < distance (sy_pcs s ! i) \<or> p' = Idle \<and> job_answered (view r') k)"
    using wstep_nearer [OF w _ less.prems(3) st] sys_invD(3) [OF less.prems(1) nth_mem [OF less.prems(2)]] by blast
  show ?case
  proof (cases "held p' = [k] \<and> distance p' < distance (sy_pcs s ! i)")
    case True
    with less.hyps [of ?s] inv i obtain s' where "(sys_step w view)\<^sup>*\<^sup>* ?s s'" "sys_inv view s'"
      "length (sy_pcs s') = length (sy_pcs ?s)" "sy_pcs s' ! i = Idle" "job_answered (view (sy_r s')) k"
      "pending (view (sy_r s')) = pending (view (sy_r ?s))" by auto
    with 1 near show ?thesis
      by (intro exI [of _ s'] conjI) (simp_all add: converse_rtranclp_into_rtranclp)
  next
    case False
    with near 1 inv i show ?thesis by (intro exI [of _ ?s]) auto
  qed
qed

text \<open>An idle worker left to run comes to every id that waits.\<close>

lemma worker_reaches:
  assumes w: "w_rdb w = rc" and k: "k \<noteq> []"
  shows "sys_inv view s \<Longrightarrow> i < length (sy_pcs s) \<Longrightarrow> sy_pcs s ! i = Idle \<Longrightarrow> k \<in> set (pending (view (sy_r s))) \<Longrightarrow>
    \<exists>s'. (sys_step w view)\<^sup>*\<^sup>* s s' \<and> job_answered (view (sy_r s')) k"
proof (induction "pending (view (sy_r s))" arbitrary: s)
  case (Cons l ks)
  obtain r' where D: "Dequeue rc (sy_r s) = (Inr l, r')" "pending (view r') = ks"
    using Dequeue_answers [of "sy_r s" l ks] Cons.hyps(2) by auto
  let ?p = "if l = [] then Idle else Got l"
  let ?s = "s\<lparr>sy_r := r', sy_e := sy_e s, sy_pcs := (sy_pcs s)[i := ?p]\<rparr>"
  have "wstep w False (sy_pcs s ! i) (sy_r s, sy_e s) = (?p, r', sy_e s)"
    using D(1) Cons.prems(3) w by simp
  from sys_step.work [OF Cons.prems(2) this] have 1: "sys_step w view s ?s" .
  have inv: "sys_inv view ?s" using sys_inv_step [OF _ 1 Cons.prems(1)] redis_laws_axioms w by blast
  have i: "i < length (sy_pcs ?s)" "sy_pcs ?s ! i = ?p" "pending (view (sy_r ?s)) = ks"
    using Cons.prems(2) D(2) by simp_all
  have on: "\<exists>s'. (sys_step w view)\<^sup>*\<^sup>* s s' \<and> job_answered (view (sy_r s')) k"
    if "(sys_step w view)\<^sup>*\<^sup>* ?s s1" "sys_inv view s1" "i < length (sy_pcs s1)" "sy_pcs s1 ! i = Idle"
      "pending (view (sy_r s1)) = ks" "k \<in> set ks" for s1
    using Cons.hyps(1) [of s1] that 1 by (metis converse_rtranclp_into_rtranclp rtranclp_trans)
  show ?case
  proof (cases "l = []")
    case True
    then have "k \<in> set ks" using Cons.prems(4) k by (metis Cons.hyps(2) set_ConsD)
    with True show ?thesis using on [of ?s] inv i by simp
  next
    case False
    then have "held (sy_pcs ?s ! i) = [l]" using i by simp
    then obtain s1 where s1: "(sys_step w view)\<^sup>*\<^sup>* ?s s1" "sys_inv view s1" "length (sy_pcs s1) = length (sy_pcs ?s)"
      "sy_pcs s1 ! i = Idle" "job_answered (view (sy_r s1)) l" "pending (view (sy_r s1)) = ks"
      using worker_finishes [OF w inv i(1)] i(3) by auto
    show ?thesis
    proof (cases "l = k")
      case True
      then show ?thesis using 1 s1(1,5) by (meson converse_rtranclp_into_rtranclp)
    next
      case False
      then have "k \<in> set ks" using Cons.prems(4) by (metis Cons.hyps(2) set_ConsD)
      then show ?thesis using on [of s1] s1 i(1) by simp
    qed
  qed
qed simp

end

section \<open>Properties\<close>

text \<open>
  C18. A job can always be job_answered: on a Redis that answers, from every reachable state in which
  some worker has not stopped, every job that waits on the list, and the job that worker is at,
  has a continuation in which its status is terminal, whatever the executor answers.
\<close>

theorem job_can_finish:
  assumes "answering_redis (w_rdb w) view" and "sys_reachable w view s"
    and "i < length (sy_pcs s)" and "sy_pcs s ! i \<noteq> Stopped" and "k \<noteq> []"
    and "k \<in> set (pending (view (sy_r s))) \<or> held (sy_pcs s ! i) = [k]"
  shows "\<exists>s' j. (sys_step w view)\<^sup>*\<^sup>* s s' \<and> job_at (view (sy_r s')) k = Some j \<and> Terminal (job_Status j)"
proof -
  have inv: "sys_inv view s" using reachable_inv [OF answering_redis.axioms(1) [OF assms(1)] assms(2)] .
  note finishes = answering_redis.worker_finishes [OF assms(1) refl]
  note reaches = answering_redis.worker_reaches [OF assms(1) refl assms(5)]
  have "\<exists>s'. (sys_step w view)\<^sup>*\<^sup>* s s' \<and> job_answered (view (sy_r s')) k"
  proof (cases "held (sy_pcs s ! i) = [k]")
    case True
    from finishes [OF inv assms(3) this] show ?thesis by blast
  next
    case False
    then have k: "k \<in> set (pending (view (sy_r s)))" using assms(6) by blast
    show ?thesis
    proof (cases "sy_pcs s ! i = Idle")
      case True
      from reaches [OF inv assms(3) this k] show ?thesis .
    next
      case False
      then obtain l where l: "held (sy_pcs s ! i) = [l]" using assms(4) by (cases "sy_pcs s ! i") auto
      obtain s1 where s1: "(sys_step w view)\<^sup>*\<^sup>* s s1" "sys_inv view s1" "length (sy_pcs s1) = length (sy_pcs s)"
        "sy_pcs s1 ! i = Idle" "pending (view (sy_r s1)) = pending (view (sy_r s))"
        using finishes [OF inv assms(3) l] by blast
      with reaches [OF s1(2) _ s1(4)] assms(3) k show ?thesis
        by (metis rtranclp_trans)
    qed
  qed
  then show ?thesis by (auto simp: job_answered_def)
qed

lemma job_can_finish_witness:
  "\<exists>s' j. (sys_step demo_worker (\<lambda>v. v))\<^sup>*\<^sup>* demo_got s' \<and> job_at (sy_r s') ''j1'' = Some j \<and> Terminal (job_Status j)"
proof -
  have "answering_redis (w_rdb demo_worker) (\<lambda>v. v)" by (simp add: mem_answering.answering_redis_axioms)
  from job_can_finish [OF this demo_reachable(1), of 0 "''j1''"] show ?thesis by (simp add: demo_got_simps)
qed

end
