(* ===== verification/Server_System.thy ===== *)
theory Server_System
  imports Worker_System Pool_Inv
begin

text \<open>
  The workers on the pool: what \<^verbatim>\<open>Worker_System\<close> treats as one call of the executor is here the
  sequence of steps \<^verbatim>\<open>pool.Executor.Execute\<close> makes, \<^verbatim>\<open>Acquire\<close>, the exchange and
  \<^verbatim>\<open>Release\<close> or \<^verbatim>\<open>Discard\<close>, interleaved with the other workers, the refills and \<^verbatim>\<open>Close\<close>.
  Each worker is in at most one call of the pool, and only while it attempts its job; so the
  callers of the pool are at most the workers, and a VM serves the job of one worker.
\<close>

section \<open>The system\<close>

record ('r, 'e) server =
  se_sys :: "('r, 'e) system"
  se_pool :: pool
  se_calls :: "caller option list"

text \<open>The language of the executor call a worker is at.\<close>

fun calling :: "pc \<Rightarrow> string option" where
  "calling (Attempt k lid req (Suc n) err) = Some lid"
| "calling _ = None"

text \<open>The worker when its executor answers \<open>out\<close>.\<close>

definition answering :: "('r, 'e) Worker \<Rightarrow> string + ExecResponse \<Rightarrow> ('r, 'e) Worker" where
  "answering w out = w\<lparr>w_exe := (\<lambda>_ _ e. (out, e))\<rparr>"

fun as_caller :: "caller option \<Rightarrow> caller multiset" where
  "as_caller None = {#}" | "as_caller (Some c) = {#c#}"

text \<open>
  A step of one call: the step is taken by that caller alone, the others do not see it. A call
  that has not begun begins with the language of the worker's job.
\<close>

definition call_step :: "strategy \<Rightarrow> string \<Rightarrow> caller option \<Rightarrow> pool \<Rightarrow> caller option \<Rightarrow> pool \<Rightarrow> bool" where
  "call_step sg lid c p c' p' \<longleftrightarrow>
     (\<exists>C p1. pl_callers p = as_caller c + C \<and>
        (acquire_step sg (p\<lparr>pl_callers := as_caller c\<rparr>) p1 \<or> spare_step sg (p\<lparr>pl_callers := as_caller c\<rparr>) p1 \<or>
         release_step (p\<lparr>pl_callers := as_caller c\<rparr>) p1) \<and>
        pl_callers p1 = as_caller c' \<and> p' = p1\<lparr>pl_callers := as_caller c' + C\<rparr>) \<and>
     (c = None \<longrightarrow> (\<exists>k. c' = Some (CSelect k) \<and> sg_start sg lid = FromPool k \<or>
                       c' = Some (CTry k) \<and> sg_start sg lid = TrySpare k))"

text \<open>
  The steps. A call that ends without a VM is an error of \<^verbatim>\<open>Acquire\<close>; one that gives a VM back
  has the outcome of the exchange, which is any. A call on a closed pool, or for a language
  the pool does not know, is refused at once. A call that was handed a nil VM has no further
  step: \<^verbatim>\<open>Execute\<close> panics, and with it the process.
\<close>

inductive server_step ::
    "('r, 'e) Worker \<Rightarrow> ('r \<Rightarrow> redis_view) \<Rightarrow> strategy \<Rightarrow> ('r, 'e) server \<Rightarrow> ('r, 'e) server \<Rightarrow> bool"
  for w view sg where
  submit: "job_ID j \<notin> set (sy_seen (se_sys s)) \<Longrightarrow> Enqueue (w_rdb w) j (sy_r (se_sys s)) = (err, r')
    \<Longrightarrow> server_step w view sg s
          (s\<lparr>se_sys := (se_sys s)\<lparr>sy_r := r', sy_seen := job_ID j # sy_seen (se_sys s)\<rparr>\<rparr>)"
| expire: "view r' = expire_key (jobKey k) (view (sy_r (se_sys s)))
    \<Longrightarrow> server_step w view sg s (s\<lparr>se_sys := (se_sys s)\<lparr>sy_r := r'\<rparr>\<rparr>)"
| work: "i < length (sy_pcs (se_sys s)) \<Longrightarrow> calling (sy_pcs (se_sys s) ! i) = None
    \<Longrightarrow> wstep w d (sy_pcs (se_sys s) ! i) (sy_r (se_sys s), sy_e (se_sys s)) = (p', r', e')
    \<Longrightarrow> server_step w view sg s
          (s\<lparr>se_sys := (se_sys s)\<lparr>sy_r := r', sy_e := e', sy_pcs := (sy_pcs (se_sys s))[i := p']\<rparr>\<rparr>)"
| call: "i < length (sy_pcs (se_sys s)) \<Longrightarrow> calling (sy_pcs (se_sys s) ! i) = Some lid
    \<Longrightarrow> call_step sg lid (se_calls s ! i) (se_pool s) (Some c) pool'
    \<Longrightarrow> server_step w view sg s (s\<lparr>se_pool := pool', se_calls := (se_calls s)[i := Some c]\<rparr>)"
| return: "i < length (sy_pcs (se_sys s)) \<Longrightarrow> calling (sy_pcs (se_sys s) ! i) = Some lid
    \<Longrightarrow> call_step sg lid (se_calls s ! i) (se_pool s) None pool'
    \<Longrightarrow> isl out \<or> (\<exists>v. se_calls s ! i = Some (CHold (Some v)))
    \<Longrightarrow> wstep (answering w out) d (sy_pcs (se_sys s) ! i) (sy_r (se_sys s), sy_e (se_sys s)) = (p', r', e')
    \<Longrightarrow> server_step w view sg s
          (s\<lparr>se_sys := (se_sys s)\<lparr>sy_r := r', sy_e := e', sy_pcs := (sy_pcs (se_sys s))[i := p']\<rparr>,
             se_pool := pool', se_calls := (se_calls s)[i := None]\<rparr>)"
| refuse: "i < length (sy_pcs (se_sys s)) \<Longrightarrow> calling (sy_pcs (se_sys s) ! i) = Some lid
    \<Longrightarrow> se_calls s ! i = None \<Longrightarrow> pl_closed (se_pool s) \<or> (\<exists>m. sg_start sg lid = Refuse m) \<Longrightarrow> isl out
    \<Longrightarrow> wstep (answering w out) d (sy_pcs (se_sys s) ! i) (sy_r (se_sys s), sy_e (se_sys s)) = (p', r', e')
    \<Longrightarrow> server_step w view sg s
          (s\<lparr>se_sys := (se_sys s)\<lparr>sy_r := r', sy_e := e', sy_pcs := (sy_pcs (se_sys s))[i := p']\<rparr>\<rparr>)"
| background: "refill_step sg (se_pool s) pool' \<or> close_step sg (se_pool s) pool'
    \<Longrightarrow> server_step w view sg s (s\<lparr>se_pool := pool'\<rparr>)"

definition server_init :: "Config \<Rightarrow> strategy \<Rightarrow> 'r \<Rightarrow> 'e \<Rightarrow> string list \<Rightarrow> ('r, 'e) server" where
  "server_init cfg sg r e seen =
     \<lparr>se_sys = sys_init cfg r e seen, se_pool = new_pool sg,
      se_calls = replicate (nat (sint (cfg_WorkerConcurrency cfg))) None\<rparr>"

inductive server_reachable ::
    "('r, 'e) Worker \<Rightarrow> ('r \<Rightarrow> redis_view) \<Rightarrow> strategy \<Rightarrow> ('r, 'e) server \<Rightarrow> bool"
  for w view sg where
  init: "sound_store (view r) seen \<Longrightarrow> server_reachable w view sg (server_init (w_cfg w) sg r e seen)"
| step: "server_reachable w view sg s \<Longrightarrow> server_step w view sg s s' \<Longrightarrow> server_reachable w view sg s'"

section \<open>The steps of one caller\<close>

text \<open>Other callers do not disturb a step.\<close>

lemma callers_last:
  "p\<lparr>pl_callers := C, pl_chan := x\<rparr> = p\<lparr>pl_chan := x, pl_callers := C\<rparr>"
  "p\<lparr>pl_callers := C, pl_alive := y\<rparr> = p\<lparr>pl_alive := y, pl_callers := C\<rparr>"
  "p\<lparr>pl_callers := C, pl_sem := n\<rparr> = p\<lparr>pl_sem := n, pl_callers := C\<rparr>"
  "p\<lparr>pl_callers := C, pl_wg := n\<rparr> = p\<lparr>pl_wg := n, pl_callers := C\<rparr>"
  "p\<lparr>pl_callers := C, pl_refills := R\<rparr> = p\<lparr>pl_refills := R, pl_callers := C\<rparr>"
  "p\<lparr>pl_callers := C, pl_key := f\<rparr> = p\<lparr>pl_key := f, pl_callers := C\<rparr>"
  "p\<lparr>pl_callers := C, pl_lost := l\<rparr> = p\<lparr>pl_lost := l, pl_callers := C\<rparr>"
  by simp_all

lemma acquire_frame:
  assumes "acquire_step sg p p1"
  shows "acquire_step sg (p\<lparr>pl_callers := pl_callers p + C\<rparr>) (p1\<lparr>pl_callers := pl_callers p1 + C\<rparr>)"
  using assms
proof cases
  case (enter langID k)
  then show ?thesis using acquire_step.enter [of "p\<lparr>pl_callers := pl_callers p + C\<rparr>" sg langID k] by (simp add: callers_last lose_def)
next
  case (receive k D v vs)
  then show ?thesis
    using acquire_step.receive [of "p\<lparr>pl_callers := pl_callers p + C\<rparr>" k "D + C" v vs sg] by (simp add: callers_last lose_def)
next
  case (receive_nil k D)
  then show ?thesis using acquire_step.receive_nil [of "p\<lparr>pl_callers := pl_callers p + C\<rparr>" k "D + C" sg] by (simp add: callers_last lose_def)
next
  case (give_up k D)
  then show ?thesis using acquire_step.give_up [of "p\<lparr>pl_callers := pl_callers p + C\<rparr>" k "D + C" sg] by (simp add: callers_last lose_def)
next
  case (last k v D)
  then show ?thesis
    using acquire_step.last [of "p\<lparr>pl_callers := pl_callers p + C\<rparr>" k v "D + C" sg] by (simp add: callers_last lose_def)
next
  case (replace k v D)
  then show ?thesis using acquire_step.replace [of "p\<lparr>pl_callers := pl_callers p + C\<rparr>" k v "D + C" sg] by (simp add: callers_last lose_def)
next
  case (spawn k v D)
  then show ?thesis using acquire_step.spawn [of "p\<lparr>pl_callers := pl_callers p + C\<rparr>" k v "D + C" sg] by (simp add: callers_last lose_def)
qed

lemma spare_frame:
  assumes "spare_step sg p p1"
  shows "spare_step sg (p\<lparr>pl_callers := pl_callers p + C\<rparr>) (p1\<lparr>pl_callers := pl_callers p1 + C\<rparr>)"
  using assms
proof cases
  case (enter langID k)
  then show ?thesis using spare_step.enter [of "p\<lparr>pl_callers := pl_callers p + C\<rparr>" sg langID k] by (simp add: callers_last lose_def)
next
  case (spare k D v vs)
  then show ?thesis using spare_step.spare [of "p\<lparr>pl_callers := pl_callers p + C\<rparr>" k "D + C" v vs sg] by (simp add: callers_last lose_def)
next
  case (spare_nil k D)
  then show ?thesis using spare_step.spare_nil [of "p\<lparr>pl_callers := pl_callers p + C\<rparr>" k "D + C" sg] by (simp add: callers_last lose_def)
next
  case (no_spare k D)
  then show ?thesis using spare_step.no_spare [of "p\<lparr>pl_callers := pl_callers p + C\<rparr>" k "D + C" sg] by (simp add: callers_last lose_def)
next
  case (slot k D)
  then show ?thesis using spare_step.slot [of "p\<lparr>pl_callers := pl_callers p + C\<rparr>" k "D + C" sg] by (simp add: callers_last lose_def)
next
  case (no_slot k D)
  then show ?thesis using spare_step.no_slot [of "p\<lparr>pl_callers := pl_callers p + C\<rparr>" k "D + C" sg] by (simp add: callers_last lose_def)
next
  case (booted k D v)
  then show ?thesis using spare_step.booted [of "p\<lparr>pl_callers := pl_callers p + C\<rparr>" k "D + C" v sg] by (simp add: callers_last lose_def)
next
  case (boot_failed k D)
  then show ?thesis using spare_step.boot_failed [of "p\<lparr>pl_callers := pl_callers p + C\<rparr>" k "D + C" sg] by (simp add: callers_last lose_def)
qed

lemma release_frame:
  assumes "release_step p p1"
  shows "release_step (p\<lparr>pl_callers := pl_callers p + C\<rparr>) (p1\<lparr>pl_callers := pl_callers p1 + C\<rparr>)"
  using assms
proof cases
  case (release v D)
  then show ?thesis using release_step.release [of "p\<lparr>pl_callers := pl_callers p + C\<rparr>" v "D + C"] by (simp add: callers_last lose_def)
qed

lemma call_step_pool:
  assumes "call_step sg lid c p c' p'"
  shows "pool_step sg p p'" "\<exists>C. pl_callers p = as_caller c + C \<and> pl_callers p' = as_caller c' + C"
proof -
  obtain C p1 where c: "pl_callers p = as_caller c + C" "pl_callers p1 = as_caller c'"
    "p' = p1\<lparr>pl_callers := as_caller c' + C\<rparr>"
    and st: "acquire_step sg (p\<lparr>pl_callers := as_caller c\<rparr>) p1 \<or> spare_step sg (p\<lparr>pl_callers := as_caller c\<rparr>) p1 \<or>
      release_step (p\<lparr>pl_callers := as_caller c\<rparr>) p1"
    using assms by (auto simp: call_step_def)
  have "p\<lparr>pl_callers := as_caller c\<rparr>\<lparr>pl_callers := pl_callers (p\<lparr>pl_callers := as_caller c\<rparr>) + C\<rparr> = p"
    using c(1) by simp
  then show "pool_step sg p p'"
    using st acquire_frame [of sg _ p1 C] spare_frame [of sg _ p1 C] release_frame [of _ p1 C] c(2,3)
    unfolding pool_step_def by metis
  show "\<exists>C. pl_callers p = as_caller c + C \<and> pl_callers p' = as_caller c' + C"
    using c by auto
qed

section \<open>The invariant\<close>

definition callers_of :: "caller option list \<Rightarrow> caller multiset" where
  "callers_of cs = (\<Sum>c \<in># mset cs. as_caller c)"

definition serves :: "strategy \<Rightarrow> string \<Rightarrow> string \<Rightarrow> bool" where
  "serves sg lid k \<longleftrightarrow> sg_start sg lid = FromPool k \<or> sg_start sg lid = TrySpare k"

text \<open>A call is for the language of the job, and so is the VM it holds.\<close>

definition call_ok :: "strategy \<Rightarrow> pool \<Rightarrow> pc \<Rightarrow> caller option \<Rightarrow> bool" where
  "call_ok sg p pc c \<longleftrightarrow>
     (case c of
        None \<Rightarrow> True
      | Some c \<Rightarrow> (\<exists>lid. calling pc = Some lid \<and> (\<forall>k \<in> caller_keys c. serves sg lid k) \<and>
          (\<forall>v \<in># caller_vm c. serves sg lid (pl_key p v))))"

definition server_inv :: "Config \<Rightarrow> ('r \<Rightarrow> redis_view) \<Rightarrow> strategy \<Rightarrow> ('r, 'e) server \<Rightarrow> bool" where
  "server_inv cfg view sg s \<longleftrightarrow>
     sys_inv view (se_sys s) \<and> pool_reachable sg (se_pool s) \<and>
     length (sy_pcs (se_sys s)) = nat (sint (cfg_WorkerConcurrency cfg)) \<and>
     length (se_calls s) = length (sy_pcs (se_sys s)) \<and>
     pl_callers (se_pool s) = callers_of (se_calls s) \<and>
     (\<forall>i < length (se_calls s). call_ok sg (se_pool s) (sy_pcs (se_sys s) ! i) (se_calls s ! i))"

lemma callers_of_update:
  assumes "i < length cs" and "callers_of cs = as_caller (cs ! i) + C"
  shows "callers_of (cs[i := c]) = as_caller c + C"
proof -
  have "mset (cs[i := c]) = add_mset c (mset cs - {#cs ! i#})" using assms(1) by (rule mset_update)
  moreover have "mset cs = add_mset (cs ! i) (mset cs - {#cs ! i#})" using assms(1) by simp
  then have "callers_of cs = as_caller (cs ! i) + (\<Sum>c \<in># mset cs - {#cs ! i#}. as_caller c)"
    unfolding callers_of_def by (metis image_mset_add_mset sum_mset.add_mset)
  ultimately show ?thesis using assms(2) by (simp add: callers_of_def)
qed

lemma callers_of_mem:
  "i < length cs \<Longrightarrow> cs ! i = Some c \<Longrightarrow> c \<in># callers_of cs"
  by (auto simp: callers_of_def intro!: bexI [of _ "Some c"]) (metis nth_mem)

lemma callers_of_size: "size (callers_of cs) \<le> length cs"
proof (induction cs)
  case (Cons c cs)
  then show ?case by (cases c) (simp_all add: callers_of_def)
qed (simp add: callers_of_def)

text \<open>No step changes what a running VM was booted for.\<close>

lemma pool_step_key:
  assumes "pool_step sg p p'" and "v \<in> pl_alive p"
  shows "pl_key p' v = pl_key p v"
  using assms by (auto simp: pool_step_def elim!: pool_cases)

lemma call_ok_pool:
  assumes "call_ok sg p pc c" and "\<And>v d. c = Some d \<Longrightarrow> v \<in># caller_vm d \<Longrightarrow> pl_key p' v = pl_key p v"
  shows "call_ok sg p' pc c"
  using assms by (auto simp: call_ok_def split: option.splits)

text \<open>The call that moves keeps to its language.\<close>

lemma serves_key: "strategy_ok sg \<Longrightarrow> serves sg lid k \<Longrightarrow> k \<in> set (sg_keys sg)"
  by (auto simp: strategy_ok_def serves_def)

lemma one_caller_step:
  assumes "pl_callers q = {#d#}" and "acquire_step sg q p1 \<or> spare_step sg q p1 \<or> release_step q p1"
    and "pl_callers p1 = as_caller (Some c')"
    and origin: "\<forall>k \<in> set (sg_keys sg). \<forall>v \<in> set (pl_chan q k). pl_key q v = k" and "strategy_ok sg"
    and keys: "\<forall>k \<in> caller_keys d. serves sg lid k" and vm: "\<forall>v \<in># caller_vm d. serves sg lid (pl_key q v)"
  shows "(\<forall>k \<in> caller_keys c'. serves sg lid k) \<and> (\<forall>v \<in># caller_vm c'. serves sg lid (pl_key p1 v))"
proof -
  have origin': "serves sg lid (pl_key q v)" if "serves sg lid k" "pl_chan q k = v # vs" for k v vs
    using origin serves_key [OF assms(5) that(1)] that by force
  from assms(2) show ?thesis
  proof (elim disjE)
    assume "acquire_step sg q p1"
    then show ?thesis
      using assms(1,3) keys vm origin'
      by cases auto
  next
    assume "spare_step sg q p1"
    then show ?thesis
      using assms(1,3) keys vm origin'
      by cases auto
  next
    assume "release_step q p1"
    then show ?thesis using assms(1,3) by cases auto
  qed
qed

lemma call_step_ok:
  assumes "origin_ok sg p" and "call_ok sg p pc c" and "calling pc = Some lid" and "call_step sg lid c p c' p'"
    and "strategy_ok sg"
  shows "call_ok sg p' pc c'"
proof (cases c)
  case None
  then show ?thesis
    using assms(3,4) by (auto simp: call_step_def call_ok_def serves_def)
next
  case (Some d)
  let ?q = "p\<lparr>pl_callers := as_caller c\<rparr>"
  obtain C p1 where st: "acquire_step sg ?q p1 \<or> spare_step sg ?q p1 \<or> release_step ?q p1"
    "pl_callers p1 = as_caller c'" "p' = p1\<lparr>pl_callers := as_caller c' + C\<rparr>"
    using assms(4) by (auto simp: call_step_def)
  have d: "\<forall>k \<in> caller_keys d. serves sg lid k" "\<forall>v \<in># caller_vm d. serves sg lid (pl_key p v)"
    using assms(2,3) Some by (auto simp: call_ok_def)
  have o: "\<forall>k \<in> set (sg_keys sg). \<forall>v \<in> set (pl_chan ?q k). pl_key ?q v = k"
    using assms(1) by (simp add: origin_ok_def)
  show ?thesis
  proof (cases c')
    case (Some d')
    have "(\<forall>k \<in> caller_keys d'. serves sg lid k) \<and> (\<forall>v \<in># caller_vm d'. serves sg lid (pl_key p1 v))"
      using one_caller_step [of ?q d sg p1 d' lid] st(1,2) o d assms(5) \<open>c = Some d\<close> Some by simp
    then show ?thesis using assms(3) Some st(3) by (simp add: call_ok_def)
  qed (simp add: call_ok_def)
qed

lemma server_inv_pool:
  assumes "strategy_ok sg" and "server_inv cfg view sg s" and "pool_step sg (se_pool s) p'"
  shows "pool_reachable sg p'"
    and "j < length (se_calls s) \<Longrightarrow> call_ok sg p' (sy_pcs (se_sys s) ! j) (se_calls s ! j)"
proof -
  have r: "pool_reachable sg (se_pool s)" and c: "pl_callers (se_pool s) = callers_of (se_calls s)"
    using assms(2) by (simp_all add: server_inv_def)
  show "pool_reachable sg p'" using r assms(3) by (rule pool_reachable.step)
  note vms = vms_reachable [OF assms(1) r]
  assume j: "j < length (se_calls s)"
  have "pl_key p' v = pl_key (se_pool s) v" if "se_calls s ! j = Some d" "v \<in># caller_vm d" for v d
    using pool_step_key [OF assms(3)] vms_alive(2) [OF vms _ that(2)] callers_of_mem [OF j that(1)] c by simp
  then show "call_ok sg p' (sy_pcs (se_sys s) ! j) (se_calls s ! j)"
    using assms(2) j call_ok_pool by (metis server_inv_def)
qed

lemma sys_inv_answer:
  assumes "redis_laws (w_rdb w) view" and "sys_inv view s" and "i < length (sy_pcs s)"
    and "wstep (answering w out) d (sy_pcs s ! i) (sy_r s, sy_e s) = (p', r', e')"
  shows "sys_inv view (s\<lparr>sy_r := r', sy_e := e', sy_pcs := (sy_pcs s)[i := p']\<rparr>)"
proof -
  have "redis_laws (w_rdb (answering w out)) view" using assms(1) by (simp add: answering_def)
  from sys_inv_step [OF this sys_step.work [OF assms(3,4)] assms(2)] show ?thesis .
qed

lemma server_inv_call:
  assumes ok: "strategy_ok sg" and inv: "server_inv cfg view sg s" and "i < length (sy_pcs (se_sys s))"
    and lid: "calling (sy_pcs (se_sys s) ! i) = Some lid"
    and st: "call_step sg lid (se_calls s ! i) (se_pool s) (Some c) pool'"
  shows "server_inv cfg view sg (s\<lparr>se_pool := pool', se_calls := (se_calls s)[i := Some c]\<rparr>)"
proof -
  note pool = server_inv_pool [OF ok inv call_step_pool(1) [OF st]]
  have i: "i < length (se_calls s)" using assms(3) inv by (simp add: server_inv_def)
  have "call_ok sg pool' (sy_pcs (se_sys s) ! i) (Some c)"
    using call_step_ok [OF origin_reachable [OF ok] _ lid st ok] inv i by (simp add: server_inv_def)
  then have "\<forall>j < length (se_calls s). call_ok sg pool' (sy_pcs (se_sys s) ! j) ((se_calls s)[i := Some c] ! j)"
    using pool(2) i by (simp add: nth_list_update)
  moreover have "pl_callers pool' = callers_of ((se_calls s)[i := Some c])"
    using call_step_pool(2) [OF st] callers_of_update [OF i] inv by (metis server_inv_def)
  ultimately show ?thesis using inv pool(1) by (simp add: server_inv_def)
qed

lemma server_inv_return:
  assumes laws: "redis_laws (w_rdb w) view" and ok: "strategy_ok sg" and inv: "server_inv cfg view sg s"
    and "i < length (sy_pcs (se_sys s))" and lid: "calling (sy_pcs (se_sys s) ! i) = Some lid"
    and st: "call_step sg lid (se_calls s ! i) (se_pool s) None pool'"
    and w: "wstep (answering w out) d (sy_pcs (se_sys s) ! i) (sy_r (se_sys s), sy_e (se_sys s)) = (p', r', e')"
  shows "server_inv cfg view sg
    (s\<lparr>se_sys := (se_sys s)\<lparr>sy_r := r', sy_e := e', sy_pcs := (sy_pcs (se_sys s))[i := p']\<rparr>,
       se_pool := pool', se_calls := (se_calls s)[i := None]\<rparr>)"
proof -
  note pool = server_inv_pool [OF ok inv call_step_pool(1) [OF st]]
  have sys: "sys_inv view (se_sys s)" and i: "i < length (se_calls s)"
    using assms(4) inv by (simp_all add: server_inv_def)
  have "\<forall>j < length (se_calls s).
      call_ok sg pool' ((sy_pcs (se_sys s))[i := p'] ! j) ((se_calls s)[i := None] ! j)"
    using pool(2) assms(4) by (auto simp: nth_list_update call_ok_def)
  moreover have "pl_callers pool' = callers_of ((se_calls s)[i := None])"
    using call_step_pool(2) [OF st] callers_of_update [OF i] inv by (metis server_inv_def)
  ultimately show ?thesis
    using inv pool(1) sys_inv_answer [OF laws sys assms(4) w] by (simp add: server_inv_def)
qed

lemma server_inv_step:
  assumes "redis_laws (w_rdb w) view" and ok: "strategy_ok sg" and inv: "server_inv cfg view sg s"
    and "server_step w view sg s s'"
  shows "server_inv cfg view sg s'"
proof -
  let ?n = "length (se_calls s)"
  have sys: "sys_inv view (se_sys s)" and n: "?n = length (sy_pcs (se_sys s))"
    and co: "\<forall>j < ?n. call_ok sg (se_pool s) (sy_pcs (se_sys s) ! j) (se_calls s ! j)"
    using inv by (simp_all add: server_inv_def)
  have none: "call_ok sg p pc None" for p pc by (simp add: call_ok_def)
  from assms(4) show ?thesis
  proof cases
    case (submit j err r')
    have "sys_inv view ((se_sys s)\<lparr>sy_r := r', sy_seen := job_ID j # sy_seen (se_sys s)\<rparr>)"
      using sys_inv_step [OF assms(1) sys_step.submit sys] submit(2,3) by blast
    then show ?thesis using inv submit(1) by (simp add: server_inv_def)
  next
    case (expire r' k)
    have "sys_inv view ((se_sys s)\<lparr>sy_r := r'\<rparr>)"
      using sys_inv_step [OF assms(1) sys_step.expire sys] expire(2) by blast
    then show ?thesis using inv expire(1) by (simp add: server_inv_def)
  next
    case (work i d p' r' e')
    have "sys_inv view ((se_sys s)\<lparr>sy_r := r', sy_e := e', sy_pcs := (sy_pcs (se_sys s))[i := p']\<rparr>)"
      using sys_inv_step [OF assms(1) sys_step.work [OF work(2,4)] sys] .
    moreover have "se_calls s ! i = None"
      using co n work(2,3) by (auto simp: call_ok_def split: option.splits)
    then have "\<forall>j < ?n. call_ok sg (se_pool s) ((sy_pcs (se_sys s))[i := p'] ! j) (se_calls s ! j)"
      using co none work(2) n by (auto simp: nth_list_update)
    ultimately show ?thesis using inv work(1) by (simp add: server_inv_def)
  next
    case (call i lid cl pool')
    then show ?thesis
      using server_inv_call [OF ok inv call(2-4)] by simp
  next
    case (return i lid pool' out d p' r' e')
    then show ?thesis
      using server_inv_return [OF assms(1) ok inv return(2-4,6)] by simp
  next
    case (refuse i lid out d p' r' e')
    have "\<forall>j < ?n. call_ok sg (se_pool s) ((sy_pcs (se_sys s))[i := p'] ! j) (se_calls s ! j)"
      using co none refuse(2,4) n by (auto simp: nth_list_update)
    then show ?thesis
      using inv refuse(1) sys_inv_answer [OF assms(1) sys refuse(2,7)] by (simp add: server_inv_def)
  next
    case (background pool')
    then have st: "pool_step sg (se_pool s) pool'" by (auto simp: pool_step_def)
    have "pl_callers pool' = pl_callers (se_pool s)" using background(2) by (auto elim!: pool_cases)
    then show ?thesis
      using inv background(1) server_inv_pool [OF ok inv st] by (simp add: server_inv_def)
  qed
qed

lemma new_pool_callers: "pl_callers (new_pool sg) = {#}"
  by (simp add: new_pool_def)

lemma server_inv_reachable:
  assumes "redis_laws (w_rdb w) view" and "strategy_ok sg" and "server_reachable w view sg s"
  shows "server_inv (w_cfg w) view sg s"
  using assms(3)
proof induction
  case (init r seen e)
  have "callers_of (replicate n None) = {#}" for n by (induction n) (simp_all add: callers_of_def)
  then show ?case
    using sys_inv_init [of view r seen "w_cfg w" e] init
    by (simp add: server_inv_def server_init_def pool_reachable.new sys_init_def new_pool_callers call_ok_def)
next
  case (step s s')
  then show ?case using server_inv_step [OF assms(1,2)] by blast
qed

section \<open>Properties\<close>

lemma held_once:
  assumes "vms_ok sg p" and "pl_callers p = callers_of cs" and "i < length cs" and "cs ! i = Some (CHold (Some v))"
  shows "v \<in> pl_alive p" "v \<notin># idle_vms sg p" "j < length cs \<Longrightarrow> j \<noteq> i \<Longrightarrow> cs ! j \<noteq> Some (CHold (Some v))"
proof -
  let ?cs = "cs[i := None]"
  have "callers_of cs = as_caller (cs ! i) + callers_of ?cs"
    using callers_of_update [of i ?cs "callers_of ?cs" "cs ! i"] assms(3) by (simp add: list_update_id)
  then have busy: "busy_vms p = add_mset v (\<Sum>c \<in># callers_of ?cs. caller_vm c)"
    using assms(2,4) by (simp add: busy_vms_def)
  have all: "idle_vms sg p + sending_vms p + busy_vms p = mset_set (pl_alive p)" and fin: "finite (pl_alive p)"
    using assms(1) by (simp_all add: vms_ok_def)
  have "v \<in># mset_set (pl_alive p)" unfolding all [symmetric] busy by simp
  then show "v \<in> pl_alive p" using fin by simp
  have "count (mset_set (pl_alive p)) v \<le> 1" using fin by (simp add: count_mset_set')
  then have "count (idle_vms sg p) v + count (busy_vms p) v \<le> 1" unfolding all [symmetric] by simp
  then have "count (idle_vms sg p) v = 0" and rest: "count (\<Sum>c \<in># callers_of ?cs. caller_vm c) v = 0"
    unfolding busy by simp_all
  then show "v \<notin># idle_vms sg p" by (simp add: not_in_iff)
  show "cs ! j \<noteq> Some (CHold (Some v))" if j: "j < length cs" "j \<noteq> i"
  proof
    assume "cs ! j = Some (CHold (Some v))"
    then have "CHold (Some v) \<in># callers_of ?cs"
      using callers_of_mem [of j ?cs "CHold (Some v)"] j by simp
    then have "v \<in># (\<Sum>c \<in># callers_of ?cs. caller_vm c)" by force
    with rest show False unfolding count_eq_zero_iff by blast
  qed
qed

lemma serves_language:
  assumes "New is_print cfg reg = Inr sg" and "serves sg lid k" and "cfg_PoolStrategy cfg \<noteq> PoolPrewarmedGeneric"
  shows "k = lid"
  using assms
  by (auto simp: New_def prewarmedPerLang_def onDemandSpare_def serves_def split: if_splits option.splits)


text \<open>
  C20. The number of VMs is bounded: in every reachable state of the workers on the pool, at most
  the initial VMs of every channel and one for each worker run at the same time, whatever boots
  fail, and also while the pool is closed.
\<close>

theorem server_vm_bound:
  assumes "redis_laws (w_rdb w) view" and "config_ok (w_cfg w)" and "registry_ok (w_reg w)"
    and "New is_print (w_cfg w) (w_reg w) = Inr sg" and "server_reachable w view sg s"
  shows "int (card (pl_alive (se_pool s))) \<le>
    int (length (sg_keys sg) * sg_initial sg) + sint (cfg_WorkerConcurrency (w_cfg w))"
proof -
  have ok: "strategy_ok sg" by (rule New_strategy_ok [OF assms(2-4)])
  note inv = server_inv_reachable [OF assms(1) ok assms(5)]
  then have "size (pl_callers (se_pool s)) \<le> nat (sint (cfg_WorkerConcurrency (w_cfg w)))"
    using callers_of_size [of "se_calls s"] by (simp add: server_inv_def)
  moreover have "card (pl_alive (se_pool s)) \<le> length (sg_keys sg) * sg_initial sg + size (pl_callers (se_pool s))"
    using inv by (intro alive_bound [OF ok]) (simp add: server_inv_def)
  moreover have "1 \<le> sint (cfg_WorkerConcurrency (w_cfg w))" using assms(2) by (simp add: config_ok_def)
  ultimately show ?thesis by linarith
qed

section \<open>Witnesses\<close>

definition pool_worker :: "(redis_view, nat) Worker" where
  "pool_worker = \<lparr>w_cfg = pool_config, w_rdb = mem_redis, w_resultTTL = cfg_ResultTTL pool_config,
     w_reg = python_registry, w_exe = flaky, w_is_print = (\<lambda>_. True)\<rparr>"

lemma pool_worker_simps [simp]:
  "w_cfg pool_worker = pool_config" "w_rdb pool_worker = mem_redis" "w_reg pool_worker = python_registry"
  by (simp_all add: pool_worker_def)

definition demo_server :: "redis_view \<Rightarrow> pc \<Rightarrow> string list \<Rightarrow> pool \<Rightarrow> caller option \<Rightarrow> (redis_view, nat) server" where
  "demo_server r p seen pool c =
     \<lparr>se_sys = \<lparr>sy_r = r, sy_e = 0, sy_pcs = p # replicate 3 Idle, sy_seen = seen\<rparr>, se_pool = pool,
      se_calls = c # replicate 3 None\<rparr>"

abbreviation demo_serves :: "(redis_view, nat) server \<Rightarrow> bool" where
  "demo_serves \<equiv> server_reachable pool_worker (\<lambda>v. v) python_pool"

lemma demo_serves_start: "demo_serves (demo_server empty_view Idle [] (new_pool python_pool) None)"
proof -
  have "nat (sint (cfg_WorkerConcurrency pool_config)) = Suc 3"
    by (simp add: pool_config_def floor_config_def read_config_def env_def envInt_def at_least_one_def)
  then have n: "replicate (nat (sint (cfg_WorkerConcurrency pool_config))) x = x # replicate 3 x" for x :: 'x
    by (simp only: replicate_Suc)
  have "demo_serves (server_init (w_cfg pool_worker) python_pool empty_view 0 [])"
    by (rule server_reachable.init) (rule sound_store_empty)
  then show ?thesis by (simp add: server_init_def sys_init_def demo_server_def n)
qed

lemma demo_serves_work:
  assumes "demo_serves (demo_server r p seen pool c)" and "calling p = None"
    and "wstep pool_worker False p (r, 0) = (p', r', 0)"
  shows "demo_serves (demo_server r' p' seen pool c)"
proof -
  have "server_step pool_worker (\<lambda>v. v) python_pool (demo_server r p seen pool c) (demo_server r' p' seen pool c)"
    using server_step.work [of 0 "demo_server r p seen pool c" pool_worker False p' r' 0 "\<lambda>v. v" python_pool] assms(2,3)
    by (simp add: demo_server_def)
  with assms(1) show ?thesis by (rule server_reachable.step)
qed

lemma demo_serves_call:
  assumes "demo_serves (demo_server r p seen pool c)" and "calling p = Some lid"
    and "call_step python_pool lid c pool (Some c') pool'"
  shows "demo_serves (demo_server r p seen pool' (Some c'))"
proof -
  have "server_step pool_worker (\<lambda>v. v) python_pool (demo_server r p seen pool c) (demo_server r p seen pool' (Some c'))"
    using server_step.call [of 0 "demo_server r p seen pool c" lid python_pool c' pool' pool_worker "\<lambda>v. v"] assms(2,3)
    by (simp add: demo_server_def)
  with assms(1) show ?thesis by (rule server_reachable.step)
qed

lemma demo_serves_refill:
  assumes "demo_serves (demo_server r p seen pool c)" and "refill_step python_pool pool pool'"
  shows "demo_serves (demo_server r p seen pool' c)"
proof -
  have "server_step pool_worker (\<lambda>v. v) python_pool (demo_server r p seen pool c) (demo_server r p seen pool' c)"
    using server_step.background [of python_pool "demo_server r p seen pool c" pool' pool_worker "\<lambda>v. v"] assms(2)
    by (simp add: demo_server_def)
  with assms(1) show ?thesis by (rule server_reachable.step)
qed

lemma demo_serves_attempt:
  "\<exists>r. demo_serves (demo_server r (Attempt ''j1'' ''py'' (job_request pool_config python_lang (queued_job sample_job))
      (Suc 1) []) [''j1''] (new_pool python_pool) None)"
proof -
  let ?s = "\<lambda>r p. demo_server r p [''j1''] (new_pool python_pool) None"
  have "server_step pool_worker (\<lambda>v. v) python_pool (demo_server empty_view Idle [] (new_pool python_pool) None)
      (?s sample_state Idle)"
    using server_step.submit [of sample_job "demo_server empty_view Idle [] (new_pool python_pool) None" pool_worker None
        sample_state "\<lambda>v. v" python_pool] sample_steps(1)
    by (simp add: demo_server_def sample_job_def)
  with demo_serves_start have 1: "demo_serves (?s sample_state Idle)" by (rule server_reachable.step)
  have 2: "demo_serves (?s drained_state (Got ''j1''))"
    by (rule demo_serves_work [OF 1]) (simp_all add: sample_steps(2))
  have 3: "demo_serves (?s drained_state (Loaded ''j1'' (queued_job sample_job)))"
    by (rule demo_serves_work [OF 2])
      (use drained_state_job in \<open>simp_all add: Load_mem job_at_def split: sum.splits\<close>)
  obtain r where "SetRunning mem_redis ''j1'' drained_state = (None, r)"
    using reliable_ops(1) [OF reliable_mem] by (metis prod.collapse)
  then have 4: "demo_serves (?s r (Running ''j1'' (queued_job sample_job)))"
    by (intro demo_serves_work [OF 3]) simp_all
  have "Get python_registry (job_Language (queued_job sample_job)) = Some python_lang" "lang_ID python_lang = ''py''"
    by (simp_all add: python_registry_def Get_def sample_job_def queued_job_def python_lang_def)
  then have "demo_serves (?s r (Attempt ''j1'' ''py'' (job_request pool_config python_lang (queued_job sample_job)) (Suc 1) []))"
    by (intro demo_serves_work [OF 4]) (simp_all add: maxAttempts_def numeral_2_eq_2)
  then show ?thesis by blast
qed

text \<open>The states of the pool in which its first VM is booted, sent, received and replaced.\<close>

definition stocked_pool :: pool where
  "stocked_pool = warm_pool\<lparr>pl_refills := {#}, pl_chan := (pl_chan warm_pool)(''py'' := [0]), pl_wg := 0\<rparr>"

lemma stocked_steps:
  "refill_step python_pool (new_pool python_pool) (new_pool python_pool\<lparr>pl_refills := {#RBooting ''py''#}, pl_sem := 1\<rparr>)"
  "refill_step python_pool (new_pool python_pool\<lparr>pl_refills := {#RBooting ''py''#}, pl_sem := 1\<rparr>) warm_pool"
  "refill_step python_pool warm_pool stocked_pool"
proof -
  have r: "pl_refills (new_pool python_pool) = {#RWait ''py''#}" by (simp add: new_pool_def)
  show "refill_step python_pool (new_pool python_pool) (new_pool python_pool\<lparr>pl_refills := {#RBooting ''py''#}, pl_sem := 1\<rparr>)"
    using refill_step.slot [OF r, of python_pool] by (simp add: new_pool_def)
  show "refill_step python_pool (new_pool python_pool\<lparr>pl_refills := {#RBooting ''py''#}, pl_sem := 1\<rparr>) warm_pool"
    using refill_step.booted [of "new_pool python_pool\<lparr>pl_refills := {#RBooting ''py''#}, pl_sem := 1\<rparr>" "''py''" "{#}" 0 python_pool]
    by (simp add: warm_pool_def new_pool_def)
  have "sg_cap python_pool = 1" by (simp add: python_pool_def prewarmedPerLang_def)
  then show "refill_step python_pool warm_pool stocked_pool"
    using refill_step.send [of warm_pool "''py''" 0 "{#}" python_pool] by (simp add: warm_pool_def stocked_pool_def new_pool_def)
qed

definition serving_pool :: pool where
  "serving_pool = stocked_pool\<lparr>pl_callers := {#CHold (Some 0)#}, pl_chan := (pl_chan stocked_pool)(''py'' := []),
     pl_wg := 1, pl_refills := {#RWait ''py''#}\<rparr>"

lemma serving_steps:
  "\<exists>p1 p2 p3. call_step python_pool ''py'' None stocked_pool (Some (CSelect ''py'')) p1 \<and>
    call_step python_pool ''py'' (Some (CSelect ''py'')) p1 (Some (CTaken ''py'' 0)) p2 \<and>
    call_step python_pool ''py'' (Some (CTaken ''py'' 0)) p2 (Some (CSpawn ''py'' 0)) p3 \<and>
    call_step python_pool ''py'' (Some (CSpawn ''py'' 0)) p3 (Some (CHold (Some 0))) serving_pool"
proof -
  let ?p1 = "stocked_pool\<lparr>pl_callers := {#CSelect ''py''#}\<rparr>"
  let ?p2 = "stocked_pool\<lparr>pl_callers := {#CTaken ''py'' 0#}, pl_chan := (pl_chan stocked_pool)(''py'' := [])\<rparr>"
  let ?p3 = "?p2\<lparr>pl_callers := {#CSpawn ''py'' 0#}\<rparr>"
  have st: "pl_callers stocked_pool = {#}" "\<not> pl_closed stocked_pool" "pl_chan stocked_pool ''py'' = [0]" "pl_wg stocked_pool = 0"
    "pl_refills stocked_pool = {#}"
    by (simp_all add: stocked_pool_def warm_pool_def new_pool_def)
  have "acquire_step python_pool (stocked_pool\<lparr>pl_callers := {#}\<rparr>) ?p1"
    using acquire_step.enter [of "stocked_pool\<lparr>pl_callers := {#}\<rparr>" python_pool "''py''" "''py''"] st by simp
  then have "call_step python_pool ''py'' None stocked_pool (Some (CSelect ''py'')) ?p1"
    using st by (auto simp: call_step_def)
  moreover have "acquire_step python_pool ?p1 ?p2"
    using acquire_step.receive [of ?p1 "''py''" "{#}" 0 "[]" python_pool] st by simp
  then have "call_step python_pool ''py'' (Some (CSelect ''py'')) ?p1 (Some (CTaken ''py'' 0)) ?p2"
    unfolding call_step_def by (intro conjI exI [of _ "{#}"] exI [of _ ?p2]) simp_all
  moreover have "acquire_step python_pool ?p2 ?p3"
    using acquire_step.replace [of ?p2 "''py''" 0 "{#}" python_pool] st by simp
  then have "call_step python_pool ''py'' (Some (CTaken ''py'' 0)) ?p2 (Some (CSpawn ''py'' 0)) ?p3"
    unfolding call_step_def by (intro conjI exI [of _ "{#}"] exI [of _ ?p3]) (simp_all add: callers_last)
  moreover have "acquire_step python_pool ?p3 serving_pool"
    using acquire_step.spawn [of ?p3 "''py''" 0 "{#}" python_pool] st by (simp add: serving_pool_def callers_last)
  then have "call_step python_pool ''py'' (Some (CSpawn ''py'' 0)) ?p3 (Some (CHold (Some 0))) serving_pool"
    unfolding call_step_def by (intro conjI exI [of _ "{#}"] exI [of _ serving_pool]) (simp_all add: serving_pool_def)
  ultimately show ?thesis by blast
qed

lemma demo_serves_vm:
  "\<exists>r. demo_serves (demo_server r (Attempt ''j1'' ''py'' (job_request pool_config python_lang (queued_job sample_job))
      (Suc 1) []) [''j1''] serving_pool (Some (CHold (Some 0))))"
proof -
  obtain r where "demo_serves (demo_server r (Attempt ''j1'' ''py''
      (job_request pool_config python_lang (queued_job sample_job)) (Suc 1) []) [''j1''] (new_pool python_pool) None)"
    using demo_serves_attempt by blast
  note s = demo_serves_refill [OF demo_serves_refill [OF demo_serves_refill [OF this stocked_steps(1)] stocked_steps(2)]
      stocked_steps(3)]
  obtain p1 p2 p3 where "call_step python_pool ''py'' None stocked_pool (Some (CSelect ''py'')) p1"
    "call_step python_pool ''py'' (Some (CSelect ''py'')) p1 (Some (CTaken ''py'' 0)) p2"
    "call_step python_pool ''py'' (Some (CTaken ''py'' 0)) p2 (Some (CSpawn ''py'' 0)) p3"
    "call_step python_pool ''py'' (Some (CSpawn ''py'' 0)) p3 (Some (CHold (Some 0))) serving_pool"
    using serving_steps by blast
  then show ?thesis using s demo_serves_call calling.simps(1) by meson
qed


lemma server_vm_bound_witness:
  "\<exists>s. demo_serves s \<and> pl_alive (se_pool s) \<noteq> {} \<and> card (pl_alive (se_pool s)) \<le> 5"
proof -
  obtain r where s: "demo_serves (demo_server r (Attempt ''j1'' ''py'' (job_request pool_config python_lang
      (queued_job sample_job)) (Suc 1) []) [''j1''] serving_pool (Some (CHold (Some 0))))" (is "demo_serves ?s")
    using demo_serves_vm by blast
  have l: "redis_laws (w_rdb pool_worker) (\<lambda>v. v)" by (simp add: mem_laws)
  have c: "config_ok (w_cfg pool_worker)" "registry_ok (w_reg pool_worker)"
    "New (\<lambda>_. True) (w_cfg pool_worker) (w_reg pool_worker) = Inr python_pool"
    using python_pool_ok by simp_all
  have "sint (cfg_WorkerConcurrency pool_config) = 4"
    by (simp add: pool_config_def floor_config_def read_config_def env_def envInt_def at_least_one_def)
  with server_vm_bound [OF l c s] have "card (pl_alive (se_pool ?s)) \<le> 5" by simp
  moreover have "pl_alive (se_pool ?s) \<noteq> {}"
    by (simp add: demo_server_def serving_pool_def stocked_pool_def warm_pool_def)
  ultimately show ?thesis using s by blast
qed

end
