(* ===== verification/Vsock.thy ===== *)
theory Vsock
  imports Agent_Proto
begin

text \<open>
  \<^verbatim>\<open>firecracker/vsock.go\<close>: the host's side of the vsock connection. A connection is what the
  code sees of it: the outcome of each \<^verbatim>\<open>SetDeadline\<close> and \<^verbatim>\<open>Write\<close>, and, for the bytes
  written so far, the bytes that arrive before the deadline and how the stream ends. The
  dial loop runs against a clock in nanoseconds.
\<close>

section \<open>Connections\<close>

datatype read_end = REof | RFail string

record conn =
  cn_deadline_err :: "gint \<Rightarrow> string option"
  cn_write_err :: "nat \<Rightarrow> string option"
  cn_reply :: "string \<Rightarrow> string \<times> read_end"

text \<open>\<^verbatim>\<open>io.ReadFull(r, buf)\<close> for a buffer of \<open>n\<close> bytes: the buffer and the unread bytes.\<close>

definition read_full :: "nat \<Rightarrow> string \<times> read_end \<Rightarrow> string + string \<times> string" where
  "read_full n st =
     (if n \<le> length (fst st) then Inr (take n (fst st), drop n (fst st))
      else Inl (case snd st of
                  RFail e \<Rightarrow> e
                | REof \<Rightarrow> if fst st = [] then ''EOF'' else ''unexpected EOF''))"

section \<open>Frame headers\<close>

text \<open>\<^verbatim>\<open>binary.BigEndian\<close> on a 4-byte header; \<^verbatim>\<open>uint32(len(b))\<close> keeps the low 32 bits.\<close>

definition put_u32 :: "32 word \<Rightarrow> string" where
  "put_u32 w = (let n = unat w in
     map char_of [n div 16777216 mod 256, n div 65536 mod 256, n div 256 mod 256, n mod 256])"

definition get_u32 :: "string \<Rightarrow> 32 word" where
  "get_u32 s = word_of_nat (foldl (\<lambda>a c. a * 256 + byte c) 0 s)"

definition frame :: "string \<Rightarrow> string" where
  "frame b = put_u32 (word_of_nat (length b)) @ b"

lemma length_put_u32 [simp]: "length (put_u32 w) = 4"
  by (simp add: put_u32_def Let_def)

lemma bytes_of_u32:
  assumes "n < 4294967296"
  shows "((n div 16777216 mod 256 * 256 + n div 65536 mod 256) * 256 + n div 256 mod 256) * 256 + n mod 256
    = (n :: nat)"
proof -
  have "n div 65536 = n div 256 div 256" "n div 16777216 = n div 65536 div 256"
    by (simp_all add: div_mult2_eq [symmetric])
  moreover have "n div 16777216 mod 256 = n div 16777216"
    using assms by (simp add: less_mult_imp_div_less)
  ultimately show ?thesis
    using div_mult_mod_eq [of n 256] div_mult_mod_eq [of "n div 256" 256]
      div_mult_mod_eq [of "n div 65536" 256] by simp
qed

lemma get_put_u32 [simp]: "get_u32 (put_u32 w) = w"
proof -
  have "unat w < 4294967296" using unsigned_less [of w] by simp
  then show ?thesis
    using bytes_of_u32 [of "unat w"] by (simp add: get_u32_def put_u32_def Let_def mod_mod_trivial)
qed

lemma unat_length_u32: "length b < 2 ^ 32 \<Longrightarrow> unat (word_of_nat (length b) :: 32 word) = length b"
  by (simp add: unsigned_of_nat take_bit_nat_eq_self)

section \<open>Reading one frame\<close>

text \<open>
  The reading half of \<^verbatim>\<open>Exchange\<close> and the guest's \<^verbatim>\<open>readFrame\<close> are the same steps: header,
  size check, payload, \<^verbatim>\<open>json.Unmarshal\<close>.
\<close>

datatype read_error = BadHeader string | BadSize nat | BadPayload string | BadJson

definition recv_frame ::
    "(string \<Rightarrow> 'm option) \<Rightarrow> string \<times> read_end \<Rightarrow> read_error + 'm \<times> string" where
  "recv_frame unmarshal st =
     (case read_full 4 st of
        Inl e \<Rightarrow> Inl (BadHeader e)
      | Inr (hdr, rest) \<Rightarrow>
          (let n = unat (get_u32 hdr) in
           if n = 0 \<or> MaxFrameBytes < n then Inl (BadSize n)
           else (case read_full n (rest, snd st) of
                   Inl e \<Rightarrow> Inl (BadPayload e)
                 | Inr (buf, rest') \<Rightarrow>
                     (case unmarshal buf of None \<Rightarrow> Inl BadJson | Some m \<Rightarrow> Inr (m, rest')))))"

lemma recv_frame_frame:
  assumes "length b < 2 ^ 32"
  shows "recv_frame unmarshal (frame b @ rest, e) =
    (if length b = 0 \<or> MaxFrameBytes < length b then Inl (BadSize (length b))
     else case unmarshal b of None \<Rightarrow> Inl BadJson | Some m \<Rightarrow> Inr (m, rest))"
  using unat_length_u32 [OF assms]
  by (simp add: recv_frame_def frame_def read_full_def Let_def split: option.split)

context message_codec
begin

lemma recv_frame_marshal:
  "length (marshal m) \<le> MaxFrameBytes
    \<Longrightarrow> recv_frame unmarshal (frame (marshal m) @ rest, e) = Inr (wire m, rest)"
  by (subst recv_frame_frame)
    (simp_all add: MaxFrameBytes_def marshal_nonempty unmarshal_marshal)

text \<open>A frame whose length is over the limit (and below the 32-bit wrap) is refused.\<close>

lemma recv_frame_too_large:
  "MaxFrameBytes < length (marshal m) \<Longrightarrow> length (marshal m) < 2 ^ 32
    \<Longrightarrow> recv_frame unmarshal (frame (marshal m) @ rest, e) = Inl (BadSize (length (marshal m)))"
  by (subst recv_frame_frame) simp_all

end

section \<open>Exchange\<close>

datatype exchange_error =
    XDeadline string
  | XTooLarge nat
  | XWriteHeader string
  | XWritePayload string
  | XRead read_error

definition Exchange :: "conn \<Rightarrow> ExecRequest \<Rightarrow> gint \<Rightarrow> exchange_error + ExecResponse" where
  "Exchange c req timeout =
     (case cn_deadline_err c timeout of
        Some e \<Rightarrow> Inl (XDeadline e)
      | None \<Rightarrow>
          (let payload = marshal_ExecRequest req in
           if MaxFrameBytes < length payload then Inl (XTooLarge (length payload))
           else (case cn_write_err c 0 of
                   Some e \<Rightarrow> Inl (XWriteHeader e)
                 | None \<Rightarrow>
                     (case cn_write_err c 1 of
                        Some e \<Rightarrow> Inl (XWritePayload e)
                      | None \<Rightarrow>
                          (case recv_frame unmarshal_ExecResponse (cn_reply c (frame payload)) of
                             Inl e \<Rightarrow> Inl (XRead e)
                           | Inr (resp, _) \<Rightarrow> Inr resp)))))"

section \<open>The CONNECT handshake\<close>

datatype hs_error = HsRead string | HsTooLong | HsRejected string

text \<open>One byte at a time up to the newline, giving up when 65 bytes brought none.\<close>

fun hs_line :: "string \<Rightarrow> string \<Rightarrow> read_end \<Rightarrow> hs_error + string \<times> string" where
  "hs_line buf [] e = Inl (HsRead (case e of REof \<Rightarrow> ''EOF'' | RFail m \<Rightarrow> m))"
| "hs_line buf (c # s) e =
     (let buf' = buf @ [c] in
      if c = CHR 0x0A then Inr (buf', s)
      else if 64 < length buf' then Inl HsTooLong
      else hs_line buf' s e)"

definition hs_accepts :: "string \<Rightarrow> bool" where
  "hs_accepts line \<longleftrightarrow> \<not> (length line < 3 \<or> take 2 line \<noteq> ''OK'')"

text \<open>
  What arrives after the \<^verbatim>\<open>CONNECT\<close> line: the reply line, then the bytes that are already
  data. \<^verbatim>\<open>Inr\<close> holds the data.
\<close>

definition handshake :: "string \<times> read_end \<Rightarrow> hs_error + string" where
  "handshake st =
     (case hs_line [] (fst st) (snd st) of
        Inl e \<Rightarrow> Inl e
      | Inr (line, rest) \<Rightarrow> if hs_accepts line then Inr rest else Inl (HsRejected line))"

lemma hs_line_Inr:
  "hs_line buf s e = Inr (line, rest) \<longleftrightarrow>
     (\<exists>t. line = buf @ t @ [CHR 0x0A] \<and> s = t @ CHR 0x0A # rest \<and> CHR 0x0A \<notin> set t
       \<and> (t = [] \<or> length buf + length t \<le> 64))"
proof (induction s arbitrary: buf)
  case Nil
  then show ?case by simp
next
  case (Cons c s)
  show ?case
  proof (cases "c = CHR 0x0A")
    case True
    then show ?thesis by (auto simp: Let_def append_eq_Cons_conv Cons_eq_append_conv)
  next
    case False
    have "(\<exists>t. line = buf @ t @ [CHR 0x0A] \<and> c # s = t @ CHR 0x0A # rest \<and> CHR 0x0A \<notin> set t
       \<and> (t = [] \<or> length buf + length t \<le> 64)) \<longleftrightarrow>
      length buf < 64 \<and> (\<exists>t. line = (buf @ [c]) @ t @ [CHR 0x0A] \<and> s = t @ CHR 0x0A # rest
       \<and> CHR 0x0A \<notin> set t \<and> (t = [] \<or> length (buf @ [c]) + length t \<le> 64))" (is "?L \<longleftrightarrow> ?R")
    proof
      assume ?L
      then obtain t where t: "line = buf @ t @ [CHR 0x0A]" "c # s = t @ CHR 0x0A # rest"
        "CHR 0x0A \<notin> set t" "t = [] \<or> length buf + length t \<le> 64" by blast
      with False obtain u where "t = c # u" by (cases t) auto
      with t show ?R by auto
    next
      assume ?R
      then obtain t where "line = (buf @ [c]) @ t @ [CHR 0x0A]" "s = t @ CHR 0x0A # rest"
        "CHR 0x0A \<notin> set t" "length buf < 64" "t = [] \<or> length (buf @ [c]) + length t \<le> 64" by blast
      with False show ?L by (intro exI [of _ "c # t"]) auto
    qed
    with Cons.IH [of "buf @ [c]"] False show ?thesis by (auto simp: Let_def)
  qed
qed

section \<open>Dialling\<close>

text \<open>
  \<open>dial path i\<close> is the \<open>i\<close>-th \<^verbatim>\<open>net.DialTimeout\<close> on the socket: how long it took and what
  came of it. A failed attempt past the deadline ends the loop, any other is followed by a
  sleep of 50 ms. The result carries the number of attempts made.
\<close>

type_synonym dialer = "string \<Rightarrow> nat \<Rightarrow> nat \<times> (string + conn)"

abbreviation dial_pause :: int where
  "dial_pause \<equiv> 50000000"

function dial_loop ::
    "(nat \<Rightarrow> nat \<times> (string + conn)) \<Rightarrow> int \<Rightarrow> nat \<Rightarrow> int \<Rightarrow> nat \<times> (string + conn)" where
  "dial_loop att deadline i now =
     (case att i of
        (dt, Inr c) \<Rightarrow> (Suc i, Inr c)
      | (dt, Inl e) \<Rightarrow>
          if deadline < now + int dt then (Suc i, Inl e)
          else dial_loop att deadline (Suc i) (now + int dt + dial_pause))"
  by pat_completeness auto
termination
  by (relation "measure (\<lambda>(att, deadline, i, now). nat (deadline + 1 - now))") auto

declare dial_loop.simps [simp del]

definition connect_line :: "32 word \<Rightarrow> string" where
  "connect_line port = ''CONNECT '' @ nat_dec (unat port) @ [CHR 0x0A]"

datatype dial_error =
    DialFailed string
  | DialDeadline string
  | DialWrite string
  | DialHandshake hs_error

text \<open>
  The connection in data mode: the reply line is consumed, one write is spent, and what
  arrives answers everything written since.
\<close>

definition data_stream :: "string \<times> read_end \<Rightarrow> string \<times> read_end" where
  "data_stream st =
     (case hs_line [] (fst st) (snd st) of Inr (_, rest) \<Rightarrow> (rest, snd st) | Inl _ \<Rightarrow> ([], snd st))"

definition data_conn :: "32 word \<Rightarrow> conn \<Rightarrow> conn" where
  "data_conn port c =
     \<lparr>cn_deadline_err = cn_deadline_err c,
      cn_write_err = (\<lambda>i. cn_write_err c (Suc i)),
      cn_reply = (\<lambda>out. data_stream (cn_reply c (connect_line port @ out)))\<rparr>"

definition VsockHostDial :: "dialer \<Rightarrow> string \<Rightarrow> 32 word \<Rightarrow> gint \<Rightarrow> int \<Rightarrow> dial_error + conn" where
  "VsockHostDial dial path port timeout now =
     (case snd (dial_loop (dial path) (now + sint timeout) 0 now) of
        Inl e \<Rightarrow> Inl (DialFailed e)
      | Inr c \<Rightarrow>
          (case cn_deadline_err c timeout of
             Some e \<Rightarrow> Inl (DialDeadline e)
           | None \<Rightarrow>
               (case cn_write_err c 0 of
                  Some e \<Rightarrow> Inl (DialWrite e)
                | None \<Rightarrow>
                    (case handshake (cn_reply c (connect_line port)) of
                       Inl e \<Rightarrow> Inl (DialHandshake e)
                     | Inr _ \<Rightarrow> Inr (data_conn port c)))))"

lemma dial_loop_attempts:
  "int (fst (dial_loop att deadline i now)) \<le> int i + 1 + max 0 ((deadline - now) div dial_pause + 1)"
proof (induction att deadline i now rule: dial_loop.induct)
  case (1 att deadline i now)
  obtain dt r where a: "att i = (dt, r)" by fastforce
  show ?case
  proof (cases r)
    case (Inr c)
    then show ?thesis by (simp add: dial_loop.simps [of att deadline i now] a)
  next
    case (Inl e)
    show ?thesis
    proof (cases "deadline < now + int dt")
      case True
      then show ?thesis using Inl by (simp add: dial_loop.simps [of att deadline i now] a)
    next
      case False
      let ?now = "now + int dt + dial_pause"
      have "max 0 ((deadline - ?now) div dial_pause + 1) \<le> max 0 ((deadline - now) div dial_pause + 1) - 1"
        by (rule pauses_left) (use False in simp_all)
      moreover have "int (fst (dial_loop att deadline (Suc i) ?now))
          \<le> int (Suc i) + 1 + max 0 ((deadline - ?now) div dial_pause + 1)"
        using "1" [OF a [symmetric] Inl False] by simp
      ultimately show ?thesis
        using False Inl by (subst dial_loop.simps) (simp add: a)
    qed
  qed
qed

text \<open>The loop only gives up after its deadline; a connection it returns is one it dialled.\<close>

lemma dial_loop_Inr: "snd (dial_loop att deadline i now) = Inr c \<Longrightarrow> \<exists>j dt. att j = (dt, Inr c)"
proof (induction att deadline i now rule: dial_loop.induct)
  case (1 att deadline i now)
  then show ?case
    by (subst (asm) (2) dial_loop.simps) (auto split: prod.splits sum.splits if_splits)
qed

lemma dial_loop_first: "att i = (dt, Inr c) \<Longrightarrow> dial_loop att deadline i now = (Suc i, Inr c)"
  by (subst dial_loop.simps) simp

section \<open>Properties\<close>

text \<open>
  C32. Dialling ends: whatever the attempts return and however long they take, \<^verbatim>\<open>VsockHostDial\<close>
  makes at most two attempts more than the timeout holds pauses of 50 ms.
\<close>

theorem dial_attempts_bounded:
  "int (fst (dial_loop (dial path) (now + sint timeout) 0 now)) \<le> 2 + max 0 (sint timeout div dial_pause)"
  using dial_loop_attempts [of "dial path" "now + sint timeout" 0 now] by simp

lemma hs_accepts_iff:
  "hs_accepts (t @ [CHR 0x0A]) \<longleftrightarrow> (\<exists>u. t = ''OK'' @ u)"
  by (cases t; cases "tl t") (auto simp: hs_accepts_def)

lemma handshake_iff:
  "(\<exists>rest. handshake (reply, e) = Inr rest) \<longleftrightarrow>
    (\<exists>u rest. reply = ''OK'' @ u @ CHR 0x0A # rest \<and> CHR 0x0A \<notin> set u \<and> length u \<le> 62)"
proof
  assume "\<exists>rest. handshake (reply, e) = Inr rest"
  then obtain line rest where h: "hs_line [] reply e = Inr (line, rest)" "hs_accepts line"
    by (auto simp: handshake_def split: sum.splits if_splits)
  from h(1) obtain t where t: "line = t @ [CHR 0x0A]" "reply = t @ CHR 0x0A # rest" "CHR 0x0A \<notin> set t"
    "t = [] \<or> length t \<le> 64" unfolding hs_line_Inr by auto
  with h(2) hs_accepts_iff obtain u where "t = ''OK'' @ u" by blast
  with t show "\<exists>u rest. reply = ''OK'' @ u @ CHR 0x0A # rest \<and> CHR 0x0A \<notin> set u \<and> length u \<le> 62"
    by (intro exI [of _ u] exI [of _ rest]) simp
next
  assume "\<exists>u rest. reply = ''OK'' @ u @ CHR 0x0A # rest \<and> CHR 0x0A \<notin> set u \<and> length u \<le> 62"
  then obtain u rest where u: "reply = (''OK'' @ u) @ CHR 0x0A # rest" "CHR 0x0A \<notin> set (''OK'' @ u)"
    "length (''OK'' @ u) \<le> 64" by auto
  then have "hs_line [] reply e = Inr ((''OK'' @ u) @ [CHR 0x0A], rest)"
    unfolding hs_line_Inr by (intro exI [of _ "''OK'' @ u"]) simp
  moreover have "hs_accepts ((''OK'' @ u) @ [CHR 0x0A])" unfolding hs_accepts_iff by blast
  ultimately show "\<exists>rest. handshake (reply, e) = Inr rest" by (simp add: handshake_def)
qed


definition deaf_conn :: conn where
  "deaf_conn = \<lparr>cn_deadline_err = (\<lambda>_. None), cn_write_err = (\<lambda>_. None), cn_reply = (\<lambda>_. ([], REof))\<rparr>"


end
