(* ===== verification/Capped_Buffer.thy ===== *)
theory Capped_Buffer
  imports Prelude
begin

text \<open>
  The output buffer of a test case: \<^verbatim>\<open>cappedBuffer\<close> of \<^verbatim>\<open>guest/dreddagent/main.go\<close> and its
  copy in \<^verbatim>\<open>dreddtest/executor.go\<close>. Each \<^verbatim>\<open>Write\<close> keeps what still fits and reports the whole
  chunk as written, so the process under test never sees a short write. The contract is a
  locale over \<^verbatim>\<open>Write\<close>; its consequence is that the buffer holds the capped prefix of
  everything written, however the output was cut into chunks.
\<close>

record cappedBuffer =
  cb_cap :: gint
  cb_buf :: string

definition Write :: "cappedBuffer \<Rightarrow> string \<Rightarrow> nat \<times> cappedBuffer" where
  "Write c p =
     (if sint (cb_cap c) \<le> 0 \<or> sint (cb_cap c) \<le> int (length (cb_buf c)) then (length p, c)
      else
        (let room = sint (cb_cap c) - int (length (cb_buf c)) in
         if int (length p) \<le> room then (length p, c\<lparr>cb_buf := cb_buf c @ p\<rparr>)
         else (length p, c\<lparr>cb_buf := cb_buf c @ take (nat room) p\<rparr>)))"

definition new_buffer :: "gint \<Rightarrow> cappedBuffer" where
  "new_buffer n = \<lparr>cb_cap = n, cb_buf = []\<rparr>"

text \<open>The chunks of one stream, written in order (\<^verbatim>\<open>os/exec\<close> copies the pipe this way).\<close>

fun write_all :: "cappedBuffer \<Rightarrow> string list \<Rightarrow> cappedBuffer" where
  "write_all c [] = c"
| "write_all c (p # ps) = write_all (snd (Write c p)) ps"

definition Bytes :: "cappedBuffer \<Rightarrow> string" where
  "Bytes c = cb_buf c"

text \<open>What a stream leaves in a buffer of a given cap.\<close>

definition capped :: "gint \<Rightarrow> string list \<Rightarrow> string" where
  "capped n ps = Bytes (write_all (new_buffer n) ps)"

section \<open>The contract\<close>

locale capped_sink =
  fixes put :: "'b \<Rightarrow> string \<Rightarrow> nat \<times> 'b"
    and content :: "'b \<Rightarrow> string"
    and limit :: "'b \<Rightarrow> nat"
    and good :: "'b \<Rightarrow> bool"
  assumes put_count: "fst (put b p) = length p"
    and put_content: "good b \<Longrightarrow> content (snd (put b p)) = take (limit b) (content b @ p)"
    and put_limit: "limit (snd (put b p)) = limit b"
    and put_good: "good b \<Longrightarrow> good (snd (put b p))"
    and good_bound: "good b \<Longrightarrow> length (content b) \<le> limit b"
begin

lemma puts_content:
  "good b \<Longrightarrow> content (foldl (\<lambda>c p. snd (put c p)) b ps) = take (limit b) (content b @ concat ps)"
proof (induction ps arbitrary: b)
  case Nil
  then show ?case using good_bound by simp
next
  case (Cons p ps)
  have "take (limit b) (take (limit b) (content b @ p) @ concat ps)
    = take (limit b) (content b @ p @ concat ps)"
    by (cases "limit b \<le> length (content b)") (simp_all add: min_def)
  with Cons show ?case by (simp add: put_content put_limit put_good)
qed

lemma puts_bound: "good b \<Longrightarrow> length (content (foldl (\<lambda>c p. snd (put c p)) b ps)) \<le> limit b"
  by (simp add: puts_content)

lemma puts_chunking:
  "good b \<Longrightarrow> concat ps = concat qs \<Longrightarrow>
    content (foldl (\<lambda>c p. snd (put c p)) b ps) = content (foldl (\<lambda>c p. snd (put c p)) b qs)"
  by (simp add: puts_content)

end

definition buffer_ok :: "cappedBuffer \<Rightarrow> bool" where
  "buffer_ok c \<longleftrightarrow> length (cb_buf c) \<le> nat (sint (cb_cap c))"

interpretation guest_buffer:
  capped_sink Write Bytes "\<lambda>c. nat (sint (cb_cap c))" buffer_ok
proof unfold_locales
  fix b p
  show "fst (Write b p) = length p" by (simp add: Write_def Let_def)
  show "nat (sint (cb_cap (snd (Write b p)))) = nat (sint (cb_cap b))"
    by (simp add: Write_def Let_def)
  show "length (Bytes b) \<le> nat (sint (cb_cap b))" if "buffer_ok b"
    using that by (simp add: buffer_ok_def Bytes_def)
  show "Bytes (snd (Write b p)) = take (nat (sint (cb_cap b))) (Bytes b @ p)" if "buffer_ok b"
    using that by (auto simp: Write_def Bytes_def buffer_ok_def Let_def nat_diff_distrib)
  show "buffer_ok (snd (Write b p))" if "buffer_ok b"
    using that by (auto simp: Write_def buffer_ok_def Let_def)
qed

lemma buffer_ok_new [simp]: "buffer_ok (new_buffer n)"
  by (simp add: buffer_ok_def new_buffer_def)

lemma write_all_foldl: "write_all c ps = foldl (\<lambda>c p. snd (Write c p)) c ps"
  by (induction ps arbitrary: c) simp_all

lemma capped_take: "capped n ps = take (nat (sint n)) (concat ps)"
  using guest_buffer.puts_content [OF buffer_ok_new, of n ps]
  by (simp add: capped_def write_all_foldl) (simp add: new_buffer_def Bytes_def)

lemma capped_length: "length (capped n ps) \<le> nat (sint n)"
  by (simp add: capped_take)

end
