(* ===== verification/Guest_Agent.thy ===== *)
theory Guest_Agent
  imports Vsock Go_Path Capped_Buffer Config
begin

text \<open>
  \<^verbatim>\<open>guest/dreddagent/main.go\<close>: the init process of a VM. It serves one request: write the
  source, compile once, run once per stdin, answer, power off. The operating system is a
  parameter: a record of the calls the agent makes, over an opaque state. What \<^verbatim>\<open>os/exec\<close>
  reports of a child is a \<open>run_outcome\<close>: the chunks it wrote, the error of \<^verbatim>\<open>cmd.Run\<close>
  and whether the context's deadline had passed.
\<close>

section \<open>The operating system\<close>

datatype run_error = ExitError gint string | OtherError string

record run_outcome =
  ro_stdout :: "string list"
  ro_stderr :: "string list"
  ro_err :: "run_error option"
  ro_deadline :: bool

record 'w guest_os =
  os_mkdir_all :: "string \<Rightarrow> 'w \<Rightarrow> string option \<times> 'w"
  os_write_file :: "string \<Rightarrow> string \<Rightarrow> 'w \<Rightarrow> string option \<times> 'w"
  os_run :: "string \<Rightarrow> string \<Rightarrow> gint \<Rightarrow> 'w \<Rightarrow> run_outcome \<times> 'w"

text \<open>
  \<^verbatim>\<open>exec.ExitError\<close> is the report of an unsuccessful exit (\<^verbatim>\<open>ProcessState.Success\<close> is false),
  so its exit code is never 0.
\<close>

definition exit_codes_ok :: "'w guest_os \<Rightarrow> bool" where
  "exit_codes_ok os \<longleftrightarrow>
     (\<forall>cmd inp t w code msg. ro_err (fst (os_run os cmd inp t w)) = Some (ExitError code msg) \<longrightarrow> code \<noteq> 0)"

definition workDir :: string where
  "workDir = ''/work''"

section \<open>One process\<close>

record run_result =
  rr_stdout :: string
  rr_code :: gint
  rr_stderr :: string
  rr_timedOut :: bool
  rr_err :: "run_error option"

definition runOnce ::
    "'w guest_os \<Rightarrow> string \<Rightarrow> string \<Rightarrow> gint \<Rightarrow> gint \<Rightarrow> gint \<Rightarrow> 'w \<Rightarrow> run_result \<times> 'w" where
  "runOnce os shellCmd inp timeoutMs memMB outCap w =
     (let (o', w') = os_run os shellCmd inp (timeoutMs * Millisecond) w;
          timedOut = ro_deadline o';
          code = (case ro_err o' of
                    None \<Rightarrow> 0
                  | Some (ExitError c _) \<Rightarrow> c
                  | Some (OtherError _) \<Rightarrow> if timedOut then - 1 else - 1)
      in (\<lparr>rr_stdout = capped outCap (ro_stdout o'), rr_code = code,
           rr_stderr = capped outCap (ro_stderr o'), rr_timedOut = timedOut,
           rr_err = ro_err o'\<rparr>, w'))"

fun err_text :: "run_error \<Rightarrow> string" where
  "err_text (ExitError _ m) = m"
| "err_text (OtherError m) = m"

section \<open>One request\<close>

definition agent_error :: "string \<Rightarrow> ExecResponse" where
  "agent_error m = zero_ExecResponse\<lparr>resp_AgentError := m\<rparr>"

definition compile_error :: "string \<Rightarrow> ExecResponse" where
  "compile_error m = zero_ExecResponse\<lparr>resp_CompileError := m\<rparr>"

definition case_result :: "run_result \<Rightarrow> CaseResult" where
  "case_result r = zero_CaseResult\<lparr>cr_Stdout := rr_stdout r, cr_Stderr := rr_stderr r,
     cr_ExitCode := rr_code r, cr_TimedOut := rr_timedOut r\<rparr>"

text \<open>The loop over the stdins, with the results gathered so far.\<close>

fun run_cases ::
    "'w guest_os \<Rightarrow> ExecRequest \<Rightarrow> string list \<Rightarrow> CaseResult list \<Rightarrow> 'w \<Rightarrow> ExecResponse \<times> 'w" where
  "run_cases os req [] results w = (zero_ExecResponse\<lparr>resp_Results := Some results\<rparr>, w)"
| "run_cases os req (inp # ins) results w =
     (let (r, w') = runOnce os (req_RunCmd req) inp (req_TimeLimitMs req) (req_MemoryLimitMb req)
                      (req_OutputLimitBytes req) w
      in case rr_err r of
           Some e \<Rightarrow>
             if rr_code r = 0 \<and> \<not> rr_timedOut r then (agent_error (''exec: '' @ err_text e), w')
             else run_cases os req ins (results @ [case_result r]) w'
         | None \<Rightarrow> run_cases os req ins (results @ [case_result r]) w')"

definition run_request :: "'w guest_os \<Rightarrow> ExecRequest \<Rightarrow> 'w \<Rightarrow> ExecResponse \<times> 'w" where
  "run_request os req w = run_cases os req (elems (req_Stdins req)) [] w"

definition handle :: "'w guest_os \<Rightarrow> ExecRequest \<Rightarrow> 'w \<Rightarrow> ExecResponse \<times> 'w" where
  "handle os req w =
     (let srcPath = Join workDir (req_SourceFile req);
          (e1, w1) = os_mkdir_all os (Dir srcPath) w
      in case e1 of
           Some m \<Rightarrow> (agent_error (''mkdir: '' @ m), w1)
         | None \<Rightarrow>
             (let (e2, w2) = os_write_file os srcPath (req_Source req) w1
              in case e2 of
                   Some m \<Rightarrow> (agent_error (''write source: '' @ m), w2)
                 | None \<Rightarrow>
                     if req_CompileCmd req \<noteq> [] then
                       (let (r, w3) = runOnce os (req_CompileCmd req) [] (req_TimeLimitMs req * 4)
                                        (req_MemoryLimitMb req) (req_OutputLimitBytes req) w2
                        in if rr_err r \<noteq> None \<and> rr_code r = 0
                           then (agent_error (''compile: '' @ err_text (the (rr_err r))), w3)
                           else if rr_code r \<noteq> 0
                           then (compile_error (if rr_stderr r = [] then rr_stdout r else rr_stderr r), w3)
                           else run_request os req w3)
                     else run_request os req w2))"

section \<open>The connection\<close>

definition readFrame :: "string \<times> read_end \<Rightarrow> read_error + ExecRequest \<times> string" where
  "readFrame st = recv_frame unmarshal_ExecRequest st"

text \<open>\<^verbatim>\<open>writeFrame\<close> has no size check; \<open>wr i\<close> is the outcome of the \<open>i\<close>-th \<^verbatim>\<open>Write\<close>.\<close>

definition writeFrame :: "(nat \<Rightarrow> string option) \<Rightarrow> ExecResponse \<Rightarrow> string option \<times> string" where
  "writeFrame wr resp =
     (let b = marshal_ExecResponse resp;
          hdr = put_u32 (word_of_nat (length b))
      in case wr 0 of
           Some e \<Rightarrow> (Some e, [])
         | None \<Rightarrow> (case wr 1 of Some e \<Rightarrow> (Some e, hdr) | None \<Rightarrow> (None, hdr @ b)))"

datatype serve_error = SListen string | SAccept string | SRead read_error | SWrite string

text \<open>
  \<^verbatim>\<open>serve\<close>: the outcome of \<^verbatim>\<open>Listen\<close> and \<^verbatim>\<open>Accept\<close>, the bytes that arrive on the connection,
  the outcome of its writes; the result is the error, the bytes sent and the state.
\<close>

definition serve ::
    "'w guest_os \<Rightarrow> string option \<Rightarrow> string option \<Rightarrow> string \<times> read_end \<Rightarrow> (nat \<Rightarrow> string option)
      \<Rightarrow> 'w \<Rightarrow> serve_error option \<times> string \<times> 'w" where
  "serve os listen accept st wr w =
     (case listen of
        Some e \<Rightarrow> (Some (SListen e), [], w)
      | None \<Rightarrow>
          (case accept of
             Some e \<Rightarrow> (Some (SAccept e), [], w)
           | None \<Rightarrow>
               (case readFrame st of
                  Inl e \<Rightarrow> (Some (SRead e), [], w)
                | Inr (req, _) \<Rightarrow>
                    (let (resp, w') = handle os req w in
                     case writeFrame wr resp of
                       (Some e, out) \<Rightarrow> (Some (SWrite e), out, w')
                     | (None, out) \<Rightarrow> (None, out, w')))))"

section \<open>Init\<close>

datatype init_action =
    Mount string string
  | MkdirAll string
  | LogServeError serve_error
  | PowerOff
  | Exit nat

text \<open>
  \<^verbatim>\<open>main\<close> as the actions it takes around \<^verbatim>\<open>serve\<close>, whose outcome is the argument; the errors
  of the mounts and of \<^verbatim>\<open>Reboot\<close> are dropped.
\<close>

definition guest_main :: "serve_error option \<Rightarrow> init_action list" where
  "guest_main served =
     [Mount ''proc'' ''/proc'', Mount ''sysfs'' ''/sys'', Mount ''devtmpfs'' ''/dev'', MkdirAll workDir] @
     (case served of Some e \<Rightarrow> [LogServeError e] | None \<Rightarrow> []) @
     [PowerOff, Exit 0]"

section \<open>The outcome of a request\<close>

lemma run_result_simps [simp]:
  "rr_err (fst (runOnce os c i t m n w)) = ro_err (fst (os_run os c i (t * Millisecond) w))"
  "rr_stdout (fst (runOnce os c i t m n w)) = capped n (ro_stdout (fst (os_run os c i (t * Millisecond) w)))"
  "rr_stderr (fst (runOnce os c i t m n w)) = capped n (ro_stderr (fst (os_run os c i (t * Millisecond) w)))"
  "rr_timedOut (fst (runOnce os c i t m n w)) = ro_deadline (fst (os_run os c i (t * Millisecond) w))"
  by (simp_all add: runOnce_def Let_def split: prod.split)

lemma runOnce_memMB: "runOnce os c i t m n w = runOnce os c i t m' n w"
  by (simp add: runOnce_def)

text \<open>A failed child never has exit code 0, so it is told from a successful one by its code.\<close>

lemma runOnce_code:
  assumes "exit_codes_ok os"
  shows "rr_code (fst (runOnce os c i t m n w)) = 0 \<longleftrightarrow> rr_err (fst (runOnce os c i t m n w)) = None"
proof -
  obtain out w' where r: "os_run os c i (t * Millisecond) w = (out, w')" by fastforce
  have "code \<noteq> 0" if "ro_err out = Some (ExitError code msg)" for code msg
    using assms r that unfolding exit_codes_ok_def by (metis fst_conv)
  then show ?thesis
    by (auto simp: runOnce_def Let_def r split: option.splits run_error.splits)
qed

text \<open>The runs of the command over the stdins, one after the other.\<close>

fun seq_runs :: "'w guest_os \<Rightarrow> ExecRequest \<Rightarrow> string list \<Rightarrow> 'w \<Rightarrow> run_result list \<times> 'w" where
  "seq_runs os req [] w = ([], w)"
| "seq_runs os req (inp # ins) w =
     (let (r, w1) = runOnce os (req_RunCmd req) inp (req_TimeLimitMs req) (req_MemoryLimitMb req)
                      (req_OutputLimitBytes req) w;
          (rs, w2) = seq_runs os req ins w1
      in (r # rs, w2))"

lemma seq_runs_Cons:
  assumes "runOnce os (req_RunCmd req) inp (req_TimeLimitMs req) (req_MemoryLimitMb req)
      (req_OutputLimitBytes req) w = (r, w1)"
  shows "seq_runs os req (inp # ins) w = (r # fst (seq_runs os req ins w1), snd (seq_runs os req ins w1))"
  using assms by (simp add: case_prod_beta)

lemma length_seq_runs: "length (fst (seq_runs os req ins w)) = length ins"
  by (induction ins arbitrary: w) (simp_all add: case_prod_beta Let_def)

lemma run_cases_seq_runs:
  assumes "exit_codes_ok os"
  shows "run_cases os req ins acc w =
    (zero_ExecResponse\<lparr>resp_Results := Some (acc @ map case_result (fst (seq_runs os req ins w)))\<rparr>,
     snd (seq_runs os req ins w))"
proof (induction ins arbitrary: acc w)
  case Nil
  then show ?case by simp
next
  case (Cons inp ins)
  obtain r w1 where r: "runOnce os (req_RunCmd req) inp (req_TimeLimitMs req) (req_MemoryLimitMb req)
      (req_OutputLimitBytes req) w = (r, w1)" by fastforce
  have "rr_code r = 0 \<longleftrightarrow> rr_err r = None"
    using runOnce_code [OF assms] r by (metis fst_conv)
  then show ?case
    by (simp add: r Cons.IH seq_runs_Cons [OF r] del: seq_runs.simps split: option.split)
qed

text \<open>Both error reports of a run are dead code: the agent only fails before it runs anything.\<close>

lemma handle_cases:
  assumes "exit_codes_ok os"
  obtains (mkdir) m where "fst (handle os req w) = agent_error (''mkdir: '' @ m)"
    | (wsource) m where "fst (handle os req w) = agent_error (''write source: '' @ m)"
    | (compile) r w1 w2 where "req_CompileCmd req \<noteq> []"
        "runOnce os (req_CompileCmd req) [] (req_TimeLimitMs req * 4) (req_MemoryLimitMb req)
           (req_OutputLimitBytes req) w1 = (r, w2)" "rr_code r \<noteq> 0"
        "handle os req w = (compile_error (if rr_stderr r = [] then rr_stdout r else rr_stderr r), w2)"
    | (ran) w1 where "handle os req w =
        (zero_ExecResponse\<lparr>resp_Results :=
           Some (map case_result (fst (seq_runs os req (elems (req_Stdins req)) w1)))\<rparr>,
         snd (seq_runs os req (elems (req_Stdins req)) w1))"
proof -
  obtain e1 w1 where mk: "os_mkdir_all os (Dir (Join workDir (req_SourceFile req))) w = (e1, w1)" by fastforce
  obtain e2 w2 where wr: "os_write_file os (Join workDir (req_SourceFile req)) (req_Source req) w1 = (e2, w2)"
    by fastforce
  obtain r w3 where rn: "runOnce os (req_CompileCmd req) [] (req_TimeLimitMs req * 4)
      (req_MemoryLimitMb req) (req_OutputLimitBytes req) w2 = (r, w3)" by fastforce
  have code: "rr_code r = 0 \<longleftrightarrow> rr_err r = None"
    using runOnce_code [OF assms] rn by (metis fst_conv)
  show thesis
  proof (cases e1)
    case (Some m)
    then show thesis using mkdir mk by (simp add: handle_def)
  next
    case None
    note e1 = None
    show thesis
    proof (cases e2)
      case (Some m)
      then show thesis using wsource mk wr e1 by (simp add: handle_def)
    next
      case None
      then have h: "handle os req w =
        (if req_CompileCmd req \<noteq> [] then
           (if rr_code r \<noteq> 0
            then (compile_error (if rr_stderr r = [] then rr_stdout r else rr_stderr r), w3)
            else run_request os req w3)
         else run_request os req w2)"
        using mk wr rn e1 code by (simp add: handle_def)
      show thesis
      proof (cases "req_CompileCmd req \<noteq> [] \<and> rr_code r \<noteq> 0")
        case True
        then show thesis using compile [of w2 r w3] rn h by simp
      next
        case False
        then have "handle os req w = run_request os req (if req_CompileCmd req = [] then w2 else w3)"
          using h by auto
        then show thesis
          using ran by (simp add: run_request_def run_cases_seq_runs [OF assms])
      qed
    qed
  qed
qed

text \<open>The parts of a response, and of each result, that the agent never fills in.\<close>

definition usage_free :: "CaseResult \<Rightarrow> bool" where
  "usage_free c \<longleftrightarrow> cr_TimeMs c = 0 \<and> cr_MemoryKb c = 0"

definition within_output_limit :: "gint \<Rightarrow> CaseResult \<Rightarrow> bool" where
  "within_output_limit n c \<longleftrightarrow>
     length (cr_Stdout c) \<le> nat (sint n) \<and> length (cr_Stderr c) \<le> nat (sint n)"

lemma seq_runs_results:
  "r \<in> set (fst (seq_runs os req ins w)) \<Longrightarrow>
    usage_free (case_result r) \<and> within_output_limit (req_OutputLimitBytes req) (case_result r)"
proof (induction ins arbitrary: w)
  case Nil
  then show ?case by simp
next
  case (Cons inp ins)
  obtain r1 w1 where r1: "runOnce os (req_RunCmd req) inp (req_TimeLimitMs req) (req_MemoryLimitMb req)
      (req_OutputLimitBytes req) w = (r1, w1)" by fastforce
  then have "rr_stdout r1 = capped (req_OutputLimitBytes req)
        (ro_stdout (fst (os_run os (req_RunCmd req) inp (req_TimeLimitMs req * Millisecond) w)))"
    "rr_stderr r1 = capped (req_OutputLimitBytes req)
        (ro_stderr (fst (os_run os (req_RunCmd req) inp (req_TimeLimitMs req * Millisecond) w)))"
    by (metis fst_conv run_result_simps(2,3))+
  then have "usage_free (case_result r1) \<and> within_output_limit (req_OutputLimitBytes req) (case_result r1)"
    by (simp add: usage_free_def within_output_limit_def case_result_def zero_CaseResult_def capped_length)
  then show ?case using Cons by (auto simp: seq_runs_Cons [OF r1] simp del: seq_runs.simps)
qed

text \<open>An operating system for the witnesses: an echo shell on which the compiler may fail.\<close>

definition echo_os :: "run_outcome \<Rightarrow> nat guest_os" where
  "echo_os compiled =
     \<lparr>os_mkdir_all = (\<lambda>_ n. (None, n)),
      os_write_file = (\<lambda>_ _ n. (None, n)),
      os_run = (\<lambda>cmd inp _ n.
        (if cmd = ''cc'' then compiled
         else \<lparr>ro_stdout = [inp, ''!''], ro_stderr = [], ro_err = None, ro_deadline = False\<rparr>, Suc n))\<rparr>"

definition quiet_failure :: run_outcome where
  "quiet_failure = \<lparr>ro_stdout = [], ro_stderr = [], ro_err = Some (ExitError 1 ''exit status 1''),
     ro_deadline = False\<rparr>"

definition echo_request :: "string \<Rightarrow> string list \<Rightarrow> ExecRequest" where
  "echo_request cc ins = zero_ExecRequest\<lparr>req_SourceFile := ''main.c'', req_CompileCmd := cc,
     req_RunCmd := ''run'', req_Stdins := Some ins, req_TimeLimitMs := 2000,
     req_OutputLimitBytes := 4\<rparr>"

lemma exit_codes_ok_echo: "exit_codes_ok (echo_os quiet_failure)"
  by (simp add: exit_codes_ok_def echo_os_def quiet_failure_def)

text \<open>
  A request whose source could be written and whose compilation, if any, succeeded is
  answered with exactly one result per stdin, in the order of the stdins: the agent neither
  stops at a failing case nor reports an agent error after it started running code.
\<close>

theorem run_request_one_result_per_stdin:
  assumes "exit_codes_ok os"
  shows "run_request os req w =
    (zero_ExecResponse\<lparr>resp_Results :=
       Some (map case_result (fst (seq_runs os req (elems (req_Stdins req)) w)))\<rparr>,
     snd (seq_runs os req (elems (req_Stdins req)) w)) \<and>
    length (elems (resp_Results (fst (run_request os req w)))) = length (elems (req_Stdins req))"
  by (simp add: run_request_def run_cases_seq_runs [OF assms] length_seq_runs)

lemma run_request_witness:
  "length (elems (resp_Results (fst (run_request (echo_os quiet_failure) (echo_request [] [''a'', ''b'']) 0)))) = 2"
proof -
  have "length (elems (req_Stdins (echo_request [] [''a'', ''b'']))) = 2" by (simp add: echo_request_def)
  with run_request_one_result_per_stdin [OF exit_codes_ok_echo, THEN conjunct2]
  show ?thesis by (rule trans)
qed

text \<open>
  Whatever the request and the operating system, every result the agent reports keeps
  stdout and stderr within the request's output limit, and its time and memory fields are
  0: the agent measures neither.
\<close>

theorem handle_results_bounded:
  assumes "exit_codes_ok os" and "c \<in> set (elems (resp_Results (fst (handle os req w))))"
  shows "within_output_limit (req_OutputLimitBytes req) c \<and> usage_free c"
  using assms(1)
proof (cases rule: handle_cases [of os req w])
  case (ran w1)
  with assms(2) show ?thesis by (auto simp: seq_runs_results)
qed (use assms(2) in \<open>auto simp: agent_error_def compile_error_def zero_ExecResponse_def\<close>)

lemma handle_results_bounded_witness:
  "within_output_limit 4 \<lparr>cr_Stdout = ''long'', cr_Stderr = [], cr_ExitCode = 0, cr_TimeMs = 0,
     cr_MemoryKb = 0, cr_TimedOut = False\<rparr>"
proof -
  let ?c = "\<lparr>cr_Stdout = ''long'', cr_Stderr = [], cr_ExitCode = 0, cr_TimeMs = 0,
     cr_MemoryKb = 0, cr_TimedOut = False\<rparr>"
  have "?c \<in> set (elems (resp_Results (fst (handle (echo_os quiet_failure) (echo_request [] [''longer'']) 0))))"
    by (simp add: handle_def run_request_def runOnce_def echo_os_def echo_request_def
        zero_ExecRequest_def zero_ExecResponse_def zero_CaseResult_def case_result_def capped_take)
  from handle_results_bounded [OF exit_codes_ok_echo this] show ?thesis
    by (simp add: echo_request_def)
qed

text \<open>
  The agent's memory limit has no effect: two requests that differ in nothing else are
  answered alike. (The comment on \<^verbatim>\<open>MemoryLimitMb\<close> promises a cap enforced via cgroups.)
\<close>

theorem handle_ignores_memory_limit:
  "handle os (req\<lparr>req_MemoryLimitMb := m\<rparr>) w = handle os req w"
proof -
  note mem = runOnce_memMB [of os _ _ _ m _ _ 0] runOnce_memMB [of os _ _ _ "req_MemoryLimitMb req" _ _ 0]
  have "run_cases os (req\<lparr>req_MemoryLimitMb := m\<rparr>) ins acc v = run_cases os req ins acc v" for ins acc v
    by (induction ins arbitrary: acc v) (auto simp: mem case_prod_beta Let_def split: option.split)
  then show ?thesis
    by (simp add: handle_def run_request_def mem cong: if_cong option.case_cong)
qed

text \<open>
  C35. A compiler that fails without printing anything is reported as nothing at all: the
  response has neither a compile error nor results nor an agent error.
\<close>

theorem handle_silent_compile_failure:
  assumes "os_mkdir_all os (Dir (Join workDir (req_SourceFile req))) w = (None, w1)"
    and "os_write_file os (Join workDir (req_SourceFile req)) (req_Source req) w1 = (None, w2)"
    and "req_CompileCmd req \<noteq> []"
    and "os_run os (req_CompileCmd req) [] (req_TimeLimitMs req * 4 * Millisecond) w2 = (out, w3)"
    and "ro_err out = Some (ExitError code m)" and "code \<noteq> 0"
    and "concat (ro_stdout out) = []" and "concat (ro_stderr out) = []"
  shows "handle os req w = (zero_ExecResponse, w3)"
  using assms by (simp add: handle_def runOnce_def Let_def capped_take compile_error_def zero_ExecResponse_def)

lemma handle_silent_compile_failure_witness:
  "handle (echo_os quiet_failure) (echo_request ''cc'' [''a'']) 0 = (zero_ExecResponse, 1)"
  by (rule handle_silent_compile_failure [where ?w1.0 = 0 and ?w2.0 = 0 and out = quiet_failure and code = 1
        and m = "''exit status 1''"])
    (simp_all add: echo_os_def echo_request_def quiet_failure_def)

section \<open>The shape of a response\<close>

text \<open>Which fields a response may carry together, for a request with \<open>n\<close> stdins.\<close>

definition response_ok :: "nat \<Rightarrow> ExecResponse \<Rightarrow> bool" where
  "response_ok n resp \<longleftrightarrow>
     (if resp_AgentError resp \<noteq> [] then resp_CompileError resp = [] \<and> resp_Results resp = None
      else resp_Results resp = None \<or>
        resp_CompileError resp = [] \<and> length (elems (resp_Results resp)) = n)"

lemma response_ok_errors [simp]:
  "m \<noteq> [] \<Longrightarrow> response_ok n (agent_error m)" "response_ok n (compile_error m)"
  by (simp_all add: response_ok_def agent_error_def compile_error_def zero_ExecResponse_def)

lemma run_cases_ok: "response_ok (length results + length ins) (fst (run_cases os req ins results w))"
proof (induction ins arbitrary: results w)
  case Nil
  then show ?case by (simp add: response_ok_def zero_ExecResponse_def)
next
  case (Cons inp ins)
  obtain r w1 where r: "runOnce os (req_RunCmd req) inp (req_TimeLimitMs req) (req_MemoryLimitMb req)
      (req_OutputLimitBytes req) w = (r, w1)" by fastforce
  have "response_ok (length results + length (inp # ins))
      (fst (run_cases os req ins (results @ [case_result r]) w1))"
    using Cons.IH [of "results @ [case_result r]" w1] by simp
  then show ?case by (auto simp: r split: option.split)
qed


end
