(* ===== verification/Pool_Executor.thy ===== *)
theory Pool_Executor
  imports Firecracker Guest_Agent
begin

text \<open>
  \<^verbatim>\<open>pool/executor.go\<close>: a request on a VM of the pool. The pool is a parameter: its
  \<^verbatim>\<open>Acquire\<close>, \<^verbatim>\<open>Release\<close> and \<^verbatim>\<open>Discard\<close> over its state (\<open>Pool\<close> models what is behind them). A
  nil VM, which \<^verbatim>\<open>Acquire\<close> can return, makes \<^verbatim>\<open>exchange\<close> panic: the outcome is then \<open>None\<close>. The
  second half puts the host's \<^verbatim>\<open>Exchange\<close> and the guest's \<^verbatim>\<open>serve\<close> on the two ends of one
  connection.
\<close>

record 'p vm_pool =
  vp_acquire :: "string \<Rightarrow> 'p \<Rightarrow> (string + VM option) \<times> 'p"
  vp_release :: "VM \<Rightarrow> 'p \<Rightarrow> 'p"
  vp_discard :: "VM \<Rightarrow> 'p \<Rightarrow> 'p"

record Executor =
  ex_DialTimeout :: gint
  ex_ExtraBudget :: gint
  ex_VsockPort :: "32 word"

definition NewExecutor :: Executor where
  "NewExecutor = \<lparr>ex_DialTimeout = 15 * Second, ex_ExtraBudget = 30 * Second, ex_VsockPort = VsockPort\<rparr>"

datatype exec_error =
    EAcquire string
  | EDial dial_error
  | EExchange exchange_error

text \<open>The time one exchange may take, in the 64-bit arithmetic of \<^verbatim>\<open>time.Duration\<close>.\<close>

definition exchange_budget :: "Executor \<Rightarrow> ExecRequest \<Rightarrow> gint" where
  "exchange_budget e req =
     req_TimeLimitMs req * Millisecond * word_of_nat (length (elems (req_Stdins req)) + 1) + ex_ExtraBudget e"

definition exchange :: "Executor \<Rightarrow> dialer \<Rightarrow> int \<Rightarrow> VM \<Rightarrow> ExecRequest \<Rightarrow> exec_error + ExecResponse" where
  "exchange e dial now vm req =
     (case VsockHostDial dial (vm_VsockUDS vm) (ex_VsockPort e) (ex_DialTimeout e) now of
        Inl err \<Rightarrow> Inl (EDial err)
      | Inr conn \<Rightarrow>
          (case Exchange conn req (exchange_budget e req) of
             Inl err \<Rightarrow> Inl (EExchange err)
           | Inr resp \<Rightarrow> Inr resp))"

definition Execute ::
    "Executor \<Rightarrow> 'p vm_pool \<Rightarrow> dialer \<Rightarrow> int \<Rightarrow> string \<Rightarrow> ExecRequest \<Rightarrow> 'p \<Rightarrow> (exec_error + ExecResponse) option \<times> 'p" where
  "Execute e pool dial now langID req p =
     (case vp_acquire pool langID p of
        (Inl err, p1) \<Rightarrow> (Some (Inl (EAcquire err)), p1)
      | (Inr None, p1) \<Rightarrow> (None, p1)
      | (Inr (Some vm), p1) \<Rightarrow>
          (case exchange e dial now vm req of
             Inl err \<Rightarrow> (Some (Inl err), vp_discard pool vm p1)
           | Inr resp \<Rightarrow> (Some (Inr resp), vp_release pool vm p1)))"

section \<open>The VM is given back\<close>

datatype pool_event = Acquired VM | Released VM | Discarded VM

text \<open>A pool that keeps a record of what it hands out and gets back.\<close>

definition recording :: "'p vm_pool \<Rightarrow> (pool_event list \<times> 'p) vm_pool" where
  "recording pool =
     \<lparr>vp_acquire = (\<lambda>l (evs, p). case vp_acquire pool l p of
        (Inr (Some vm), p') \<Rightarrow> (Inr (Some vm), evs @ [Acquired vm], p')
      | (res, p') \<Rightarrow> (res, evs, p')),
      vp_release = (\<lambda>vm (evs, p). (evs @ [Released vm], vp_release pool vm p)),
      vp_discard = (\<lambda>vm (evs, p). (evs @ [Discarded vm], vp_discard pool vm p))\<rparr>"

text \<open>
  Every VM acquired for a request is given back once, after the exchange: released when the
  exchange succeeded, discarded when it failed. Without a VM nothing is given back, and the
  call panics exactly when the pool hands out a nil VM.
\<close>

theorem Execute_gives_back:
  "case Execute e (recording pool) dial now langID req (evs, p) of
     (res, evs', p') \<Rightarrow>
       (case fst (vp_acquire pool langID p) of
          Inl err \<Rightarrow> res = Some (Inl (EAcquire err)) \<and> evs' = evs
        | Inr None \<Rightarrow> res = None \<and> evs' = evs
        | Inr (Some vm) \<Rightarrow>
            res = Some (exchange e dial now vm req) \<and>
            evs' = evs @ [Acquired vm,
              if isl (exchange e dial now vm req) then Discarded vm else Released vm])"
  by (auto simp: Execute_def recording_def split: prod.split sum.split option.split)

section \<open>The budget\<close>

lemma budget_value:
  assumes "in_int64 (sint (req_TimeLimitMs req) * 1000000)"
    and "in_int64 (sint (req_TimeLimitMs req) * 1000000 * (int (length (elems (req_Stdins req))) + 1))"
    and "in_int64 (sint (req_TimeLimitMs req) * 1000000 * (int (length (elems (req_Stdins req))) + 1) + 30000000000)"
    and "in_int64 (int (length (elems (req_Stdins req))) + 1)"
  shows "sint (exchange_budget NewExecutor req) =
    sint (req_TimeLimitMs req) * 1000000 * (int (length (elems (req_Stdins req))) + 1) + 30000000000"
proof -
  have m: "sint Millisecond = 1000000" by (simp add: Millisecond_def)
  have n: "sint (word_of_nat (length (elems (req_Stdins req)) + 1) :: gint) = int (length (elems (req_Stdins req))) + 1"
    using sint_gint_of_int [OF assms(4)] by (simp add: add.commute)
  have x: "sint (ex_ExtraBudget NewExecutor) = 30000000000"
    by (simp add: NewExecutor_def Second_def)
  have 1: "sint (req_TimeLimitMs req * Millisecond) = sint (req_TimeLimitMs req) * 1000000"
    using sint_gint_mult [of "req_TimeLimitMs req" Millisecond] assms(1) m by simp
  have 2: "sint (req_TimeLimitMs req * Millisecond * word_of_nat (length (elems (req_Stdins req)) + 1)) =
    sint (req_TimeLimitMs req) * 1000000 * (int (length (elems (req_Stdins req))) + 1)"
    using sint_gint_mult [of "req_TimeLimitMs req * Millisecond" "word_of_nat (length (elems (req_Stdins req)) + 1)"]
      assms(2) 1 n by simp
  show ?thesis
    unfolding exchange_budget_def
    using sint_gint_add [of "req_TimeLimitMs req * Millisecond * word_of_nat (length (elems (req_Stdins req)) + 1)"
        "ex_ExtraBudget NewExecutor"] assms(3) 2 x by simp
qed

text \<open>The time the guest's own limits give to the processes of a request.\<close>

definition guest_limit :: "ExecRequest \<Rightarrow> int" where
  "guest_limit req =
     (if req_CompileCmd req \<noteq> [] then sint (req_TimeLimitMs req * 4 * Millisecond) else 0) +
     int (length (elems (req_Stdins req))) * sint (req_TimeLimitMs req * Millisecond)"

text \<open>
  C36. The host's budget against the guest's limits: without overflow the budget is the time
  limit times one more than the number of stdins, plus 30 seconds; it covers what the guest
  grants its processes exactly when there is nothing to compile or the time limit is at most
  10 seconds, because a compilation gets four time limits and the budget counts one.
\<close>

theorem budget_covers_guest:
  assumes "0 \<le> sint (req_TimeLimitMs req)"
    and "sint (req_TimeLimitMs req) * 1000000 * (int (length (elems (req_Stdins req))) + 4) + 30000000000 < 2 ^ 63"
    and "int (length (elems (req_Stdins req))) + 4 < 2 ^ 63"
  shows "sint (exchange_budget NewExecutor req) =
      sint (req_TimeLimitMs req) * 1000000 * (int (length (elems (req_Stdins req))) + 1) + 30000000000 \<and>
    (guest_limit req \<le> sint (exchange_budget NewExecutor req) \<longleftrightarrow>
       req_CompileCmd req = [] \<or> sint (req_TimeLimitMs req) \<le> 10000)"
proof -
  let ?t = "sint (req_TimeLimitMs req) * 1000000" and ?n = "int (length (elems (req_Stdins req)))"
  have t: "0 \<le> ?t" "0 \<le> ?n" using assms(1) by simp_all
  have le: "?t * m \<le> ?t * (?n + 4)" if "m \<le> ?n + 4" for m
    using t that by (intro mult_left_mono) auto
  have lt: "in_int64 (?t * m)" if "0 \<le> m" "m \<le> ?n + 4" for m
    unfolding in_int64_def using le [OF that(2)] assms(2) mult_nonneg_nonneg [OF t(1) that(1)] by linarith
  have b: "sint (exchange_budget NewExecutor req) = ?t * (?n + 1) + 30000000000"
  proof (rule budget_value)
    show "in_int64 ?t" using lt [of 1] t by simp
    show "in_int64 (?t * (?n + 1))" using lt [of "?n + 1"] t by simp
    show "in_int64 (?t * (?n + 1) + 30000000000)"
      using le [of "?n + 1"] assms(2) t by (auto simp: in_int64_def)
    show "in_int64 (?n + 1)" using assms(3) by (simp add: in_int64_def)
  qed
  have m: "sint Millisecond = 1000000" by (simp add: Millisecond_def)
  have 4: "sint (req_TimeLimitMs req * 4 * Millisecond) = ?t * 4"
  proof -
    have "in_int64 (sint (req_TimeLimitMs req) * 4)"
      using lt [of 4] t assms(1) by (auto simp: in_int64_def)
    then have "sint (req_TimeLimitMs req * 4) = sint (req_TimeLimitMs req) * 4"
      using sint_gint_mult [of "req_TimeLimitMs req" 4] by simp
    then show ?thesis
      using sint_gint_mult [of "req_TimeLimitMs req * 4" Millisecond] lt [of 4] t m by (simp add: ac_simps)
  qed
  have 1: "sint (req_TimeLimitMs req * Millisecond) = ?t"
    using sint_gint_mult [of "req_TimeLimitMs req" Millisecond] lt [of 1] t m by simp
  have "guest_limit req \<le> sint (exchange_budget NewExecutor req) \<longleftrightarrow>
       req_CompileCmd req = [] \<or> sint (req_TimeLimitMs req) \<le> 10000"
    unfolding guest_limit_def b 1 4 using t by (auto simp: algebra_simps)
  with b show ?thesis by blast
qed

lemma budget_covers_guest_witness:
  "\<not> guest_limit (echo_request ''cc'' [''a'']\<lparr>req_TimeLimitMs := 20000\<rparr>)
      \<le> sint (exchange_budget NewExecutor (echo_request ''cc'' [''a'']\<lparr>req_TimeLimitMs := 20000\<rparr>))"
  using budget_covers_guest [of "echo_request ''cc'' [''a'']\<lparr>req_TimeLimitMs := 20000\<rparr>"]
  by (simp add: echo_request_def)

text \<open>
  The arithmetic wraps: a time limit the API accepts can make the budget negative, so that
  the deadline has passed before the request is sent.
\<close>

theorem budget_overflow:
  "sint (exchange_budget NewExecutor (zero_ExecRequest\<lparr>req_TimeLimitMs := 5000000000000, req_Stdins := Some [[]]\<rparr>)) < 0"
  by (simp add: exchange_budget_def NewExecutor_def Second_def Millisecond_def zero_ExecRequest_def)

section \<open>Host and guest\<close>

text \<open>A connection at whose other end the guest agent serves one request.\<close>

definition guest_conn :: "'w guest_os \<Rightarrow> 'w \<Rightarrow> conn" where
  "guest_conn os w =
     \<lparr>cn_deadline_err = (\<lambda>_. None), cn_write_err = (\<lambda>_. None),
      cn_reply = (\<lambda>out. case serve os None None (out, REof) (\<lambda>_. None) w of (_, sent, _) \<Rightarrow> (sent, REof))\<rparr>"

lemma serve_frame:
  assumes "length (marshal_ExecRequest req) \<le> MaxFrameBytes"
  shows "serve os None None (frame (marshal_ExecRequest req), REof) (\<lambda>_. None) w =
    (case handle os (wire_ExecRequest req) w of
       (resp, w') \<Rightarrow> (None, frame (marshal_ExecResponse resp), w'))"
  using request_codec.recv_frame_marshal [OF assms, of "[]" REof]
  by (auto simp: serve_def readFrame_def writeFrame_def frame_def Let_def split: prod.split)

text \<open>
  Host and guest agree: an exchange with the agent at the other end gives the response of
  \<^verbatim>\<open>handle\<close> to the request, both as they look on the wire, provided both frames are within
  the limit; a request over the limit is refused before it is sent, a response over it (which
  the guest sends all the same) when it arrives.
\<close>

theorem Exchange_guest:
  assumes "fst (handle os (wire_ExecRequest req) w) = resp"
    and "length (marshal_ExecResponse resp) < 2 ^ 32"
  shows "Exchange (guest_conn os w) req timeout =
    (if MaxFrameBytes < length (marshal_ExecRequest req) then Inl (XTooLarge (length (marshal_ExecRequest req)))
     else if MaxFrameBytes < length (marshal_ExecResponse resp)
     then Inl (XRead (BadSize (length (marshal_ExecResponse resp))))
     else Inr (wire_ExecResponse resp))"
proof (cases "MaxFrameBytes < length (marshal_ExecRequest req)")
  case True
  then show ?thesis by (simp add: Exchange_def guest_conn_def)
next
  case False
  then have "length (marshal_ExecRequest req) \<le> MaxFrameBytes" by simp
  from serve_frame [OF this, of os w] assms(1)
  have "cn_reply (guest_conn os w) (frame (marshal_ExecRequest req)) = (frame (marshal_ExecResponse resp), REof)"
    by (auto simp: guest_conn_def split: prod.split)
  with False show ?thesis
    using response_codec.recv_frame_marshal [of resp "[]" REof]
      response_codec.recv_frame_too_large [of resp "[]" REof] assms(2)
    by (simp add: Exchange_def Let_def) (simp add: guest_conn_def not_less)
qed

section \<open>Through the pool\<close>

text \<open>
  The socket of a VM in which the agent listens: Firecracker answers the \<^verbatim>\<open>CONNECT\<close> line with
  \<^verbatim>\<open>OK\<close> and the peer's port, and passes on the rest.
\<close>

definition vsock_conn :: "'w guest_os \<Rightarrow> 'w \<Rightarrow> 32 word \<Rightarrow> string \<Rightarrow> conn" where
  "vsock_conn os w port peer =
     \<lparr>cn_deadline_err = (\<lambda>_. None), cn_write_err = (\<lambda>_. None),
      cn_reply = (\<lambda>out.
        if prefix (connect_line port) out
        then (''OK '' @ peer @ [CHR 0x0A] @ fst (cn_reply (guest_conn os w) (drop (length (connect_line port)) out)), REof)
        else ([], REof))\<rparr>"

lemma guest_conn_end: "snd (cn_reply (guest_conn os w) out) = REof"
  by (simp add: guest_conn_def split: prod.split)

lemma data_vsock_conn:
  assumes "CHR 0x0A \<notin> set peer" and "length peer \<le> 61"
  shows "data_conn port (vsock_conn os w port peer) = guest_conn os w"
proof -
  have "hs_line [] (''OK '' @ peer @ [CHR 0x0A] @ s) REof = Inr (''OK '' @ peer @ [CHR 0x0A], s)" for s
    unfolding hs_line_Inr using assms by (intro exI [of _ "''OK '' @ peer"]) simp
  then have "data_stream (''OK '' @ peer @ [CHR 0x0A] @ s, REof) = (s, REof)" for s
    by (simp only: data_stream_def fst_conv snd_conv sum.case prod.case)
  then have "cn_reply (data_conn port (vsock_conn os w port peer)) = cn_reply (guest_conn os w)"
    by (intro ext) (simp add: data_conn_def vsock_conn_def prod_eq_iff guest_conn_end)
  then show ?thesis by (simp add: data_conn_def vsock_conn_def) (simp add: guest_conn_def)
qed

lemma dial_vsock_conn:
  assumes "dial path 0 = (dt, Inr (vsock_conn os w port peer))" and "CHR 0x0A \<notin> set peer" and "length peer \<le> 61"
  shows "VsockHostDial dial path port timeout now = Inr (guest_conn os w)"
proof -
  have "\<exists>rest. handshake (cn_reply (vsock_conn os w port peer) (connect_line port)) = Inr rest"
    using assms(2,3) unfolding vsock_conn_def conn.simps
    by (simp only: prefix_order.order_refl if_True handshake_iff)
      (intro exI [of _ "'' '' @ peer"] exI conjI, simp_all)
  then show ?thesis
    using dial_loop_first [of "dial path" 0, OF assms(1)] data_vsock_conn [OF assms(2,3), of port os w]
    by (auto simp: VsockHostDial_def vsock_conn_def)
qed


definition readonly_os :: "unit guest_os" where
  "readonly_os =
     \<lparr>os_mkdir_all = (\<lambda>_ w. (Some ''ro'', w)),
      os_write_file = (\<lambda>_ _ w. (Some ''ro'', w)),
      os_run = (\<lambda>_ _ _ w. (\<lparr>ro_stdout = [], ro_stderr = [], ro_err = None, ro_deadline = False\<rparr>, w))\<rparr>"

lemma readonly_handle: "fst (handle readonly_os req ()) = agent_error ''mkdir: ro''"
  by (simp add: handle_def readonly_os_def)

lemma readonly_frame: "length (marshal_ExecResponse (agent_error ''mkdir: ro'')) = 27"
  by code_simp

definition one_vm :: VM where
  "one_vm = \<lparr>vm_ID = ''vm-1-1'', vm_LanguageID = ''py'', vm_WorkDir = ''/w'', vm_APISocket = ''/w/fc.sock'',
     vm_VsockUDS = ''/w/vsock.sock'', vm_pid = 1\<rparr>"

text \<open>A pool with one VM, whose state says whether it was released.\<close>

definition one_vm_pool :: "bool vm_pool" where
  "one_vm_pool = \<lparr>vp_acquire = (\<lambda>_ p. (Inr (Some one_vm), p)), vp_release = (\<lambda>_ _. True), vp_discard = (\<lambda>_ _. False)\<rparr>"


end
