(* ===== verification/Dredd_Test.thy ===== *)
theory Dredd_Test
  imports Guest_Agent Worker Go_Quote
begin

text \<open>
  \<^verbatim>\<open>dreddtest/\<close>: the executors that stand in for the VMs. \<^verbatim>\<open>LocalExecutor\<close> runs a request
  with the host's shell, \<^verbatim>\<open>DockerExecutor\<close> in containers, \<^verbatim>\<open>FlakyExecutor\<close> fails first. Host
  and containers are a parameter: a record of calls over an opaque state, with the outcomes
  of processes that the guest agent's model has. What the two runners share is a locale; the
  equivalence says that they answer a request as the guest agent does.
\<close>

section \<open>The host\<close>

text \<open>\<open>th_run\<close> takes the directory, the arguments, the input and the timeout, if there is one.\<close>

record 'w test_host =
  th_uid :: gint
  th_gid :: gint
  th_mktemp :: "string \<Rightarrow> 'w \<Rightarrow> (string + string) \<times> 'w"
  th_chmod :: "string \<Rightarrow> 'w \<Rightarrow> 'w"
  th_write :: "string \<Rightarrow> string \<Rightarrow> 'w \<Rightarrow> string option \<times> 'w"
  th_remove_all :: "string \<Rightarrow> 'w \<Rightarrow> 'w"
  th_run :: "string \<Rightarrow> string list \<Rightarrow> string \<Rightarrow> gint option \<Rightarrow> 'w \<Rightarrow> run_outcome \<times> 'w"

section \<open>One process\<close>

text \<open>What both runners return: stdout, exit code, stderr, whether it timed out.\<close>

type_synonym outputs = "string \<times> gint \<times> string \<times> bool"

definition exit_code :: "run_error option \<Rightarrow> gint" where
  "exit_code err = (case err of None \<Rightarrow> 0 | Some (ExitError c _) \<Rightarrow> c | Some (OtherError _) \<Rightarrow> - 1)"

definition outputs_of :: "gint \<Rightarrow> run_outcome \<Rightarrow> outputs" where
  "outputs_of outCap o' =
     (capped outCap (ro_stdout o'), exit_code (ro_err o'), capped outCap (ro_stderr o'), ro_deadline o')"

definition timeout_or :: "gint \<Rightarrow> gint \<Rightarrow> gint" where
  "timeout_or def timeoutMs =
     (let timeout = timeoutMs * Millisecond in if sint timeout \<le> 0 then def else timeout)"

definition runShell ::
    "'w test_host \<Rightarrow> string \<Rightarrow> string \<Rightarrow> string \<Rightarrow> gint \<Rightarrow> gint \<Rightarrow> 'w \<Rightarrow> outputs \<times> 'w" where
  "runShell h dir shellCmd inp timeoutMs outCap w =
     (let (o', w') = th_run h dir [''/bin/sh'', ''-c'', shellCmd] inp (Some (timeout_or (5 * Second) timeoutMs)) w
      in (outputs_of outCap o', w'))"

section \<open>One request\<close>

text \<open>The part of \<^verbatim>\<open>Execute\<close> after the source is written, for either runner.\<close>

fun test_cases ::
    "(string \<Rightarrow> string \<Rightarrow> gint \<Rightarrow> gint \<Rightarrow> 'w \<Rightarrow> outputs \<times> 'w) \<Rightarrow> ExecRequest \<Rightarrow> string list \<Rightarrow> CaseResult list
      \<Rightarrow> 'w \<Rightarrow> CaseResult list \<times> 'w" where
  "test_cases run req [] results w = (results, w)"
| "test_cases run req (inp # ins) results w =
     (case run (req_RunCmd req) inp (req_TimeLimitMs req) (req_OutputLimitBytes req) w of
        ((stdout, code, stderr, timedOut), w') \<Rightarrow>
          test_cases run req ins
            (results @ [zero_CaseResult\<lparr>cr_Stdout := stdout, cr_Stderr := stderr, cr_ExitCode := code,
                         cr_TimedOut := timedOut\<rparr>]) w')"

definition run_tests ::
    "(string \<Rightarrow> string \<Rightarrow> gint \<Rightarrow> gint \<Rightarrow> 'w \<Rightarrow> outputs \<times> 'w) \<Rightarrow> ExecRequest \<Rightarrow> 'w \<Rightarrow> ExecResponse \<times> 'w" where
  "run_tests run req w =
     (let all = (\<lambda>w. case test_cases run req (elems (req_Stdins req)) [] w of
                  (results, w') \<Rightarrow> (zero_ExecResponse\<lparr>resp_Results := Some results\<rparr>, w'))
      in if req_CompileCmd req \<noteq> [] then
           (case run (req_CompileCmd req) [] (req_TimeLimitMs req * 4) (req_OutputLimitBytes req) w of
              ((stdout, code, stderr, _), w1) \<Rightarrow>
                if code \<noteq> 0 then (compile_error (if stderr = [] then stdout else stderr), w1)
                else all w1)
         else all w)"

text \<open>\<^verbatim>\<open>LocalExecutor.Execute\<close>; the directory is removed however it returns.\<close>

definition local_Execute :: "'w test_host \<Rightarrow> 'w executor" where
  "local_Execute h lid req w =
     (case th_mktemp h ''dreddtest-work-'' w of
        (Inl e, w1) \<Rightarrow> (Inl (''mktemp: '' @ e), w1)
      | (Inr work, w1) \<Rightarrow>
          (case th_write h (Join work (req_SourceFile req)) (req_Source req) w1 of
             (Some e, w2) \<Rightarrow> (Inr (agent_error (''write source: '' @ e)), th_remove_all h work w2)
           | (None, w2) \<Rightarrow>
               (case run_tests (runShell h work) req w2 of
                  (resp, w3) \<Rightarrow> (Inr resp, th_remove_all h work w3))))"

section \<open>The copy of the output buffer\<close>

definition test_Write :: "cappedBuffer \<Rightarrow> string \<Rightarrow> nat \<times> cappedBuffer" where
  "test_Write c p =
     (if sint (cb_cap c) \<le> 0 \<or> sint (cb_cap c) \<le> int (length (cb_buf c)) then (length p, c)
      else
        (let room = sint (cb_cap c) - int (length (cb_buf c)) in
         if int (length p) \<le> room then (length p, c\<lparr>cb_buf := cb_buf c @ p\<rparr>)
         else (length p, c\<lparr>cb_buf := cb_buf c @ take (nat room) p\<rparr>)))"

lemma test_Write_copy: "test_Write = Write"
  by (intro ext) (simp add: test_Write_def Write_def)

section \<open>Docker\<close>

text \<open>
  \<open>de_Images\<close> is the map in the order in which an iteration visits it. The images already seen
  locally are part of the state.
\<close>

record DockerExecutor =
  de_Images :: "(string \<times> string) list"
  de_DockerBin :: string
  de_Network :: string
  de_PerImageNetwork :: "(string \<rightharpoonup> string) option"
  de_PullTimeout :: gint

definition NewDockerExecutor :: "(string \<times> string) list \<Rightarrow> DockerExecutor" where
  "NewDockerExecutor images =
     \<lparr>de_Images = images, de_DockerBin = ''docker'', de_Network = ''none'', de_PerImageNetwork = None,
      de_PullTimeout = 300 * Second\<rparr>"

definition localHas :: "'w test_host \<Rightarrow> DockerExecutor \<Rightarrow> string \<Rightarrow> 'w \<Rightarrow> bool \<times> 'w" where
  "localHas h e img w =
     (let (o', w') = th_run h [] [de_DockerBin e, ''image'', ''inspect'', img] [] None w
      in (ro_err o' = None, w'))"

definition pull :: "'w test_host \<Rightarrow> DockerExecutor \<Rightarrow> string \<Rightarrow> 'w \<Rightarrow> string option \<times> 'w" where
  "pull h e img w =
     (let timeout = (if sint (de_PullTimeout e) \<le> 0 then 300 * Second else de_PullTimeout e);
          (o', w') = th_run h [] [de_DockerBin e, ''pull'', ''--quiet'', img] [] (Some timeout) w
      in case ro_err o' of
           Some err \<Rightarrow> (Some (err_text err @ '': '' @ concat (ro_stderr o')), w')
         | None \<Rightarrow> (None, w'))"

definition ensureImage ::
    "'w test_host \<Rightarrow> DockerExecutor \<Rightarrow> string \<Rightarrow> string set \<times> 'w \<Rightarrow> string option \<times> string set \<times> 'w" where
  "ensureImage h e img s =
     (case s of (pulled, w) \<Rightarrow>
        if img \<in> pulled then (None, pulled, w)
        else case localHas h e img w of
               (True, w1) \<Rightarrow> (None, insert img pulled, w1)
             | (False, w1) \<Rightarrow>
                 (case pull h e img w1 of
                    (Some err, w2) \<Rightarrow> (Some err, pulled, w2)
                  | (None, w2) \<Rightarrow> (None, insert img pulled, w2)))"

definition docker_args :: "'w test_host \<Rightarrow> DockerExecutor \<Rightarrow> string \<Rightarrow> string \<Rightarrow> string \<Rightarrow> string \<Rightarrow> string list" where
  "docker_args h e img dir network shellCmd =
     [de_DockerBin e, ''run'', ''--rm'', ''-i'',
      ''--network'', network,
      ''--user'', itoa (th_uid h) @ '':'' @ itoa (th_gid h),
      ''-v'', dir @ '':/work'',
      ''-w'', ''/work'',
      ''-e'', ''HOME=/tmp'',
      img,
      ''/bin/sh'', ''-c'', shellCmd]"

definition runDocker ::
    "'w test_host \<Rightarrow> DockerExecutor \<Rightarrow> string \<Rightarrow> string \<Rightarrow> string \<Rightarrow> string \<Rightarrow> string \<Rightarrow> gint \<Rightarrow> gint \<Rightarrow> 'w
      \<Rightarrow> outputs \<times> 'w" where
  "runDocker h e img dir network shellCmd inp timeoutMs outCap w =
     (let (o', w') = th_run h [] (docker_args h e img dir network shellCmd) inp
                       (Some (timeout_or (60 * Second) timeoutMs)) w
      in (outputs_of outCap o', w'))"

definition network_of :: "DockerExecutor \<Rightarrow> string \<Rightarrow> string" where
  "network_of e img =
     (case de_PerImageNetwork e of
        None \<Rightarrow> de_Network e
      | Some per \<Rightarrow> (case per img of Some n \<Rightarrow> n | None \<Rightarrow> de_Network e))"

definition docker_Execute ::
    "'w test_host \<Rightarrow> (nat \<Rightarrow> bool) \<Rightarrow> DockerExecutor \<Rightarrow> (string set \<times> 'w) executor" where
  "docker_Execute h is_print e langID req s =
     (case map_of (de_Images e) langID of
        None \<Rightarrow> (Inl (''docker executor: no image for language '' @ quote is_print langID), s)
      | Some img \<Rightarrow>
          if img = [] then (Inl (''docker executor: no image for language '' @ quote is_print langID), s)
          else
            (case ensureImage h e img s of
               (Some err, s1) \<Rightarrow> (Inl (''ensure image '' @ img @ '': '' @ err), s1)
             | (None, pulled, w) \<Rightarrow>
                 (case th_mktemp h ''dredd-doc-'' w of
                    (Inl err, w1) \<Rightarrow> (Inl (''mktemp: '' @ err), pulled, w1)
                  | (Inr work, w1) \<Rightarrow>
                      (case th_write h (Join work (req_SourceFile req)) (req_Source req) (th_chmod h work w1) of
                         (Some err, w2) \<Rightarrow>
                           (Inr (agent_error (''write source: '' @ err)), pulled, th_remove_all h work w2)
                       | (None, w2) \<Rightarrow>
                           (case run_tests (runDocker h e img work (network_of e img)) req w2 of
                              (resp, w3) \<Rightarrow> (Inr resp, pulled, th_remove_all h work w3))))))"

text \<open>The loops over the images of the map; \<open>seen\<close> are the ones met before.\<close>

fun prewarm_loop ::
    "'w test_host \<Rightarrow> DockerExecutor \<Rightarrow> string list \<Rightarrow> string set \<Rightarrow> string set \<times> 'w \<Rightarrow> string option \<times> string set \<times> 'w" where
  "prewarm_loop h e [] seen s = (None, s)"
| "prewarm_loop h e (img # imgs) seen s =
     (if img \<in> seen then prewarm_loop h e imgs seen s
      else case ensureImage h e img s of
             (Some err, s1) \<Rightarrow> (Some (''pull '' @ img @ '': '' @ err), s1)
           | (None, s1) \<Rightarrow> prewarm_loop h e imgs (insert img seen) s1)"

definition PrewarmImages ::
    "'w test_host \<Rightarrow> DockerExecutor \<Rightarrow> string set \<times> 'w \<Rightarrow> string option \<times> string set \<times> 'w" where
  "PrewarmImages h e s = prewarm_loop h e (map snd (de_Images e)) {} s"

fun missing_loop ::
    "'w test_host \<Rightarrow> DockerExecutor \<Rightarrow> string list \<Rightarrow> string set \<Rightarrow> string list \<Rightarrow> 'w \<Rightarrow> string list \<times> 'w" where
  "missing_loop h e [] seen missing w = (missing, w)"
| "missing_loop h e (img # imgs) seen missing w =
     (if img \<in> seen then missing_loop h e imgs seen missing w
      else case localHas h e img w of
             (True, w1) \<Rightarrow> missing_loop h e imgs (insert img seen) missing w1
           | (False, w1) \<Rightarrow>
               (case pull h e img w1 of
                  (Some _, w2) \<Rightarrow> missing_loop h e imgs (insert img seen) (missing @ [img]) w2
                | (None, w2) \<Rightarrow> missing_loop h e imgs (insert img seen) missing w2))"

definition MissingImages :: "'w test_host \<Rightarrow> DockerExecutor \<Rightarrow> 'w \<Rightarrow> string list \<times> 'w" where
  "MissingImages h e w = missing_loop h e (map snd (de_Images e)) {} [] w"

section \<open>Failing first\<close>

text \<open>\<^verbatim>\<open>FlakyExecutor\<close>: the 32-bit counter goes down by one on every call.\<close>

definition flaky_Execute :: "'e executor \<Rightarrow> (32 word \<times> 'e) executor" where
  "flaky_Execute inner langID req s =
     (case s of (left, e) \<Rightarrow>
        let left' = left - 1 in
        if 0 \<le> sint left' then (Inl ''simulated VM failure'', left', e)
        else case inner langID req e of (out, e') \<Rightarrow> (out, left', e'))"


section \<open>What the runners share\<close>

locale test_runner =
  fixes run :: "string \<Rightarrow> string \<Rightarrow> gint \<Rightarrow> gint \<Rightarrow> 'w \<Rightarrow> outputs \<times> 'w"
  assumes run_bounded: "run c inp t n w = ((stdout, code, stderr, timedOut), w') \<Longrightarrow>
    length stdout \<le> nat (sint n) \<and> length stderr \<le> nat (sint n)"
begin

lemma test_cases_results:
  "test_cases run req ins results w = (results', w') \<Longrightarrow>
    length results' = length results + length ins \<and>
    (\<forall>r \<in> set results'. r \<in> set results \<or>
       length (cr_Stdout r) \<le> nat (sint (req_OutputLimitBytes req)) \<and>
       length (cr_Stderr r) \<le> nat (sint (req_OutputLimitBytes req)))"
proof (induction ins arbitrary: results w)
  case Nil
  then show ?case by simp
next
  case (Cons inp ins)
  obtain stdout code stderr timedOut w1 where
    r: "run (req_RunCmd req) inp (req_TimeLimitMs req) (req_OutputLimitBytes req) w
      = ((stdout, code, stderr, timedOut), w1)" by (metis prod.collapse)
  from Cons.IH [OF Cons.prems [simplified r test_cases.simps prod.case]] run_bounded [OF r]
  show ?case by auto
qed

end

interpretation local_runner: test_runner "runShell h dir"
  by unfold_locales (auto simp: runShell_def outputs_of_def capped_length split: prod.splits)

interpretation docker_runner: test_runner "runDocker h e img dir network"
  by unfold_locales (auto simp: runDocker_def outputs_of_def capped_length split: prod.splits)

section \<open>The guest agent's answer\<close>

text \<open>A runner that does for a request what the guest agent's \<^verbatim>\<open>runOnce\<close> does.\<close>

definition runs_like ::
    "'w guest_os \<Rightarrow> ExecRequest \<Rightarrow> (string \<Rightarrow> string \<Rightarrow> gint \<Rightarrow> gint \<Rightarrow> 'w \<Rightarrow> outputs \<times> 'w) \<Rightarrow> bool" where
  "runs_like os req run \<longleftrightarrow>
     (\<forall>c inp t w. t = req_TimeLimitMs req \<or> t = req_TimeLimitMs req * 4 \<and> req_CompileCmd req \<noteq> [] \<longrightarrow>
        run c inp t (req_OutputLimitBytes req) w =
          (case runOnce os c inp t (req_MemoryLimitMb req) (req_OutputLimitBytes req) w of
             (r, w') \<Rightarrow> ((rr_stdout r, rr_code r, rr_stderr r, rr_timedOut r), w')))"

lemma runs_likeD:
  assumes "runs_like os req run"
  shows "run c inp (req_TimeLimitMs req) (req_OutputLimitBytes req) w =
      (case runOnce os c inp (req_TimeLimitMs req) (req_MemoryLimitMb req) (req_OutputLimitBytes req) w of
         (r, w') \<Rightarrow> ((rr_stdout r, rr_code r, rr_stderr r, rr_timedOut r), w'))"
    "req_CompileCmd req \<noteq> [] \<Longrightarrow> run c inp (req_TimeLimitMs req * 4) (req_OutputLimitBytes req) w =
      (case runOnce os c inp (req_TimeLimitMs req * 4) (req_MemoryLimitMb req) (req_OutputLimitBytes req) w of
         (r, w') \<Rightarrow> ((rr_stdout r, rr_code r, rr_stderr r, rr_timedOut r), w'))"
  using assms unfolding runs_like_def by blast+

lemma runOnce_failed:
  assumes "exit_codes_ok os" and "runOnce os c inp t m n w = (r, w')"
  shows "rr_code r = 0 \<longleftrightarrow> rr_err r = None"
  using runOnce_code [OF assms(1), of c inp t m n w] assms(2) by simp

lemma test_cases_guest:
  assumes "exit_codes_ok os" and "runs_like os req run"
  shows "run_cases os req ins results w =
    (case test_cases run req ins results w of
       (rs, w') \<Rightarrow> (zero_ExecResponse\<lparr>resp_Results := Some rs\<rparr>, w'))"
proof (induction ins arbitrary: results w)
  case Nil
  then show ?case by simp
next
  case (Cons inp ins)
  obtain r w1 where r: "runOnce os (req_RunCmd req) inp (req_TimeLimitMs req) (req_MemoryLimitMb req)
      (req_OutputLimitBytes req) w = (r, w1)" by fastforce
  have "run_cases os req (inp # ins) results w = run_cases os req ins (results @ [case_result r]) w1"
    using runOnce_failed [OF assms(1) r] by (auto simp: r split: option.split)
  then show ?case
    by (simp add: Cons.IH runs_likeD(1) [OF assms(2)] r case_result_def)
qed

lemma run_tests_guest:
  assumes "exit_codes_ok os" and "runs_like os req run"
    and "fst (os_mkdir_all os (Dir (Join workDir (req_SourceFile req))) w) = None"
    and "os_write_file os (Join workDir (req_SourceFile req)) (req_Source req)
          (snd (os_mkdir_all os (Dir (Join workDir (req_SourceFile req))) w)) = (None, w2)"
  shows "handle os req w = run_tests run req w2"
proof (cases "req_CompileCmd req = []")
  case True
  then show ?thesis
    using assms(3,4) test_cases_guest [OF assms(1,2)]
    by (simp add: handle_def run_tests_def run_request_def Let_def split_beta)
next
  case False
  obtain r w3 where r: "runOnce os (req_CompileCmd req) [] (req_TimeLimitMs req * 4) (req_MemoryLimitMb req)
      (req_OutputLimitBytes req) w2 = (r, w3)" by fastforce
  show ?thesis
    using assms(3,4) False r runOnce_failed [OF assms(1) r]
    by (cases "rr_err r")
      (simp_all add: handle_def run_tests_def run_request_def Let_def split_beta runs_likeD(2) [OF assms(2) False]
        test_cases_guest [OF assms(1,2)] del: run_result_simps)
qed


text \<open>
  A host on which running a command in \<open>dir\<close> as \<open>argv\<close> says, and writing a file under \<open>work\<close>, is
  what running and writing are for the guest.
\<close>

definition looks_like ::
    "'w test_host \<Rightarrow> 'w guest_os \<Rightarrow> string \<Rightarrow> (string \<Rightarrow> string list) \<Rightarrow> string \<Rightarrow> bool" where
  "looks_like h os dir argv work \<longleftrightarrow>
     (\<forall>cmd inp t w. th_run h dir (argv cmd) inp (Some t) w = os_run os cmd inp t w) \<and>
     (\<forall>f b w. th_write h (Join work f) b w = os_write_file os (Join workDir f) b w) \<and>
     (\<forall>d w. os_mkdir_all os d w = (None, w))"

definition positive_limits :: "ExecRequest \<Rightarrow> bool" where
  "positive_limits req \<longleftrightarrow>
     0 < sint (req_TimeLimitMs req * Millisecond) \<and>
     (req_CompileCmd req = [] \<or> 0 < sint (req_TimeLimitMs req * 4 * Millisecond))"

lemma outputs_runOnce:
  "runOnce os c inp t m n w =
    (case os_run os c inp (t * Millisecond) w of
       (o', w') \<Rightarrow> (\<lparr>rr_stdout = capped n (ro_stdout o'), rr_code = exit_code (ro_err o'),
          rr_stderr = capped n (ro_stderr o'), rr_timedOut = ro_deadline o', rr_err = ro_err o'\<rparr>, w'))"
  by (auto simp: runOnce_def exit_code_def Let_def split: prod.split option.split run_error.split)

lemma runs_like_limits:
  assumes "positive_limits req"
    and "\<And>cmd inp t w. run cmd inp t (req_OutputLimitBytes req) w =
      (case os_run os cmd inp (timeout_or d t) w of (o', w') \<Rightarrow> (outputs_of (req_OutputLimitBytes req) o', w'))"
  shows "runs_like os req run"
  using assms(1) unfolding runs_like_def assms(2) outputs_runOnce
  by (auto simp: positive_limits_def timeout_or_def outputs_of_def Let_def split: prod.split)

text \<open>Writing and running, as the guest's handler does them on such a host.\<close>

lemma handle_looks_like:
  assumes "looks_like h os dir argv work" and "exit_codes_ok os" and "runs_like os req run"
    and "th_write h (Join work (req_SourceFile req)) (req_Source req) w = (err, w2)"
  shows "handle os req w =
    (case err of Some m \<Rightarrow> (agent_error (''write source: '' @ m), w2) | None \<Rightarrow> run_tests run req w2)"
proof -
  have os: "os_mkdir_all os d w = (None, w)" for d using assms(1) by (simp add: looks_like_def)
  have wr: "os_write_file os (Join workDir (req_SourceFile req)) (req_Source req) w = (err, w2)"
    using assms(1,4) by (simp add: looks_like_def)
  show ?thesis
  proof (cases err)
    case None
    with run_tests_guest [OF assms(2,3), of w w2] os wr show ?thesis by simp
  next
    case (Some m)
    with os wr show ?thesis by (simp add: handle_def)
  qed
qed

section \<open>Properties\<close>


text \<open>
  So is the docker executor: once the image is there, on a host where a command run in the
  container does what it does in the guest, the response is the agent's.
\<close>

theorem docker_Execute_guest:
  assumes "map_of (de_Images e) lid = Some img" and "img \<noteq> []"
    and "ensureImage h e img (p, w) = (None, p', w')"
    and "th_mktemp h ''dredd-doc-'' w' = (Inr work, w1)"
    and "looks_like h os [] (docker_args h e img work (network_of e img)) work" and "exit_codes_ok os"
    and "positive_limits req"
  shows "docker_Execute h is_print e lid req (p, w) =
    (case handle os req (th_chmod h work w1) of (resp, w2) \<Rightarrow> (Inr resp, p', th_remove_all h work w2))"
proof -
  obtain err w2 where wr: "th_write h (Join work (req_SourceFile req)) (req_Source req) (th_chmod h work w1) = (err, w2)"
    by fastforce
  have "runs_like os req (runDocker h e img work (network_of e img))"
    using assms(5) by (intro runs_like_limits [OF assms(7), where d = "60 * Second"])
      (simp add: runDocker_def looks_like_def Let_def split_beta)
  from handle_looks_like [OF assms(5,6) this wr] show ?thesis
    using assms(1-4) wr by (cases err) (simp_all add: docker_Execute_def split_beta)
qed

text \<open>A host and a guest that echo the command.\<close>

definition echo_outcome :: "string \<Rightarrow> run_outcome" where
  "echo_outcome cmd = \<lparr>ro_stdout = [cmd], ro_stderr = [], ro_err = None, ro_deadline = False\<rparr>"

definition echo_host :: "unit test_host" where
  "echo_host = \<lparr>th_uid = 1000, th_gid = 1000, th_mktemp = (\<lambda>p w. (Inr ''/tmp/d'', w)), th_chmod = (\<lambda>_ w. w),
     th_write = (\<lambda>_ _ w. (None, w)), th_remove_all = (\<lambda>_ w. w), th_run = (\<lambda>_ argv _ _ w. (echo_outcome (last argv), w))\<rparr>"

definition echo_guest :: "unit guest_os" where
  "echo_guest = \<lparr>os_mkdir_all = (\<lambda>_ w. (None, w)), os_write_file = (\<lambda>_ _ w. (None, w)),
     os_run = (\<lambda>cmd _ _ w. (echo_outcome cmd, w))\<rparr>"

lemma echo_exit_codes: "exit_codes_ok echo_guest"
  by (simp add: exit_codes_ok_def echo_guest_def echo_outcome_def)

lemma echo_looks_like:
  "(\<And>cmd. last (argv cmd) = cmd) \<Longrightarrow> looks_like echo_host echo_guest dir argv work"
  by (simp add: looks_like_def echo_host_def echo_guest_def)

definition second_request :: ExecRequest where
  "second_request = zero_ExecRequest\<lparr>req_RunCmd := ''hi'', req_Stdins := Some [[]], req_TimeLimitMs := 1000,
     req_OutputLimitBytes := 10\<rparr>"

lemma second_limits: "positive_limits second_request"
  by (simp add: positive_limits_def second_request_def zero_ExecRequest_def Millisecond_def)

lemma echo_handle:
  "handle echo_guest second_request () =
    (zero_ExecResponse\<lparr>resp_Results := Some [zero_CaseResult\<lparr>cr_Stdout := ''hi''\<rparr>]\<rparr>, ())"
  by (simp add: handle_def second_request_def zero_ExecRequest_def echo_guest_def run_request_def runOnce_def
      echo_outcome_def case_result_def capped_take zero_CaseResult_def)


lemma docker_Execute_guest_witness:
  "fst (docker_Execute echo_host (\<lambda>_. True) (NewDockerExecutor [(''sh'', ''alpine'')]) ''sh'' second_request ({}, ())) =
    Inr (zero_ExecResponse\<lparr>resp_Results := Some [zero_CaseResult\<lparr>cr_Stdout := ''hi''\<rparr>]\<rparr>)"
proof -
  let ?e = "NewDockerExecutor [(''sh'', ''alpine'')]"
  have "map_of (de_Images ?e) ''sh'' = Some ''alpine''" by (simp add: NewDockerExecutor_def)
  moreover have "ensureImage echo_host ?e ''alpine'' ({}, ()) = (None, {''alpine''}, ())"
    by (simp add: ensureImage_def localHas_def echo_host_def echo_outcome_def)
  moreover have "th_mktemp echo_host ''dredd-doc-'' () = (Inr ''/tmp/d'', ())" by (simp add: echo_host_def)
  moreover have "looks_like echo_host echo_guest [] (docker_args echo_host ?e ''alpine'' ''/tmp/d'' n) ''/tmp/d''" for n
    by (rule echo_looks_like) (simp add: docker_args_def)
  ultimately show ?thesis
    using docker_Execute_guest [of ?e "''sh''" "''alpine''" echo_host "{}" "()" "{''alpine''}" "()" "''/tmp/d''" "()" echo_guest
        second_request "\<lambda>_. True"] echo_exit_codes second_limits
    by (simp add: echo_handle)
qed


section \<open>Images\<close>

lemma ensureImage_effect:
  "ensureImage h e img (p, w) = (err, p', w') \<Longrightarrow>
    p' = (if err = None then insert img p else p)"
  by (auto simp: ensureImage_def split: if_splits prod.splits bool.splits option.splits)

lemma ensureImage_known: "img \<in> p \<Longrightarrow> ensureImage h e img (p, w) = (None, p, w)"
  by (simp add: ensureImage_def)

lemma prewarm_loop_effect:
  "prewarm_loop h e imgs seen (p, w) = (err, p', w') \<Longrightarrow>
    p \<subseteq> p' \<and> (err = None \<longrightarrow> set imgs - seen \<subseteq> p') \<and>
    (err \<noteq> None \<longrightarrow> (\<exists>img \<in> set imgs. img \<notin> p' \<and> prefix (''pull '' @ img @ '': '') (the err)))"
proof (induction imgs arbitrary: seen p w)
  case Nil
  then show ?case by simp
next
  case (Cons img imgs)
  show ?case
  proof (cases "img \<in> seen")
    case True
    then show ?thesis using Cons.IH [of seen p w] Cons.prems by auto
  next
    case False
    obtain r p1 w1 where r: "ensureImage h e img (p, w) = (r, p1, w1)" by (metis prod.collapse)
    note p1 = ensureImage_effect [OF r]
    show ?thesis
    proof (cases r)
      case None
      then have "prewarm_loop h e imgs (insert img seen) (p1, w1) = (err, p', w')"
        using Cons.prems False r by simp
      from Cons.IH [OF this] p1 None show ?thesis by auto
    next
      case (Some m)
      then have "p' = p1" "err = Some (''pull '' @ img @ '': '' @ m)" using Cons.prems False r by auto
      moreover have "img \<notin> p"
        using r Some ensureImage_known [of img p h e w] by (cases "img \<in> p") auto
      ultimately show ?thesis using p1 Some by (intro conjI impI bexI [of _ img]) auto
    qed
  qed
qed

text \<open>
  Images are fetched once: after \<^verbatim>\<open>PrewarmImages\<close> has succeeded, the image of every language
  in the catalogue is known, so that no later call of \<^verbatim>\<open>Execute\<close> inspects or pulls anything
  before it runs; when it fails, the error names an image of the catalogue that is not known.
\<close>

theorem PrewarmImages_ensures:
  assumes "PrewarmImages h e (p, w) = (err, p', w')"
  shows "case err of
      None \<Rightarrow> list_all (\<lambda>(lid, img). ensureImage h e img (p', w'') = (None, p', w'')) (de_Images e)
    | Some m \<Rightarrow> list_ex (\<lambda>(lid, img). img \<notin> p' \<and> prefix (''pull '' @ img @ '': '') m) (de_Images e)"
  using prewarm_loop_effect [OF assms [unfolded PrewarmImages_def]]
  by (cases err) (force simp: list_all_iff list_ex_iff intro: ensureImage_known)+

lemma PrewarmImages_ensures_witness:
  "ensureImage echo_host (NewDockerExecutor [(''sh'', ''alpine'')]) ''alpine'' ({''alpine''}, ()) = (None, {''alpine''}, ())"
proof -
  have "PrewarmImages echo_host (NewDockerExecutor [(''sh'', ''alpine'')]) ({}, ()) = (None, {''alpine''}, ())"
    by (simp add: PrewarmImages_def NewDockerExecutor_def ensureImage_def localHas_def echo_host_def echo_outcome_def)
  from PrewarmImages_ensures [OF this, of "()"] show ?thesis by (simp add: NewDockerExecutor_def)
qed

lemma missing_loop_effect:
  assumes "\<And>img w. fst (localHas h e img w) = here img" and "\<And>img w. (fst (pull h e img w) = None) = pullable img"
  shows "distinct missing \<Longrightarrow> set missing \<subseteq> seen \<Longrightarrow> missing_loop h e imgs seen missing w = (ms, w') \<Longrightarrow>
    distinct ms \<and> set ms = set missing \<union> {img \<in> set imgs - seen. \<not> here img \<and> \<not> pullable img}"
proof (induction imgs arbitrary: seen missing w)
  case Nil
  then show ?case by simp
next
  case (Cons img imgs)
  obtain b w1 where b: "localHas h e img w = (b, w1)" by fastforce
  obtain r w2 where r: "pull h e img w1 = (r, w2)" by fastforce
  have h: "b = here img" "(r = None) = pullable img"
    using assms(1) [of img w] assms(2) [of img w1] b r by simp_all
  show ?case
  proof (cases "img \<in> seen \<or> here img \<or> pullable img")
    case True
    then obtain w3 where "missing_loop h e imgs (insert img seen) missing w3 = (ms, w')"
      using Cons.prems(3) b r h by (cases r) (auto simp: insert_absorb split: if_splits bool.splits)
    from Cons.IH [OF Cons.prems(1) _ this] True Cons.prems(2) show ?thesis by auto
  next
    case False
    then have "missing_loop h e imgs (insert img seen) (missing @ [img]) w2 = (ms, w')"
      using Cons.prems(3) b r h by (cases r) simp_all
    moreover have "distinct (missing @ [img])" "set (missing @ [img]) \<subseteq> insert img seen"
      using False Cons.prems(1,2) by auto
    ultimately show ?thesis using Cons.IH [of "missing @ [img]" "insert img seen" w2] False by auto
  qed
qed

text \<open>
  \<^verbatim>\<open>MissingImages\<close> lists exactly the images that are neither present nor can be pulled, each
  once, where presence and pulling do not depend on the moment.
\<close>

theorem MissingImages_exact:
  assumes "\<And>img w. fst (localHas h e img w) = here img" and "\<And>img w. (fst (pull h e img w) = None) = pullable img"
    and "MissingImages h e w = (ms, w')"
  shows "distinct ms \<and> set ms = {img. img \<in> snd ` set (de_Images e) \<and> \<not> here img \<and> \<not> pullable img}"
  using missing_loop_effect [OF assms(1,2) _ _ assms(3) [unfolded MissingImages_def]] by auto

section \<open>The counter of failures\<close>

text \<open>The outcomes of a row of calls.\<close>

fun outcomes :: "'e executor \<Rightarrow> string \<Rightarrow> ExecRequest \<Rightarrow> nat \<Rightarrow> 'e \<Rightarrow> (string + ExecResponse) list" where
  "outcomes exe lid req 0 e = []"
| "outcomes exe lid req (Suc k) e =
     (case exe lid req e of (out, e') \<Rightarrow> out # outcomes exe lid req k e')"

lemma length_outcomes [simp]: "length (outcomes exe lid req k e) = k"
  by (induction k arbitrary: e) (simp_all split: prod.split)

lemma flaky_nth:
  assumes "\<And>e. \<not> isl (fst (inner lid req e))"
  shows "i < k \<Longrightarrow> isl (outcomes (flaky_Execute inner) lid req k (n, e) ! i) \<longleftrightarrow> 0 \<le> sint (n - of_nat (Suc i))"
proof (induction k arbitrary: i n e)
  case (Suc k)
  obtain out e' where x: "inner lid req e = (out, e')" by fastforce
  have out: "\<not> isl out" using assms [of e] x by simp
  show ?case
  proof (cases i)
    case 0
    then show ?thesis using out x by (simp add: flaky_Execute_def Let_def)
  next
    case (Suc j)
    have "n - 1 - of_nat (Suc j) = n - of_nat (Suc (Suc j))" by simp
    with Suc.IH [of j "n - 1"] Suc.prems Suc show ?thesis
      by (simp add: flaky_Execute_def Let_def x del: of_nat_Suc)
  qed
qed simp

lemma sint_sub_nat:
  fixes n :: "32 word"
  assumes "0 \<le> sint n" and "int k \<le> sint n + 2 ^ 31"
  shows "sint (n - of_nat k) = sint n - int k"
proof -
  have "sint n < 2 ^ 31" using sint_lt [of n] by simp
  moreover have "n - of_nat k = word_of_int (sint n - int k)" by simp
  ultimately show ?thesis
    using assms by (simp only: sint_sbintrunc') (simp add: signed_take_bit_int_eq_self)
qed

text \<open>
  The counter wraps: with an inner executor that does not fail and a count of \<open>n\<close>, exactly
  the first \<open>n\<close> calls fail, until after \<open>2 ^ 31\<close> more calls the 32-bit counter turns from its
  least value to its greatest and the next call fails again.
\<close>

theorem flaky_Execute_counts:
  assumes "0 \<le> sint n" and "\<And>e. \<not> isl (fst (inner lid req e))" and "i < k"
  shows "(int i < sint n + 2 ^ 31 \<longrightarrow>
      isl (outcomes (flaky_Execute inner) lid req k (n, e) ! i) = (int i < sint n)) \<and>
    (int i = sint n + 2 ^ 31 \<longrightarrow> isl (outcomes (flaky_Execute inner) lid req k (n, e) ! i))"
proof (intro conjI impI)
  assume "int i < sint n + 2 ^ 31"
  then have "sint (n - of_nat (Suc i)) = sint n - int (Suc i)"
    by (intro sint_sub_nat [OF assms(1)]) simp
  then show "isl (outcomes (flaky_Execute inner) lid req k (n, e) ! i) = (int i < sint n)"
    using flaky_nth [where inner = inner, OF assms(2,3), of n e] by auto
next
  assume i: "int i = sint n + 2 ^ 31"
  have "n - of_nat (Suc i) = word_of_int (sint n - int (Suc i))" by simp
  then have "n - of_nat (Suc i) = word_of_int (- (2 ^ 31) - 1)" unfolding of_nat_Suc i by simp
  then have "sint (n - of_nat (Suc i)) = 2 ^ 31 - 1" by (simp only: sint_sbintrunc') simp
  then show "isl (outcomes (flaky_Execute inner) lid req k (n, e) ! i)"
    using flaky_nth [where inner = inner, OF assms(2,3), of n e] by simp
qed


definition steady :: "unit executor" where
  "steady lid req e = (Inr zero_ExecResponse, e)"

lemma flaky_Execute_counts_witness:
  "map isl (outcomes (flaky_Execute steady) [] zero_ExecRequest 2 (1, ())) = [True, False]"
proof -
  have s: "\<not> isl (fst (steady [] zero_ExecRequest e))" for e by (simp add: steady_def)
  show ?thesis
    using flaky_Execute_counts [of 1 steady "[]" zero_ExecRequest 0 2 "()"]
      flaky_Execute_counts [of 1 steady "[]" zero_ExecRequest 1 2 "()"] s
    by (simp add: numeral_2_eq_2 split_beta)
qed

text \<open>
  One simulated failure is survived and two are not: a worker's two attempts on an executor
  that fails \<open>n\<close> times first come to the outcome of the inner executor for \<open>n = 1\<close>, and to the
  simulated failure, which the job then reports, for every \<open>n\<close> from 2 on.
\<close>

theorem worker_survives_one_failure:
  assumes "0 < sint n"
  shows "attempts (flaky_Execute inner) lid req maxAttempts [] (n, e) =
    (if n = 1 then (case inner lid req e of (out, e') \<Rightarrow> (out, - 1, e'))
     else (Inl ''simulated VM failure'', n - 2, e))"
proof -
  have lt: "sint n < 2 ^ 31" using sint_lt [of n] by simp
  have 1: "sint (n - 1) = sint n - 1" using sint_sub_nat [of n 1] assms by simp
  have 2: "sint (n - 1 - 1) = sint n - 2" using sint_sub_nat [of n 2] assms lt by simp
  show ?thesis
  proof (cases "sint n = 1")
    case True
    have "n = 1" using arg_cong [OF True, of "word_of_int :: int \<Rightarrow> 32 word"] by (simp add: scast_id)
    then show ?thesis by (simp add: attempts_two flaky_Execute_def split_beta)
  next
    case False
    then have "n \<noteq> 1" by auto
    moreover have "0 \<le> sint (n - 1)" "0 \<le> sint (n - 1 - 1)" using False assms 1 2 by linarith+
    ultimately show ?thesis
      by (simp only: attempts_two flaky_Execute_def Let_def prod.case sum.case if_True if_False) simp
  qed
qed

lemma worker_survives_one_failure_witness:
  "v_status (verdict_of (fst (attempts (flaky_Execute steady) [] zero_ExecRequest maxAttempts [] (2, ())))) = StatusFailed"
  using worker_survives_one_failure [of 2 steady "[]" zero_ExecRequest "()"]
  by (simp add: verdict_of_def failed_def)

end
