(* ===== verification/Go_Json_Indent.thy ===== *)
theory Go_Json_Indent
  imports Go_Json_RT
begin

text \<open>
  \<^verbatim>\<open>json.MarshalIndent(v, "", "  ")\<close>: one element per line, two spaces per level, and a space
  after each key. Reading it back gives what reading the compact form gives.
\<close>

definition nl :: "nat \<Rightarrow> string" where
  "nl d = CHR 0x0A # replicate (2 * d) (CHR '' '')"

definition block :: "nat \<Rightarrow> char \<Rightarrow> char \<Rightarrow> string list \<Rightarrow> string" where
  "block d open close xs =
     (case xs of
        [] \<Rightarrow> [open, close]
      | x # ys \<Rightarrow> open # nl (Suc d) @ x @ concat (map (\<lambda>y. CHR '','' # nl (Suc d) @ y) ys) @ nl d @ [close])"

primrec jindent :: "json \<Rightarrow> nat \<Rightarrow> string" where
  "jindent JNull d = ''null''"
| "jindent (JBool b) d = (if b then ''true'' else ''false'')"
| "jindent (JNum n) d = n"
| "jindent (JStr s) d = json_quote s"
| "jindent (JArr vs) d = block d (CHR ''['') (CHR '']'') (map (\<lambda>f. f (Suc d)) (map jindent vs))"
| "jindent (JObj kvs) d = block d (CHR 0x7B) (CHR 0x7D)
     (map (\<lambda>(k, f). json_quote k @ '': '' @ f (Suc d)) (map (map_prod id jindent) kvs))"

lemma ws_nl: "list_all is_ws (nl d)"
  by (simp add: nl_def is_ws_def list_all_iff)

lemma jrun_ws: "list_all is_ws w \<Longrightarrow> jrun fs p (w @ s) = jrun fs p s"
proof -
  assume "list_all is_ws w"
  then have "skip_ws (w @ s) = skip_ws s" by (induction w) auto
  then show ?thesis by (subst (1 2) jrun.simps) simp
qed

lemma jrun_nl [simp]: "jrun fs p (nl d @ s) = jrun fs p s"
  by (rule jrun_ws [OF ws_nl])

lemma jrun_space: "jrun fs p (CHR '' '' # s) = jrun fs p s"
  using jrun_ws [of "[CHR '' '']"] by (simp add: is_ws_def)

lemma num_end_nl [simp]: "num_end (nl d @ s)"
  by (simp add: nl_def)

definition indent_ok :: "json \<Rightarrow> bool" where
  "indent_ok v \<longleftrightarrow> (\<forall>d fs p r. opens_value p \<longrightarrow> num_end r \<longrightarrow> length fs + jdepth v \<le> max_depth \<longrightarrow>
     jrun fs p (jindent v d @ r) = jact (jpush fs (jfix v)) r)"

lemma indent_okD:
  "indent_ok v \<Longrightarrow> opens_value p \<Longrightarrow> num_end r \<Longrightarrow> length fs + jdepth v \<le> max_depth
    \<Longrightarrow> jrun fs p (jindent v d @ r) = jact (jpush fs (jfix v)) r"
  by (simp add: indent_ok_def)

lemma indent_array_tail:
  assumes "\<forall>v \<in> set vs. indent_ok v \<and> Suc (length fs + jdepth v) \<le> max_depth"
  shows "jrun (FArr acc # fs) ESep
      (concat (map (\<lambda>y. CHR '','' # nl e @ y) (map (\<lambda>v. jindent v e) vs)) @ nl d @ CHR '']'' # r)
    = jact (jpush fs (JArr (acc @ map jfix vs))) r"
  using assms
proof (induction vs arbitrary: acc)
  case Nil
  then show ?case by (simp add: jrun_punct)
next
  case (Cons v vs)
  have "num_end (concat (map (\<lambda>y. CHR '','' # nl e @ y) (map (\<lambda>v. jindent v e) vs)) @ nl d @ CHR '']'' # r)"
    by (cases vs) simp_all
  with Cons show ?case by (simp add: jrun_punct indent_okD)
qed

lemma indent_key:
  assumes "p = EKeyOrEnd \<or> p = EKey"
  shows "jrun (FObj acc k0 # fs) p (json_quote k @ CHR '':'' # CHR '' '' # u)
    = jrun (FObj acc (utf8_fix k) # fs) EValue u"
  using jrun_key [OF assms] by (simp add: jrun_space)

lemma indent_object_tail:
  assumes "\<forall>(k, v) \<in> set kvs. indent_ok v \<and> Suc (length fs + jdepth v) \<le> max_depth"
  shows "jrun (FObj acc k0 # fs) ESep
      (concat (map (\<lambda>y. CHR '','' # nl e @ y) (map (\<lambda>(k, v). json_quote k @ '': '' @ jindent v e) kvs))
        @ nl d @ CHR 0x7D # r)
    = jact (jpush fs (JObj (acc @ map (\<lambda>(k, v). (utf8_fix k, jfix v)) kvs))) r"
  using assms
proof (induction kvs arbitrary: acc k0)
  case Nil
  then show ?case by (simp add: jrun_punct)
next
  case (Cons kv kvs)
  obtain k v where kv: "kv = (k, v)" by fastforce
  have "num_end (concat (map (\<lambda>y. CHR '','' # nl e @ y)
      (map (\<lambda>(k, v). json_quote k @ '': '' @ jindent v e) kvs)) @ nl d @ CHR 0x7D # r)"
    by (cases kvs) simp_all
  with Cons kv show ?case by (simp add: jrun_punct indent_key indent_okD)
qed

lemma indent_ok_array:
  assumes "\<forall>v \<in> set vs. indent_ok v"
  shows "indent_ok (JArr vs)"
  unfolding indent_ok_def
proof (intro allI impI)
  fix d and fs :: "jframe list" and p r
  assume p: "opens_value p" and dp: "length fs + jdepth (JArr vs) \<le> max_depth"
  have ok: "\<forall>v \<in> set vs. indent_ok v \<and> Suc (length fs + jdepth v) \<le> max_depth"
    using assms jdepth_in(1) [of _ vs] dp by fastforce
  have o: "jrun fs p (CHR ''['' # u) = jrun (FArr [] # fs) EValueOrEnd u" for u
    using jrun_open(1) [OF p] dp by simp
  show "jrun fs p (jindent (JArr vs) d @ r) = jact (jpush fs (jfix (JArr vs))) r"
  proof (cases vs)
    case Nil
    then show ?thesis by (simp add: o block_def jrun_punct)
  next
    case (Cons v ws)
    have "num_end (concat (map (\<lambda>y. CHR '','' # nl (Suc d) @ y) (map (\<lambda>v. jindent v (Suc d)) ws))
        @ nl d @ CHR '']'' # r)"
      by (cases ws) simp_all
    with Cons ok show ?thesis
      using indent_array_tail [of ws fs "[jfix v]" "Suc d" d r]
      by (simp add: o block_def indent_okD comp_def)
  qed
qed

lemma indent_ok_object:
  assumes "\<forall>(k, v) \<in> set kvs. indent_ok v"
  shows "indent_ok (JObj kvs)"
  unfolding indent_ok_def
proof (intro allI impI)
  fix d and fs :: "jframe list" and p r
  assume p: "opens_value p" and dp: "length fs + jdepth (JObj kvs) \<le> max_depth"
  have ok: "\<forall>(k, v) \<in> set kvs. indent_ok v \<and> Suc (length fs + jdepth v) \<le> max_depth"
    using assms jdepth_in(2) [of _ _ kvs] dp by fastforce
  have o: "jrun fs p (CHR 0x7B # u) = jrun (FObj [] [] # fs) EKeyOrEnd u" for u
    using jrun_open(2) [OF p] dp by simp
  have txts: "map (\<lambda>(k, f). json_quote k @ '': '' @ f (Suc d)) (map (map_prod id jindent) ws)
    = map (\<lambda>(k, v). json_quote k @ '': '' @ jindent v (Suc d)) ws" for ws
    by (simp add: comp_def case_prod_beta)
  have val: "jfix (JObj ws) = JObj (map (\<lambda>(k, v). (utf8_fix k, jfix v)) ws)" for ws
    by (simp add: comp_def case_prod_beta)
  show "jrun fs p (jindent (JObj kvs) d @ r) = jact (jpush fs (jfix (JObj kvs))) r"
  proof (cases kvs)
    case Nil
    then show ?thesis by (simp add: o block_def jrun_punct)
  next
    case (Cons kv ws)
    obtain k v where kv: "kv = (k, v)" by fastforce
    have "num_end (concat (map (\<lambda>y. CHR '','' # nl (Suc d) @ y)
        (map (\<lambda>(k, v). json_quote k @ '': '' @ jindent v (Suc d)) ws)) @ nl d @ CHR 0x7D # r)"
      by (cases ws) simp_all
    with Cons kv ok show ?thesis
      using indent_object_tail [of ws fs "[(utf8_fix k, jfix v)]" "utf8_fix k" "Suc d" d r]
      unfolding jindent.simps txts val by (simp add: o block_def indent_key indent_okD)
  qed
qed

lemma json_ok_indent_ok: "json_ok v \<Longrightarrow> indent_ok v"
proof (induction v)
  case (JArr vs)
  then show ?case by (intro indent_ok_array) (auto simp: list_all_iff)
next
  case (JObj kvs)
  then show ?case by (intro indent_ok_object) (fastforce simp: list_all_iff)
next
  case (JNum n)
  then obtain w where "n = itoa w" by (auto split: option.splits)
  then show ?case by (simp add: indent_ok_def jrun_itoa)
qed (auto simp: indent_ok_def jrun_lit [simplified] jrun_string)

lemma json_parse_jindent:
  assumes "json_ok v" and "jdepth v \<le> max_depth"
  shows "json_parse (jindent v 0 @ [CHR 0x0A]) = Some (jfix v)"
proof -
  have "jrun [] EValue (jindent v 0 @ [CHR 0x0A]) = Done (jfix v) [CHR 0x0A]"
    using indent_okD [OF json_ok_indent_ok [OF assms(1)], of EValue "[CHR 0x0A]" "[]" 0] assms(2) by simp
  then show ?thesis by (simp add: json_parse_def is_ws_def)
qed

end
