(* ===== verification/Dredd_Build.thy ===== *)
theory Dredd_Build
  imports Langs Config Go_Json_Indent "HOL-Library.Sublist"
begin

text \<open>
  \<^verbatim>\<open>cmd/dredd-build/main.go\<close>: the set-up command. Building a rootfs is a script of host
  commands with deferred clean-ups; an oracle says which command fails. \<open>appendLanguage\<close>
  rewrites the languages file. The flag package has parsed the arguments: its values are a
  record.
\<close>

definition envOr :: "(string \<rightharpoonup> string) \<Rightarrow> string \<Rightarrow> string \<Rightarrow> string" where
  "envOr e key def = (case e key of Some v \<Rightarrow> if v \<noteq> [] then v else def | None \<Rightarrow> def)"

definition firstNonEmpty :: "string \<Rightarrow> string \<Rightarrow> string" where
  "firstNonEmpty a b = (if a \<noteq> [] then a else b)"

section \<open>Building a rootfs\<close>

datatype host_cmd =
    MkTemp
  | RemoveAll string
  | Run "string list"
  | RunRedirect string "string list"
  | ReadFile string
  | MkdirAll string
  | CopyFile string string

text \<open>A step: the command, what its error is prefixed with, and the clean-ups deferred after it.\<close>

type_synonym step = "host_cmd \<times> string \<times> host_cmd list"

text \<open>
  Steps run until one fails; then, or at the end, the deferred commands run, last deferred
  first, and their errors are ignored. The result is the error and the commands that ran.
\<close>

fun run_script :: "(host_cmd \<Rightarrow> string option) \<Rightarrow> step list \<Rightarrow> host_cmd list \<Rightarrow> string option \<times> host_cmd list" where
  "run_script fails [] deferred = (None, deferred)"
| "run_script fails ((c, label, ds) # steps) deferred =
     (case fails c of
        Some e \<Rightarrow> (Some (label @ e), c # deferred)
      | None \<Rightarrow>
          (case run_script fails steps (ds @ deferred) of (err, trace) \<Rightarrow> (err, c # trace)))"

definition rootfs_steps :: "string \<Rightarrow> string \<Rightarrow> string \<Rightarrow> string \<Rightarrow> string \<Rightarrow> gint \<Rightarrow> step list" where
  "rootfs_steps tmp cid img agentBin outPath sizeMB =
     (let cidFile = Join tmp ''cid''; tarPath = Join tmp ''rootfs.tar''; mnt = Join tmp ''mnt'' in
      [(MkTemp, [], [RemoveAll tmp]),
       (Run [''docker'', ''create'', ''--cidfile'', cidFile, img, ''true''], ''docker create: '', []),
       (ReadFile cidFile, [], [Run [''docker'', ''rm'', ''-f'', cid]]),
       (RunRedirect tarPath [''docker'', ''export'', cid], ''docker export: '', []),
       (Run [''dd'', ''if=/dev/zero'', ''of='' @ outPath, ''bs=1M'', ''count='' @ itoa sizeMB, ''status=none''], ''dd: '', []),
       (Run [''mkfs.ext4'', ''-q'', ''-F'', outPath], ''mkfs.ext4: '', []),
       (MkdirAll mnt, [], []),
       (Run [''mount'', ''-o'', ''loop'', outPath, mnt], ''mount: '', [Run [''umount'', mnt]]),
       (Run [''tar'', ''-xf'', tarPath, ''-C'', mnt], ''untar: '', []),
       (MkdirAll (Join mnt ''sbin''), [], []),
       (CopyFile agentBin (Join (Join mnt ''sbin'') ''dreddagent-init''), ''install agent: '', []),
       (MkdirAll (Join mnt ''work''), [], [])])"

definition buildRootfs ::
    "(host_cmd \<Rightarrow> string option) \<Rightarrow> string \<Rightarrow> string \<Rightarrow> string \<Rightarrow> string \<Rightarrow> string \<Rightarrow> gint \<Rightarrow> string option \<times> host_cmd list" where
  "buildRootfs fails tmp cid img agentBin outPath sizeMB =
     run_script fails (rootfs_steps tmp cid img agentBin outPath sizeMB) []"

section \<open>The languages file\<close>

text \<open>The first entry with the id is replaced, a new id is appended.\<close>

fun upsert :: "Language \<Rightarrow> Language list \<Rightarrow> Language list" where
  "upsert l [] = [l]"
| "upsert l (x # xs) = (if lang_ID x = lang_ID l then l # xs else x # upsert l xs)"

text \<open>
  A file that cannot be read, or is empty, counts as having no entries. The result is the
  error and the contents written, if the write was reached.
\<close>

definition appendLanguage ::
    "(host_cmd \<Rightarrow> string option) \<Rightarrow> (string \<Rightarrow> string) \<Rightarrow> string option \<Rightarrow> string + string \<Rightarrow> string \<Rightarrow> Language
      \<Rightarrow> string option \<times> string option" where
  "appendLanguage fails json_err write_err old path l =
     (let parsed = (case old of
                      Inr b \<Rightarrow> if 0 < length b then decode_languages b else Some None
                    | Inl _ \<Rightarrow> Some None)
      in case parsed of
           None \<Rightarrow> (Some (''parse existing '' @ path @ '': '' @ json_err path), None)
         | Some list \<Rightarrow>
             (let out = jindent (enc_slice enc_Language (Some (upsert l (elems list)))) 0 @ [CHR 0x0A]
              in case fails (MkdirAll (Dir path)) of
                   Some e \<Rightarrow> (Some e, None)
                 | None \<Rightarrow> (write_err, Some out)))"

section \<open>The add command\<close>

record add_flags =
  af_image :: string
  af_id :: string
  af_name :: string
  af_version :: string
  af_source :: string
  af_run :: string
  af_compile :: string
  af_size_mb :: gint
  af_rootfs_dir :: string
  af_agent :: string
  af_languages_file :: string

definition add_defaults :: "(string \<rightharpoonup> string) \<Rightarrow> add_flags" where
  "add_defaults e =
     \<lparr>af_image = [], af_id = [], af_name = [], af_version = [], af_source = [], af_run = [],
      af_compile = [], af_size_mb = 1024,
      af_rootfs_dir = envOr e ''DREDD_ROOTFS_DIR'' ''/var/lib/dredd/rootfs'',
      af_agent = envOr e ''DREDD_AGENT_BINARY'' [],
      af_languages_file = envOr e ''DREDD_LANGUAGES_FILE'' []\<rparr>"

definition missing_flags :: "add_flags \<Rightarrow> bool" where
  "missing_flags f \<longleftrightarrow> af_image f = [] \<or> af_id f = [] \<or> af_source f = [] \<or> af_run f = [] \<or>
     af_agent f = [] \<or> af_languages_file f = []"

definition rootfs_path :: "add_flags \<Rightarrow> string" where
  "rootfs_path f = Join (af_rootfs_dir f) (af_id f @ ''.ext4'')"

definition new_language :: "add_flags \<Rightarrow> Language" where
  "new_language f =
     \<lparr>lang_ID = af_id f, lang_Name = firstNonEmpty (af_name f) (af_id f), lang_Version = af_version f,
      lang_Rootfs = Base (rootfs_path f), lang_SourceFile = af_source f,
      lang_CompileCmd = af_compile f, lang_RunCmd = af_run f\<rparr>"

datatype exit = Usage | Fatal string | Added string string

text \<open>\<^verbatim>\<open>cmdAdd\<close>: how it ends, the commands of the build, and what was written to the file.\<close>

definition cmdAdd ::
    "(host_cmd \<Rightarrow> string option) \<Rightarrow> (string \<Rightarrow> string) \<Rightarrow> string option \<Rightarrow> string + string
      \<Rightarrow> string \<Rightarrow> string \<Rightarrow> add_flags \<Rightarrow> exit \<times> host_cmd list \<times> string option" where
  "cmdAdd fails json_err write_err old tmp cid f =
     (if missing_flags f then (Usage, [], None)
      else case fails (MkdirAll (af_rootfs_dir f)) of
             Some e \<Rightarrow> (Fatal (''rootfs-dir: '' @ e), [MkdirAll (af_rootfs_dir f)], None)
           | None \<Rightarrow>
               (case buildRootfs fails tmp cid (af_image f) (af_agent f) (rootfs_path f) (af_size_mb f) of
                  (Some e, trace) \<Rightarrow> (Fatal (''build rootfs: '' @ e), MkdirAll (af_rootfs_dir f) # trace, None)
                | (None, trace) \<Rightarrow>
                    (case appendLanguage fails json_err write_err old (af_languages_file f) (new_language f) of
                       (Some e, out) \<Rightarrow>
                         (Fatal (''update languages file: '' @ e), MkdirAll (af_rootfs_dir f) # trace, out)
                     | (None, out) \<Rightarrow> (Added (af_id f) (rootfs_path f), MkdirAll (af_rootfs_dir f) # trace, out))))"

text \<open>\<^verbatim>\<open>main\<close>: only \<open>add\<close> does anything.\<close>

definition runs_add :: "string list \<Rightarrow> bool" where
  "runs_add args \<longleftrightarrow> 2 \<le> length args \<and> args ! 1 = ''add''"

section \<open>Scripts\<close>

fun clean_ups :: "step list \<Rightarrow> host_cmd list" where
  "clean_ups [] = []"
| "clean_ups ((_, _, ds) # steps) = clean_ups steps @ ds"

text \<open>
  What ran: the first steps, and the clean-ups of those that succeeded, last first. The script
  succeeds exactly when every command does.
\<close>

lemma run_script_trace:
  assumes "run_script fails steps deferred = (err, trace)"
  shows "\<exists>n \<le> length steps. (\<forall>(c, _) \<in> set (take n steps). fails c = None) \<and>
    (if err = None then n = length steps \<and> trace = map fst steps @ clean_ups steps @ deferred
     else n < length steps \<and> fails (fst (steps ! n)) \<noteq> None \<and>
          trace = map fst (take (Suc n) steps) @ clean_ups (take n steps) @ deferred)"
  using assms
proof (induction steps arbitrary: deferred trace)
  case Nil
  then show ?case by simp
next
  case (Cons st steps)
  obtain c label ds where st: "st = (c, label, ds)" by (metis prod.collapse)
  show ?case
  proof (cases "fails c")
    case (Some e)
    then show ?thesis using Cons.prems st by (intro exI [of _ 0]) auto
  next
    case None
    then obtain trace' where r: "run_script fails steps (ds @ deferred) = (err, trace')" "trace = c # trace'"
      using Cons.prems st by (auto split: prod.splits)
    obtain n where "n \<le> length steps" "\<forall>(c, _) \<in> set (take n steps). fails c = None"
      "if err = None then n = length steps \<and> trace' = map fst steps @ clean_ups steps @ ds @ deferred
       else n < length steps \<and> fails (fst (steps ! n)) \<noteq> None \<and>
          trace' = map fst (take (Suc n) steps) @ clean_ups (take n steps) @ ds @ deferred"
      using Cons.IH [OF r(1)] by blast
    then show ?thesis
      using None r(2) st by (intro exI [of _ "Suc n"]) (auto split: if_splits)
  qed
qed

lemma run_script_cong:
  "(\<And>c. c \<in> fst ` set steps \<Longrightarrow> fails c = fails' c) \<Longrightarrow> run_script fails steps ds = run_script fails' steps ds"
  by (induction fails steps ds rule: run_script.induct) (auto split: option.split)

text \<open>The clean-ups that are due after the first \<open>n\<close> steps of the build.\<close>

definition due :: "string \<Rightarrow> string \<Rightarrow> nat \<Rightarrow> host_cmd list" where
  "due tmp cid n =
     (if 8 \<le> n then [Run [''umount'', Join tmp ''mnt'']] else []) @
     (if 3 \<le> n then [Run [''docker'', ''rm'', ''-f'', cid]] else []) @
     (if 1 \<le> n then [RemoveAll tmp] else [])"

lemma length_rootfs_steps [simp]: "length (rootfs_steps tmp cid img ab out mb) = 12"
  by (simp add: rootfs_steps_def Let_def)

lemma clean_ups_due: "n \<le> 12 \<Longrightarrow> clean_ups (take n (rootfs_steps tmp cid img ab out mb)) = due tmp cid n"
proof -
  assume "n \<le> 12"
  then have "n \<in> {0, 1, 2, 3, 4, 5, 6, 7, 8, 9, 10, 11, 12}"
    by (simp add: le_Suc_eq numeral_eq_Suc)
  then show ?thesis
    by (elim insertE emptyE) (simp_all add: rootfs_steps_def Let_def due_def)
qed

section \<open>Properties\<close>

text \<open>
  A build cleans up after itself, wherever it stops: there is a number of steps that
  succeeded, all of them if and only if no error is returned; after those, and the one that
  failed, exactly the clean-ups that are due run, and in this order: the image is unmounted
  if it was mounted, the container removed if its id was read, the directory removed if it
  was made.
\<close>

theorem buildRootfs_cleans_up:
  assumes "buildRootfs fails tmp cid img agentBin outPath sizeMB = (err, trace)"
  shows "\<exists>n \<le> 12. (err = None \<longleftrightarrow> n = 12) \<and>
    list_all (\<lambda>(c, _). fails c = None) (take n (rootfs_steps tmp cid img agentBin outPath sizeMB)) \<and>
    trace = map fst (take (Suc n) (rootfs_steps tmp cid img agentBin outPath sizeMB)) @ due tmp cid n"
proof -
  let ?st = "rootfs_steps tmp cid img agentBin outPath sizeMB"
  obtain n where n: "n \<le> length ?st" "\<forall>(c, _) \<in> set (take n ?st). fails c = None"
    "if err = None then n = length ?st \<and> trace = map fst ?st @ clean_ups ?st @ []
     else n < length ?st \<and> fails (fst (?st ! n)) \<noteq> None \<and>
          trace = map fst (take (Suc n) ?st) @ clean_ups (take n ?st) @ []"
    using run_script_trace [of fails ?st "[]" err trace] assms unfolding buildRootfs_def by blast
  have "n \<le> 12" using n(1) by simp
  moreover have "list_all (\<lambda>(c, _). fails c = None) (take n ?st)"
    using n(2) by (simp add: list_all_iff)
  moreover have "(err = None \<longleftrightarrow> n = 12) \<and> trace = map fst (take (Suc n) ?st) @ due tmp cid n"
  proof (cases "err = None")
    case True
    then have "n = length ?st" "trace = map fst ?st @ clean_ups ?st"
      using n(3) by (simp_all only: if_True append_Nil2)
    then show ?thesis using True clean_ups_due [of 12 tmp cid img agentBin outPath sizeMB] by simp
  next
    case False
    then have "n < length ?st" "trace = map fst (take (Suc n) ?st) @ clean_ups (take n ?st)"
      using n(3) by (simp_all only: if_False append_Nil2)
    then show ?thesis using False clean_ups_due [of n tmp cid img agentBin outPath sizeMB] by simp
  qed
  ultimately show ?thesis by blast
qed

lemma buildRootfs_cleans_up_witness:
  "\<exists>n. snd (buildRootfs (\<lambda>_. None) ''/t'' ''c'' ''i'' ''a'' ''o'' 1)
    = map fst (take (Suc n) (rootfs_steps ''/t'' ''c'' ''i'' ''a'' ''o'' 1)) @ due ''/t'' ''c'' n"
  using buildRootfs_cleans_up [OF prod.collapse [symmetric], of "\<lambda>_. None" "''/t''" "''c''" "''i''" "''a''" "''o''" 1]
  by blast

text \<open>
  A failed unmount goes unnoticed: whether or not it fails, the build returns and runs the
  same, so the directory is then removed with the image still mounted inside it.
\<close>

theorem buildRootfs_ignores_umount:
  "buildRootfs (fails(Run [''umount'', Join tmp ''mnt''] := e)) tmp cid img agentBin outPath sizeMB
    = buildRootfs fails tmp cid img agentBin outPath sizeMB"
  unfolding buildRootfs_def
  by (rule run_script_cong) (auto simp: rootfs_steps_def Let_def)

section \<open>The registry after an addition\<close>

lemma set_upsert_ids: "lang_ID ` set (upsert l ls) = insert (lang_ID l) (lang_ID ` set ls)"
  by (induction ls) auto

lemma upsert_in: "l \<in> set (upsert l ls)"
  by (induction ls) auto

lemma upsert_other: "x \<in> set ls \<Longrightarrow> lang_ID x \<noteq> lang_ID l \<Longrightarrow> x \<in> set (upsert l ls)"
  by (induction ls) auto

lemma upsert_loadable: "loadable ls \<Longrightarrow> \<not> incomplete l \<Longrightarrow> loadable (upsert l ls)"
proof (induction ls)
  case (Cons x xs)
  have "lang_ID x \<notin> lang_ID ` set (upsert l xs)" if "lang_ID x \<noteq> lang_ID l"
    using that Cons.prems(1) by (simp add: set_upsert_ids loadable_def)
  with Cons show ?case by (auto simp: loadable_def)
qed (simp add: loadable_def)

lemma upsert_wire:
  "list_all (\<lambda>x. wire_Language x = x) ls \<Longrightarrow> wire_Language l = l \<Longrightarrow>
    map wire_Language (upsert l ls) = upsert l ls"
  by (induction ls) (auto simp: list_all_iff intro: map_idI)

lemma languages_file_indented:
  "decode_languages (jindent (enc_slice enc_Language (Some ls)) 0 @ [CHR 0x0A]) = Some (Some (map wire_Language ls))"
proof -
  have "jdepth (enc_slice enc_Language (Some ls)) \<le> Suc 1"
    by (rule jdepth_enc_slice) (simp add: enc_Language_def)
  then have "jdepth (enc_slice enc_Language (Some ls)) \<le> max_depth" by (simp add: max_depth_def)
  moreover have "json_ok (enc_slice enc_Language (Some ls))"
    by (rule json_ok_enc_slice) (simp add: enc_Language_def)
  ultimately show ?thesis
    by (simp add: decode_languages_def json_parse_jindent dec_Language_enc
        dec_slice_enc [where f = dec_Language and g = enc_Language and h = wire_Language])
qed

text \<open>
  C38. The file stays loadable: adding a complete language to a loadable file (of valid UTF-8)
  writes a file that \<^verbatim>\<open>langs.Load\<close> accepts; the new language is found under its id, every
  other one is still found as it was, and a replaced one keeps its place in the listing.
\<close>

theorem appendLanguage_loads:
  assumes "decode_languages b = Some ls" and "b \<noteq> []" and "loadable (elems ls)"
    and "list_all (\<lambda>x. wire_Language x = x) (elems ls)" and "wire_Language l = l" and "\<not> incomplete l"
    and "fails (MkdirAll (Dir path)) = None"
  shows "\<exists>out r. appendLanguage fails je write_err (Inr b) path l = (write_err, Some out) \<and>
    Load_registry (Inr out) dir = Inr r \<and> Get r (lang_ID l) = Some (resolve dir l) \<and>
    list_all (\<lambda>x. lang_ID x = lang_ID l \<or> Get r (lang_ID x) = Some (resolve dir x)) (elems ls) \<and>
    All r = map (resolve dir) (upsert l (elems ls))"
proof -
  let ?new = "upsert l (elems ls)"
  let ?out = "jindent (enc_slice enc_Language (Some ?new)) 0 @ [CHR 0x0A]"
  have out: "appendLanguage fails je write_err (Inr b) path l = (write_err, Some ?out)"
    using assms(1,2,7) by (simp add: appendLanguage_def)
  have dec: "decode_languages ?out = Some (Some ?new)"
    using languages_file_indented [of ?new] upsert_wire [OF assms(4,5)] by simp
  obtain r where r: "load_loop dir ?new empty_registry = Inr r"
    using load_loop_ok_iff upsert_loadable [OF assms(3,6)] by blast
  then have "Load_registry (Inr ?out) dir = Inr r" using dec by (simp add: Load_registry_decode)
  moreover have "Get r (lang_ID l) = Some (resolve dir l)"
    using load_loop_Get [OF r upsert_in] .
  moreover have "list_all (\<lambda>x. lang_ID x = lang_ID l \<or> Get r (lang_ID x) = Some (resolve dir x)) (elems ls)"
    using load_loop_Get [OF r] upsert_other [of _ "elems ls" l] by (fastforce simp: list_all_iff)
  ultimately show ?thesis using out load_loop_All [OF r] by blast
qed

lemma python_wire: "wire_Language python_lang = python_lang"
  by (simp add: wire_Language_def python_lang_def valid_utf8_fix valid_utf8_ascii)

definition ruby_lang :: Language where
  "ruby_lang = python_lang\<lparr>lang_ID := ''rb'', lang_RunCmd := ''ruby main.rb''\<rparr>"

lemma appendLanguage_loads_witness:
  "\<exists>out r. appendLanguage (\<lambda>_. None) (\<lambda>_. []) None (Inr python_file) ''/l.json'' ruby_lang = (None, Some out) \<and>
    Load_registry (Inr out) ''/r'' = Inr r \<and> All r = map (resolve ''/r'') [python_lang, ruby_lang]"
proof -
  have "decode_languages python_file = Some (Some [python_lang])"
    using languages_file [of "[python_lang]"] python_wire by (simp add: python_file_def)
  moreover have "python_file \<noteq> []"
    by (simp add: python_file_def enc_slice_def)
  moreover have "loadable [python_lang]" "\<not> incomplete ruby_lang"
    by (simp_all add: loadable_def incomplete_def python_lang_def ruby_lang_def)
  moreover have "wire_Language ruby_lang = ruby_lang"
    by (simp add: wire_Language_def ruby_lang_def python_lang_def valid_utf8_fix valid_utf8_ascii)
  moreover have "upsert ruby_lang [python_lang] = [python_lang, ruby_lang]"
    by (simp add: ruby_lang_def python_lang_def)
  ultimately show ?thesis
    using appendLanguage_loads [of python_file "Some [python_lang]" ruby_lang "\<lambda>_. None" "''/l.json''" "\<lambda>_. []" None "''/r''"]
      python_wire by simp blast
qed

text \<open>
  The server finds the rootfs that was built: for an id without a slash, loading the entry
  with the directory the build used resolves its rootfs to the very path the image was
  written to.
\<close>

theorem added_rootfs_resolves:
  assumes "af_rootfs_dir f \<noteq> []" and "slash \<notin> set (af_id f)"
  shows "lang_Rootfs (resolve (af_rootfs_dir f) (new_language f)) = rootfs_path f"
proof -
  let ?e = "af_id f @ ''.ext4''"
  have e: "slash \<notin> set ?e" "plain_elem ?e"
    using assms(2) by (auto simp: plain_elem_def append_eq_Cons_conv)
  then have "Base (rootfs_path f) = ?e" using Base_Join [OF assms(1)] by (simp add: rootfs_path_def)
  moreover have "\<not> IsAbs ?e" using e(1) by (cases "af_id f") (auto simp: IsAbs_def)
  ultimately show ?thesis by (simp add: resolve_def new_language_def rootfs_path_def)
qed

lemma added_rootfs_resolves_witness:
  "lang_Rootfs (resolve ''/r'' (new_language ((add_defaults Map.empty)\<lparr>af_id := ''py'', af_rootfs_dir := ''/r''\<rparr>)))
    = rootfs_path ((add_defaults Map.empty)\<lparr>af_id := ''py'', af_rootfs_dir := ''/r''\<rparr>)"
  using added_rootfs_resolves [of "(add_defaults Map.empty)\<lparr>af_id := ''py'', af_rootfs_dir := ''/r''\<rparr>"]
  by simp

end
