(* ===== verification/Dredd_Build_Host.thy ===== *)
theory Dredd_Build_Host
  imports Dredd_Build
begin

text \<open>
  The build of a rootfs with its helpers, on a host that is a parameter: \<^verbatim>\<open>run\<close>,
  \<^verbatim>\<open>runRedirect\<close>, \<^verbatim>\<open>copyFile\<close> and \<^verbatim>\<open>buildRootfs\<close> as they are written, each call a
  state transformer. On a host that answers by an oracle and keeps a log this is the script of
  \<^theory_text>\<open>Dredd_Build\<close>; on a host with the documented effects it leaves no mount, no container
  and no directory behind.
\<close>

section \<open>The host and the helpers\<close>

text \<open>
  \<open>bh_exec\<close> runs a command with its standard output on a file, or on that of the process;
  \<open>bh_io_copy\<close> copies an opened file into another.
\<close>

record 'h build_host =
  bh_mkdtemp :: "string \<Rightarrow> 'h \<Rightarrow> (string + string) \<times> 'h"
  bh_remove_all :: "string \<Rightarrow> 'h \<Rightarrow> 'h"
  bh_mkdir_all :: "string \<Rightarrow> 'h \<Rightarrow> string option \<times> 'h"
  bh_read_file :: "string \<Rightarrow> 'h \<Rightarrow> (string + string) \<times> 'h"
  bh_exec :: "string list \<Rightarrow> string option \<Rightarrow> 'h \<Rightarrow> string option \<times> 'h"
  bh_create :: "string \<Rightarrow> 'h \<Rightarrow> string option \<times> 'h"
  bh_open :: "string \<Rightarrow> 'h \<Rightarrow> string option \<times> 'h"
  bh_open_trunc :: "string \<Rightarrow> nat \<Rightarrow> 'h \<Rightarrow> string option \<times> 'h"
  bh_io_copy :: "string \<Rightarrow> string \<Rightarrow> 'h \<Rightarrow> string option \<times> 'h"

definition run :: "'h build_host \<Rightarrow> string list \<Rightarrow> 'h \<Rightarrow> string option \<times> 'h" where
  "run h args st = bh_exec h args None st"

definition runRedirect :: "'h build_host \<Rightarrow> string \<Rightarrow> string list \<Rightarrow> 'h \<Rightarrow> string option \<times> 'h" where
  "runRedirect h outPath args st =
     (case bh_create h outPath st of
        (Some e, st1) \<Rightarrow> (Some e, st1)
      | (None, st1) \<Rightarrow> bh_exec h args (Some outPath) st1)"

definition copyFile :: "'h build_host \<Rightarrow> string \<Rightarrow> string \<Rightarrow> nat \<Rightarrow> 'h \<Rightarrow> string option \<times> 'h" where
  "copyFile h src dst mode st =
     (case bh_open h src st of
        (Some e, st1) \<Rightarrow> (Some e, st1)
      | (None, st1) \<Rightarrow>
          (case bh_open_trunc h dst mode st1 of
             (Some e, st2) \<Rightarrow> (Some e, st2)
           | (None, st2) \<Rightarrow> bh_io_copy h src dst st2))"

text \<open>\<^verbatim>\<open>usage\<close>: what is printed, and the exit status.\<close>

definition usage :: "string list \<times> nat" where
  "usage =
     ([''dredd-build add --image IMAGE --id ID --source FILE --run CMD [--compile CMD]'',
       ''                [--name NAME] [--version VER]'',
       ''                [--size-mb N] [--rootfs-dir DIR]'',
       ''                [--agent PATH] [--languages-file PATH]''], 2)"

section \<open>The build\<close>

text \<open>A failing step returns its error under a label; a deferred call runs on every return after it.\<close>

definition or_return :: "string \<Rightarrow> string option \<times> 'h \<Rightarrow> ('h \<Rightarrow> string option \<times> 'h) \<Rightarrow> string option \<times> 'h" where
  "or_return label r k = (case r of (Some e, st) \<Rightarrow> (Some (label @ e), st) | (None, st) \<Rightarrow> k st)"

definition deferring :: "('h \<Rightarrow> 'h) \<Rightarrow> string option \<times> 'h \<Rightarrow> string option \<times> 'h" where
  "deferring d r = (fst r, d (snd r))"

definition fill_image :: "'h build_host \<Rightarrow> string \<Rightarrow> string \<Rightarrow> string \<Rightarrow> 'h \<Rightarrow> string option \<times> 'h" where
  "fill_image h agentBin tarPath mnt st =
     or_return ''untar: '' (run h [''tar'', ''-xf'', tarPath, ''-C'', mnt] st) (\<lambda>st.
     or_return [] (bh_mkdir_all h (Join mnt ''sbin'') st) (\<lambda>st.
     or_return ''install agent: '' (copyFile h agentBin (Join (Join mnt ''sbin'') ''dreddagent-init'') 493 st) (\<lambda>st.
     or_return [] (bh_mkdir_all h (Join mnt ''work'') st) (\<lambda>st. (None, st)))))"

definition make_image ::
    "'h build_host \<Rightarrow> string \<Rightarrow> string \<Rightarrow> string \<Rightarrow> string \<Rightarrow> gint \<Rightarrow> 'h \<Rightarrow> string option \<times> 'h" where
  "make_image h tmp cid agentBin outPath sizeMB st =
     (let tarPath = Join tmp ''rootfs.tar''; mnt = Join tmp ''mnt'' in
      or_return ''docker export: '' (runRedirect h tarPath [''docker'', ''export'', cid] st) (\<lambda>st.
      or_return ''dd: '' (run h [''dd'', ''if=/dev/zero'', ''of='' @ outPath, ''bs=1M'', ''count='' @ itoa sizeMB,
        ''status=none''] st) (\<lambda>st.
      or_return ''mkfs.ext4: '' (run h [''mkfs.ext4'', ''-q'', ''-F'', outPath] st) (\<lambda>st.
      or_return [] (bh_mkdir_all h mnt st) (\<lambda>st.
      or_return ''mount: '' (run h [''mount'', ''-o'', ''loop'', outPath, mnt] st) (\<lambda>st.
      deferring (\<lambda>st. snd (run h [''umount'', mnt] st)) (fill_image h agentBin tarPath mnt st)))))))"

definition build ::
    "'h build_host \<Rightarrow> string \<Rightarrow> string \<Rightarrow> string \<Rightarrow> gint \<Rightarrow> 'h \<Rightarrow> string option \<times> 'h" where
  "build h img agentBin outPath sizeMB st =
     (case bh_mkdtemp h ''dredd-build-'' st of
        (Inl e, st1) \<Rightarrow> (Some e, st1)
      | (Inr tmp, st1) \<Rightarrow>
          deferring (bh_remove_all h tmp)
            (let cidFile = Join tmp ''cid'' in
             or_return ''docker create: ''
               (run h [''docker'', ''create'', ''--cidfile'', cidFile, img, ''true''] st1) (\<lambda>st.
             case bh_read_file h cidFile st of
               (Inl e, st2) \<Rightarrow> (Some e, st2)
             | (Inr cid, st2) \<Rightarrow>
                 deferring (\<lambda>st. snd (run h [''docker'', ''rm'', ''-f'', cid] st))
                   (make_image h tmp cid agentBin outPath sizeMB st2))))"

section \<open>The script\<close>

text \<open>A host that answers by an oracle and logs the commands of the script.\<close>

definition oracle_host :: "(host_cmd \<Rightarrow> string option) \<Rightarrow> string \<Rightarrow> string \<Rightarrow> host_cmd list build_host" where
  "oracle_host fails tmp cid =
     \<lparr>bh_mkdtemp = (\<lambda>_ log. (case fails MkTemp of Some e \<Rightarrow> Inl e | None \<Rightarrow> Inr tmp, log @ [MkTemp])),
      bh_remove_all = (\<lambda>d log. log @ [RemoveAll d]),
      bh_mkdir_all = (\<lambda>d log. (fails (MkdirAll d), log @ [MkdirAll d])),
      bh_read_file = (\<lambda>f log. (case fails (ReadFile f) of Some e \<Rightarrow> Inl e | None \<Rightarrow> Inr cid, log @ [ReadFile f])),
      bh_exec = (\<lambda>args out log. let c = (case out of None \<Rightarrow> Run args | Some f \<Rightarrow> RunRedirect f args)
                 in (fails c, log @ [c])),
      bh_create = (\<lambda>_ log. (None, log)),
      bh_open = (\<lambda>_ log. (None, log)),
      bh_open_trunc = (\<lambda>_ _ log. (None, log)),
      bh_io_copy = (\<lambda>src dst log. (fails (CopyFile src dst), log @ [CopyFile src dst]))\<rparr>"

text \<open>
  The script is the code: on a host that answers by an oracle and logs what it is asked, the
  build as written returns the error of the script and has run exactly its commands, in its
  order, whatever the oracle says.
\<close>

theorem build_is_script:
  "build (oracle_host fails tmp cid) img agentBin outPath sizeMB log =
     (case buildRootfs fails tmp cid img agentBin outPath sizeMB of (err, trace) \<Rightarrow> (err, log @ trace))"
  by (simp add: build_def make_image_def fill_image_def buildRootfs_def rootfs_steps_def or_return_def deferring_def
      run_def runRedirect_def copyFile_def oracle_host_def Let_def split: option.split)

section \<open>What the build leaves behind\<close>

record resources =
  rs_containers :: "string set"
  rs_mounts :: "string set"
  rs_temps :: "string set"

text \<open>A path inside a directory.\<close>

definition inside :: "string \<Rightarrow> string \<Rightarrow> bool" where
  "inside d m \<longleftrightarrow> (\<exists>x. m = Join d x)"

text \<open>
  The documented effects on containers, mount points and temporary directories. A temporary
  directory is new, so nothing is mounted in it; one in which something is mounted is not
  promised to go away.
\<close>

locale build_laws =
  fixes h :: "'h build_host" and view :: "'h \<Rightarrow> resources"
  assumes mkdtemp_ok: "bh_mkdtemp h p st = (Inr d, st') \<Longrightarrow>
      d \<notin> rs_temps (view st) \<and> (\<forall>m \<in> rs_mounts (view st). \<not> inside d m) \<and>
      view st' = (view st)\<lparr>rs_temps := insert d (rs_temps (view st))\<rparr>"
    and mkdtemp_err: "bh_mkdtemp h p st = (Inl e, st') \<Longrightarrow> view st' = view st"
    and remove_all: "\<forall>m \<in> rs_mounts (view st). \<not> inside d m \<Longrightarrow>
      view (bh_remove_all h d st) = (view st)\<lparr>rs_temps := rs_temps (view st) - {d}\<rparr>"
    and mkdir_all: "view (snd (bh_mkdir_all h d st)) = view st"
    and read_file: "view (snd (bh_read_file h f st)) = view st"
    and files: "view (snd (bh_create h f st)) = view st" "view (snd (bh_open h f st)) = view st"
      "view (snd (bh_open_trunc h f mode st)) = view st" "view (snd (bh_io_copy h f g st)) = view st"
    and create_ok: "bh_exec h [''docker'', ''create'', ''--cidfile'', f, img, ''true''] out st = (None, st') \<Longrightarrow>
      \<exists>c. c \<notin> rs_containers (view st) \<and> view st' = (view st)\<lparr>rs_containers := insert c (rs_containers (view st))\<rparr> \<and>
        (\<forall>x st''. bh_read_file h f st' = (Inr x, st'') \<longrightarrow> x = c)"
    and create_err: "bh_exec h [''docker'', ''create'', ''--cidfile'', f, img, ''true''] out st = (Some e, st') \<Longrightarrow>
      view st' = view st"
    and rm_ok: "bh_exec h [''docker'', ''rm'', ''-f'', c] out st = (None, st') \<Longrightarrow>
      view st' = (view st)\<lparr>rs_containers := rs_containers (view st) - {c}\<rparr>"
    and mount_ok: "bh_exec h [''mount'', ''-o'', ''loop'', f, m] out st = (None, st') \<Longrightarrow>
      view st' = (view st)\<lparr>rs_mounts := insert m (rs_mounts (view st))\<rparr>"
    and mount_err: "bh_exec h [''mount'', ''-o'', ''loop'', f, m] out st = (Some e, st') \<Longrightarrow> view st' = view st"
    and umount_ok: "bh_exec h [''umount'', m] out st = (None, st') \<Longrightarrow>
      view st' = (view st)\<lparr>rs_mounts := rs_mounts (view st) - {m}\<rparr>"
    and other: "hd args \<notin> {''docker'', ''mount'', ''umount''} \<or> take 2 args = [''docker'', ''export''] \<Longrightarrow>
      view (snd (bh_exec h args out st)) = view st"
begin

lemma or_return_view:
  assumes "view (snd r) = v" and "\<And>st. view st = v \<Longrightarrow> fst r = None \<Longrightarrow> view (snd (k st)) = v"
  shows "view (snd (or_return label r k)) = v"
  using assms by (auto simp: or_return_def split: prod.split option.split)

lemma runRedirect_view: "take 2 args = [''docker'', ''export''] \<Longrightarrow> view (snd (runRedirect h f args st)) = view st"
  using files(1) [of f st] other [of args] by (auto simp: runRedirect_def split: prod.split option.split)

lemma copyFile_view: "view (snd (copyFile h src dst mode st)) = view st"
proof -
  obtain e1 st1 where 1: "bh_open h src st = (e1, st1)" by fastforce
  obtain e2 st2 where 2: "bh_open_trunc h dst mode st1 = (e2, st2)" by fastforce
  show ?thesis
    using files(2) [of src st] files(3) [of dst mode st1] files(4) [of src dst st2] 1 2
    by (cases e1; cases e2) (simp_all add: copyFile_def)
qed

lemma fill_image_view: "view (snd (fill_image h agentBin tarPath mnt st)) = view st"
  unfolding fill_image_def run_def
  by (intro or_return_view) (simp_all add: other mkdir_all copyFile_view)

text \<open>The mount point is taken away again.\<close>

lemma make_image_view:
  assumes "\<And>m st. fst (bh_exec h [''umount'', m] None st) = None" and "Join tmp ''mnt'' \<notin> rs_mounts (view st)"
  shows "view (snd (make_image h tmp cid agentBin outPath sizeMB st)) = view st"
proof -
  let ?mnt = "Join tmp ''mnt''"
  have mounted: "view (snd (or_return ''mount: '' (run h [''mount'', ''-o'', ''loop'', outPath, ?mnt] s) (\<lambda>s.
      deferring (\<lambda>s. snd (run h [''umount'', ?mnt] s)) (fill_image h agentBin tarPath ?mnt s)))) = view st"
    if "view s = view st" for s tarPath
  proof -
    obtain e s1 where m: "bh_exec h [''mount'', ''-o'', ''loop'', outPath, ?mnt] None s = (e, s1)" by fastforce
    show ?thesis
    proof (cases e)
      case (Some x)
      then show ?thesis using m mount_err that by (auto simp: or_return_def run_def)
    next
      case None
      let ?s2 = "snd (fill_image h agentBin tarPath ?mnt s1)"
      obtain s3 where u: "bh_exec h [''umount'', ?mnt] None ?s2 = (None, s3)"
        using assms(1) by (metis prod.collapse)
      have "view ?s2 = (view st)\<lparr>rs_mounts := insert ?mnt (rs_mounts (view st))\<rparr>"
        using mount_ok m None that fill_image_view by metis
      then have "view s3 = view st" using umount_ok [OF u] assms(2) by simp
      then show ?thesis using m None u by (simp add: or_return_def run_def deferring_def)
    qed
  qed
  show ?thesis
    unfolding make_image_def Let_def
    by (intro or_return_view mounted) (simp_all add: runRedirect_view run_def other mkdir_all)
qed

text \<open>And so is the container, when its id could be read.\<close>

lemma build_view:
  assumes "\<And>m st. fst (bh_exec h [''umount'', m] None st) = None"
    and "\<And>c st. fst (bh_exec h [''docker'', ''rm'', ''-f'', c] None st) = None"
    and "\<And>f st. \<not> isl (fst (bh_read_file h f st))"
  shows "view (snd (build h img agentBin outPath sizeMB st)) = view st"
proof -
  obtain d st1 where t: "bh_mkdtemp h ''dredd-build-'' st = (d, st1)" by fastforce
  show ?thesis
  proof (cases d)
    case (Inl e)
    then show ?thesis using t mkdtemp_err by (simp add: build_def)
  next
    case (Inr tmp)
    have new: "tmp \<notin> rs_temps (view st)" "\<forall>m \<in> rs_mounts (view st). \<not> inside tmp m"
      "view st1 = (view st)\<lparr>rs_temps := insert tmp (rs_temps (view st))\<rparr>"
      using mkdtemp_ok t Inr by blast+
    obtain e st2 where c: "bh_exec h [''docker'', ''create'', ''--cidfile'', Join tmp ''cid'', img, ''true''] None st1 = (e, st2)"
      by fastforce
    obtain x st3 where r: "bh_read_file h (Join tmp ''cid'') st2 = (Inr x, st3)"
      using assms(3) by (metis isl_def obj_sumE prod.collapse)
    let ?st4 = "snd (make_image h tmp x agentBin outPath sizeMB st3)"
    obtain st5 where rm: "bh_exec h [''docker'', ''rm'', ''-f'', x] None ?st4 = (None, st5)"
      using assms(2) by (metis prod.collapse)
    have gone: "view (bh_remove_all h tmp s) = view st" if "view s = view st1" for s
      using remove_all [of s tmp] that new by simp
    show ?thesis
    proof (cases e)
      case (Some y)
      then have "view st2 = view st1" using create_err c by blast
      then show ?thesis using t Inr c Some gone by (simp add: build_def run_def or_return_def deferring_def)
    next
      case None
      obtain cid where cid: "cid \<notin> rs_containers (view st1)"
        "view st2 = (view st1)\<lparr>rs_containers := insert cid (rs_containers (view st1))\<rparr>" "x = cid"
        using create_ok c None r by blast
      have v3: "view st3 = view st2" using read_file [of "Join tmp ''cid''" st2] r by simp
      have "Join tmp ''mnt'' \<notin> rs_mounts (view st3)" using new v3 cid(2) by (auto simp: inside_def)
      from make_image_view [OF assms(1) this] have "view ?st4 = view st2" using v3 by simp
      then have "view st5 = view st1" using rm_ok [OF rm] cid by simp
      then show ?thesis using t Inr c None r rm gone by (simp add: build_def run_def or_return_def deferring_def)
    qed
  qed
qed

end



section \<open>Witnesses\<close>

text \<open>A host whose containers get one id, and whose temporary directory is always the same.\<close>

definition sim_build :: "bool \<Rightarrow> resources build_host" where
  "sim_build readable =
     \<lparr>bh_mkdtemp = (\<lambda>_ s. if ''/tmp/b'' \<in> rs_temps s \<or> rs_mounts s \<noteq> {} then (Inl ''exists'', s)
        else (Inr ''/tmp/b'', s\<lparr>rs_temps := insert ''/tmp/b'' (rs_temps s)\<rparr>)),
      bh_remove_all = (\<lambda>d s. s\<lparr>rs_temps := rs_temps s - {d}\<rparr>),
      bh_mkdir_all = (\<lambda>_ s. (None, s)),
      bh_read_file = (\<lambda>_ s. (if readable then Inr ''c1'' else Inl ''permission denied'', s)),
      bh_exec = (\<lambda>args out s.
        if take 2 args = [''docker'', ''create''] then
          (if ''c1'' \<in> rs_containers s then (Some ''conflict'', s)
           else (None, s\<lparr>rs_containers := insert ''c1'' (rs_containers s)\<rparr>))
        else if take 2 args = [''docker'', ''rm''] then (None, s\<lparr>rs_containers := rs_containers s - {args ! 3}\<rparr>)
        else if hd args = ''mount'' then (None, s\<lparr>rs_mounts := insert (args ! 4) (rs_mounts s)\<rparr>)
        else if hd args = ''umount'' then (None, s\<lparr>rs_mounts := rs_mounts s - {args ! 1}\<rparr>)
        else (None, s)),
      bh_create = (\<lambda>_ s. (None, s)),
      bh_open = (\<lambda>_ s. (None, s)),
      bh_open_trunc = (\<lambda>_ _ s. (None, s)),
      bh_io_copy = (\<lambda>_ _ s. (None, s))\<rparr>"

interpretation sim_build: build_laws "sim_build readable" "\<lambda>s. s"
proof
  fix args :: "string list" and out and st :: resources
  assume a: "hd args \<notin> {''docker'', ''mount'', ''umount''} \<or> take 2 args = [''docker'', ''export'']"
  have "hd args = ''docker''" if "take 2 args = ''docker'' # xs" for xs using that by (cases args) auto
  with a show "snd (bh_exec (sim_build readable) args out st) = st" by (auto simp: sim_build_def)
qed (auto simp: sim_build_def split: if_splits)



end
