(* ===== verification/Spec2Isabelle.thy ===== *)
theory Spec2Isabelle
  imports Job_Types Dredd_App Pool_Lang Pool_Generic Pool_Spare Pool_Live Worker_Live Server_System Pool_Executor
    Dredd_Test Dredd_Build_Host
begin

text \<open>
  dredd is a service that runs submitted programs in Firecracker MicroVMs: an HTTP API stores a
  submission in Redis, workers take it off a list and give it to an executor, which takes a VM
  from a pool and exchanges one request and one response with the agent inside. This
  development models all of its packages, with the world around them (Redis, the operating
  systems, HTTP and TCP, Docker, the clock) as parameters.

  \<^bold>\<open>Theories and sources.\<close>
  \<^item> \<open>Prelude\<close>: Go's 64-bit integers as words, printing and parsing of numbers, polling loops.
  \<open>Go_Utf8\<close>, \<open>Go_Json\<close>, \<open>Go_Json_RT\<close>, \<open>Go_Json_Types\<close>, \<open>Go_Json_Indent\<close>, \<open>Go_Path\<close>,
  \<open>Go_Quote\<close>: what the program uses of \<^verbatim>\<open>encoding/json\<close>, \<^verbatim>\<open>unicode/utf8\<close>, \<^verbatim>\<open>path/filepath\<close>
  and \<^verbatim>\<open>strconv\<close>, with the round trips of the encoder and the decoder.
  \<^item> \<open>Config\<close>: \<^verbatim>\<open>config/config.go\<close>. \<open>Langs\<close>: \<^verbatim>\<open>langs/\<close>. \<open>Jobs\<close>: \<^verbatim>\<open>jobs/\<close>. \<open>Agent_Proto\<close>:
  \<^verbatim>\<open>agent/proto.go\<close>, the messages between host and guest.
  \<^item> \<open>Redis\<close>, \<open>Queue\<close>: \<^verbatim>\<open>queue/redis.go\<close>. The client is a record of operations over an opaque
  state; \<open>redis_laws\<close> states what they do to a view of it, failures included. \<open>job_queue\<close> and
  \<open>job_store\<close> are the contracts the worker relies on, and \<open>redis_laws\<close> gives both.
  \<^item> \<open>Worker\<close>: \<^verbatim>\<open>worker/worker.go\<close> as written (\<open>process\<close>, \<open>loop\<close>) and cut at its visible calls
  (\<open>wstep\<close>). \<open>Worker_System\<close>: the goroutines of \<^verbatim>\<open>Run\<close> with submissions and expiries
  interleaved (\<open>sys_step\<close>). \<open>Job_Types\<close>: the form of the stored jobs.
  \<^item> \<open>Vsock\<close>: \<^verbatim>\<open>firecracker/vsock.go\<close>. \<open>Capped_Buffer\<close>, \<open>Guest_Agent\<close>:
  \<^verbatim>\<open>guest/dreddagent/main.go\<close>. \<open>Firecracker\<close>: \<^verbatim>\<open>firecracker/driver.go\<close>, over a host with
  \<open>host_laws\<close>.
  \<^item> \<open>Pool\<close>, \<open>Pool_Inv\<close>, \<open>Pool_Live\<close>: the three strategies of \<^verbatim>\<open>pool/\<close> as one machine of goroutines
  with channels, semaphore, wait group and \<^verbatim>\<open>Close\<close>; a VM is the id of its process. \<open>Pool_Boot\<close>:
  \<^verbatim>\<open>bootFor\<close> of each strategy over the driver. \<open>Pool_Host\<close>: a host with a context that may be
  done. \<open>Pool_Lang\<close>, \<open>Pool_Generic\<close>, \<open>Pool_Spare\<close>: \<^verbatim>\<open>pool/prewarmed_lang.go\<close>,
  \<^verbatim>\<open>prewarmed_generic.go\<close> and \<^verbatim>\<open>ondemand_spare.go\<close> as they are, with VM handles, processes and
  boots, each a refinement of the machine. \<open>Pool_Executor\<close>: \<^verbatim>\<open>pool/executor.go\<close>, and host and
  guest at the two ends of one connection.
  \<^item> \<open>Worker_Live\<close>: how a job gets its answer. \<open>Server_System\<close>: the workers on the pool, each call
  of the executor cut into the steps of \<^verbatim>\<open>Acquire\<close>, exchange and \<^verbatim>\<open>Release\<close>.
  \<^item> \<open>Api\<close>: \<^verbatim>\<open>api/\<close>. \<open>Dredd_App\<close>: \<^verbatim>\<open>dredd.go\<close> and \<^verbatim>\<open>cmd/dredd/main.go\<close>. \<open>Dredd_Build\<close>,
  \<open>Dredd_Build_Host\<close>: \<^verbatim>\<open>cmd/dredd-build/main.go\<close>, the script of a build and the build with its
  helpers on a host. \<open>Dredd_Test\<close>: the executors of \<^verbatim>\<open>dreddtest/\<close>.

  \<^bold>\<open>State.\<close> A struct is a record with the struct's name and prefixed fields, an error a value
  of a datatype or a string, \<^verbatim>\<open>nil\<close> an option. A slice that may be \<^verbatim>\<open>nil\<close> is an optional
  list. Handlers and operations pass the state of what they call; goroutines are step
  relations whose steps are single operations that others can see, with everything a run
  can do as reachability.

  \<^bold>\<open>What is shown.\<close>
  \<^item> One job: the way from submission to status (below), what \<^verbatim>\<open>process\<close> leaves behind on every
  path, exactly one retry, what is lost when Redis fails.
  \<^item> Many jobs: each is with one worker at most, its status only moves forward, its fields fit
  its status, the list hands out each submission at most once and in order; a job that waits
  can always be answered as long as Redis answers.
  \<^item> VMs: each is in one place; boots and channels stay within their bounds; nothing is sent on
  a closed channel; \<^verbatim>\<open>Close\<close> can end and leaves only VMs in use; a boot leaves no process
  it does not return; what shrinks a pool, and that a call that waits can be served until then.
  The three pools as written refine the machine, so that the Firecracker processes of the host
  are at any time exactly those of the pool's VMs.
  \<^item> Workers and pool together: a VM serves the job of one worker and is of that job's language;
  the number of VMs is bounded by the pool's size and the number of workers.
  \<^item> Host and guest: the exchange refines the agent's handler; sizes and budgets; the forms a
  response can take; the local and the docker executor agree with the agent.
  \<^item> The process: what \<^verbatim>\<open>New\<close> owns, the order of a shutdown, and the jobs it abandons.
  \<^item> Files: the registry accepts exactly complete and distinct entries; adding a language keeps
  the file loadable; a build cleans up, except for the container whose id it cannot read.

  \<^bold>\<open>Bounds.\<close> The polling loops (\<open>dial_loop\<close>, \<open>wait_loop\<close>) recurse on the time left; the clock
  is an argument that moves with what the calls and the sleeps take. Only \<open>loop\<close> of the worker
  has fuel, one unit per look at the context: it returns exactly from the fuel on that reaches
  the first look that finds the context cancelled. Seven steps of \<open>wstep\<close> are one job.
  Lengths and times are 64-bit words with their wrap-around, the frame header a 32-bit one.

  \<^bold>\<open>Hosts.\<close> What the code asks of an operating system is a record of state transformers, with the
  laws it relies on as locales (\<open>host_laws\<close>, \<open>pool_host\<close>, \<open>build_laws\<close>, \<open>redis_laws\<close>,
  \<open>answering_redis\<close>), each interpreted on a simulated system. A context that is done is a host
  whose requests and sleeps fail; a pool's context is done from \<^verbatim>\<open>Close\<close> on, the one of a caller
  at any time. A boot with all its requests, and a kill, is one step of a pool: boots that overlap
  are taken in the order in which they end.

  \<^bold>\<open>Not modelled.\<close> Logging; the pause after a failed \<^verbatim>\<open>Dequeue\<close>; the text of the errors of
  \<^verbatim>\<open>encoding/json\<close> and \<^verbatim>\<open>strconv\<close> (parameters); the chi router's middlewares and matching; the
  flag package; file modes; the accessors \<^verbatim>\<open>Addr\<close> and \<^verbatim>\<open>Queue\<close> of the App, and constructors that
  only store their arguments; a second call of a pool's \<^verbatim>\<open>Close\<close>, which would close its channels
  twice; the memory behaviour of Go. The tests and the scripts that build images hold no logic of the
  program.
\<close>

section \<open>From submission to status\<close>

text \<open>What a worker makes of a submission in a language of its registry.\<close>

definition answered :: "('r, 'e) Worker \<Rightarrow> Language \<Rightarrow> Job \<Rightarrow> 'e \<Rightarrow> Job" where
  "answered w lang j e =
     verdict_job (verdict_of (fst (attempts (w_exe w) (lang_ID lang) (job_request (w_cfg w) lang j) maxAttempts [] e))) j"



text \<open>The state after the sample submission, and after a worker has taken it.\<close>

definition submitted_view :: redis_view where
  "submitted_view = snd (Enqueue mem_redis (new_job ''j1'' sample_request) empty_view)"

lemma submitted_steps:
  "exec sample_server (\<lambda>_. []) (Inr ''j1'') (jprint (enc_execRequest sample_request)) empty_view =
    (json_response 202 (JObj [(''id'', JStr ''j1'')]), submitted_view)"
  "Dequeue mem_redis submitted_view = (Inr ''j1'', rpop_view queueKey submitted_view)"
proof -
  show "exec sample_server (\<lambda>_. []) (Inr ''j1'') (jprint (enc_execRequest sample_request)) empty_view =
    (json_response 202 (JObj [(''id'', JStr ''j1'')]), submitted_view)"
    by (simp only: submitted_view_def sample_exec)
  have "pending submitted_view = [''j1'']"
    unfolding submitted_view_def Enqueue_mem snd_conv pending_enqueue
    by (simp add: sample_steps(3) new_job_def)
  then show "Dequeue mem_redis submitted_view = (Inr ''j1'', rpop_view queueKey submitted_view)"
    by (rule Dequeue_mem)
qed


end
